(* ===== verification/Bytes.thy ===== *)
theory Bytes
  imports Main "HOL-Library.Word"
begin

text \<open>
  Prelude of the development.  Bytes and byte vectors (\<open>unsigned char\<close>,
  \<open>std::vector<unsigned char>\<close>), the little-endian reads and writes of
  \<open>src/crypto/common.h\<close>, results that are either an error or a value, and the
  generic lemmas on lists, words and results that the component theories share.
  The collections declared here gather the facts that drive the component proofs:
  \<open>le_simps\<close> (little-endian coding), \<open>ser_defs\<close> (the definitions of
  the serialization layer) and \<open>res_simps\<close> (results).
\<close>

unbundle bit_operations_syntax

named_theorems le_simps "little-endian coding of naturals and words"
named_theorems ser_defs "definitions of the serialization layer"
named_theorems res_simps "results: an error or a value"

type_synonym byte = "8 word"
type_synonym valtype = "byte list"


section \<open>Little-endian coding\<close>

text \<open>
  \<^term>\<open>le_bytes\<close> is the memory image of an unsigned integer of \<open>n\<close> bytes
  after \<open>htole\<close>, \<^term>\<open>le_val\<close> its inverse.  The
  conversion to a byte keeps the low eight bits, as the narrowing cast does.
\<close>

primrec le_bytes :: "nat \<Rightarrow> nat \<Rightarrow> valtype" where
  "le_bytes 0 x = []"
| "le_bytes (Suc n) x = of_nat x # le_bytes n (x div 256)"

primrec le_val :: "valtype \<Rightarrow> nat" where
  "le_val [] = 0"
| "le_val (b # bs) = unat b + 256 * le_val bs"

lemma length_le_bytes [simp, le_simps]: "length (le_bytes n x) = n"
  by (induction n arbitrary: x) simp_all

lemma unat_of_nat_byte [simp, le_simps]: "unat (of_nat x :: byte) = x mod 256"
  by (simp add: unsigned_of_nat take_bit_eq_mod)

lemma unat_byte_less [simp]: "unat (b :: byte) < 256"
  using unsigned_less [of b] by simp

lemma unat_byte_le [simp]: "unat (b :: byte) \<le> 255"
  using unat_byte_less [of b] by linarith

lemma unat_byte_div [simp]: "unat (b :: byte) div 256 = 0"
  by simp

lemma of_nat_mod_byte [simp]: "(of_nat (x mod 256) :: byte) = of_nat x"
  by (rule word_unat_eq_iff [THEN iffD2]) simp

lemma byte_256 [simp]: "(256 :: byte) = 0"
  by simp

lemma of_nat_unat_add_byte [simp]: "(of_nat (unat b + 256 * x) :: byte) = b"
  by (simp del: unat_byte_less)

lemma le_val_less: "le_val bs < 256 ^ length bs"
proof (induction bs)
  case (Cons b bs)
  have "unat b + 256 * le_val bs < 256 * (le_val bs + 1)"
    by simp
  also have "\<dots> \<le> 256 * 256 ^ length bs"
    using Cons.IH by (intro mult_le_mono2) simp
  finally show ?case
    by simp
qed simp

lemma le_val_le_bytes [le_simps]: "le_val (le_bytes n x) = x mod 256 ^ n"
  by (induction n arbitrary: x) (simp_all add: mod_mult2_eq)

lemma le_bytes_le_val [simp, le_simps]: "le_bytes (length bs) (le_val bs) = bs"
  by (induction bs) simp_all

lemma le_bytes_le_val' [le_simps]: "length bs = n \<Longrightarrow> le_bytes n (le_val bs) = bs"
  by auto

lemma le_val_append: "le_val (xs @ ys) = le_val xs + 256 ^ length xs * le_val ys"
  by (induction xs) (simp_all add: algebra_simps)

lemma le_val_inj: "length xs = length ys \<Longrightarrow> le_val xs = le_val ys \<Longrightarrow> xs = ys"
  by (metis le_bytes_le_val)


section \<open>The top bit of a byte\<close>

lemma and_7f_take_bit: "b AND 0x7f = take_bit 7 (b :: byte)"
  by (simp add: take_bit_eq_mask mask_eq_exp_minus_1)

lemma unat_and_7f: "unat (b AND 0x7f :: byte) = unat b mod 128"
  unfolding and_7f_take_bit unsigned_take_bit_eq by (simp add: take_bit_eq_mod)

lemma byte_bit_7: "bit (b :: byte) 7 \<longleftrightarrow> 128 \<le> unat b"
proof -
  have "bit b 7 \<longleftrightarrow> bit (unat b) 7"
    by (simp add: bit_unsigned_iff)
  also have "\<dots> \<longleftrightarrow> odd (unat b div 128)"
    by (simp add: bit_iff_odd)
  also have "\<dots> \<longleftrightarrow> 128 \<le> unat b"
  proof -
    have "unat b div 128 < 2"
      using unat_byte_less [of b] by (intro less_mult_imp_div_less) simp
    then have "odd (unat b div 128) \<longleftrightarrow> 0 < unat b div 128"
      by (auto simp: less_2_cases_iff)
    then show ?thesis
      by (simp add: div_greater_zero_iff)
  qed
  finally show ?thesis .
qed

lemma byte_80: "(0x80 :: byte) = 2 ^ 7"
  by simp

lemma and_80_eq_0: "(b AND 0x80 :: byte) = 0 \<longleftrightarrow> unat b < 128"
  unfolding byte_80 and_exp_eq_0_iff_not_bit byte_bit_7 by (rule not_le)

lemma bit_byte_80: "bit (0x80 :: byte) n \<longleftrightarrow> n = 7"
  unfolding byte_80 bit_exp_iff by auto

lemma or_80_self: "128 \<le> unat b \<Longrightarrow> b OR 0x80 = (b :: byte)"
proof (rule bit_word_eqI)
  fix n assume "128 \<le> unat b"
  then have "bit b 7"
    by (simp only: byte_bit_7)
  then show "bit (b OR 0x80) n = bit b n"
    unfolding bit_or_iff bit_byte_80 by metis
qed

lemma unat_or_80: "unat b < 128 \<Longrightarrow> unat (b OR 0x80 :: byte) = unat b + 128"
proof -
  assume *: "unat b < 128"
  then have "\<not> bit b 7"
    unfolding byte_bit_7 by linarith
  then have "b OR 0x80 = b + 0x80"
    by (intro disjunctive_add [symmetric]) (metis bit_byte_80)
  then show ?thesis
    using * by (simp add: unat_word_ariths)
qed


section \<open>Words of 16, 32 and 64 bits as bytes\<close>

lemma unat_word_less: "unat (w :: 'a::len word) < 2 ^ LENGTH('a)"
  by (rule unsigned_less)

definition word_bytes :: "'a::len word \<Rightarrow> valtype" where
  "word_bytes w = le_bytes (LENGTH('a) div 8) (unat w)"

definition bytes_word :: "valtype \<Rightarrow> 'a::len word" where
  "bytes_word bs = of_nat (le_val bs)"

lemma length_word_bytes [simp]: "length (word_bytes (w :: 'a::len word)) = LENGTH('a) div 8"
  by (simp add: word_bytes_def)

lemma power_256_div: "8 dvd n \<Longrightarrow> (256 :: nat) ^ (n div 8) = 2 ^ n"
proof -
  assume "8 dvd n"
  then obtain k where "n = 8 * k" ..
  then show ?thesis
    by (simp add: power_mult)
qed

lemma bytes_word_bytes [simp, le_simps]:
  "8 dvd LENGTH('a::len) \<Longrightarrow> bytes_word (word_bytes (w :: 'a word)) = w"
  by (simp add: bytes_word_def word_bytes_def le_val_le_bytes power_256_div)

lemma word_bytes_word [le_simps]:
  assumes "8 dvd LENGTH('a::len)" "length bs = LENGTH('a) div 8"
  shows "word_bytes (bytes_word bs :: 'a word) = bs"
proof -
  have "le_val bs < 2 ^ LENGTH('a)"
    using le_val_less [of bs] assms by (simp add: power_256_div)
  then show ?thesis
    using assms(2) by (simp add: word_bytes_def bytes_word_def unsigned_of_nat take_bit_nat_eq_self le_bytes_le_val')
qed


section \<open>Results\<close>

text \<open>
  A fallible operation returns \<open>Inl e\<close> where the source sets an error and returns
  false (or throws), and \<open>Inr v\<close> otherwise.  \<^term>\<open>bindE\<close> runs the
  continuation only after a success, which is the shape of
  \<open>if (!f(...)) return false;\<close>.
\<close>

definition bindE :: "'e + 'a \<Rightarrow> ('a \<Rightarrow> 'e + 'b) \<Rightarrow> 'e + 'b" where
  "bindE m f = (case m of Inl e \<Rightarrow> Inl e | Inr x \<Rightarrow> f x)"

lemma bindE_simps [simp, res_simps]:
  "bindE (Inl e) f = Inl e"
  "bindE (Inr x) f = f x"
  by (simp_all add: bindE_def)

lemma bindE_eq_Inr [res_simps]: "bindE m f = Inr y \<longleftrightarrow> (\<exists>x. m = Inr x \<and> f x = Inr y)"
  by (cases m) simp_all

lemma bindE_eq_Inl [res_simps]:
  "bindE m f = Inl e \<longleftrightarrow> m = Inl e \<or> (\<exists>x. m = Inr x \<and> f x = Inl e)"
  by (cases m) simp_all

lemma bindE_cong [fundef_cong]:
  "m = m' \<Longrightarrow> (\<And>x. m' = Inr x \<Longrightarrow> f x = f' x) \<Longrightarrow> bindE m f = bindE m' f'"
  by (cases m') simp_all

lemma if_Inl_eq_Inr [res_simps]: "(if b then Inl e else m) = Inr x \<longleftrightarrow> \<not> b \<and> m = Inr x"
  by simp

lemma bind_option_cong [fundef_cong]:
  "m = m' \<Longrightarrow> (\<And>x. m' = Some x \<Longrightarrow> f x = f' x) \<Longrightarrow> Option.bind m f = Option.bind m' f'"
  by (cases m') simp_all


section \<open>Lists\<close>

lemma take_drop_append_eq: "length xs = n \<Longrightarrow> take n (xs @ ys) = xs \<and> drop n (xs @ ys) = ys"
  by simp

lemma nth_append_length2: "i < length ys \<Longrightarrow> (xs @ ys) ! (length xs + i) = ys ! i"
  by simp

lemma list_eq_4:
  "length xs = 4 \<longleftrightarrow> (\<exists>a b c d. xs = [a, b, c, d])"
  by (auto simp: numeral_eq_Suc length_Suc_conv)

lemma byte_of_unat: "unat (b :: byte) = n \<Longrightarrow> b = of_nat n"
  by auto

end
