(* ===== verification/ScriptNum.thy ===== *)
theory ScriptNum
  imports Bytes
begin

text \<open>
  Script numbers (class \<open>CScriptNum\<close> of \<open>src/script/script.h\<close>).  The member
  \<open>m_value\<close> is an \<open>int64_t\<close>: it is an integer here, the conversions to and
  from bytes work on 64-bit words as the code does, and the theorems state the range where it
  matters.  The shifts of \<open>set_vch\<close> are defined in C++ for at most eight bytes, which the
  constructor's size limit (4 or 5 everywhere in the interpreter) guarantees.
\<close>

named_theorems scriptnum_defs "definitions of script numbers"

datatype scriptnum_error = script_number_overflow | non_minimally_encoded

definition nDefaultMaxNumSize :: nat where
  "nDefaultMaxNumSize = 4"

definition int64_min :: int where "int64_min = - (2 ^ 63)"
definition int64_max :: int where "int64_max = 2 ^ 63 - 1"

lemma unat_drop_bit_8: "unat (drop_bit 8 (w :: 64 word)) = unat w div 256"
  unfolding unsigned_drop_bit_eq using unat_word_less [of w]
  by (simp add: drop_bit_eq_div take_bit_nat_eq_self)
lemma ucast_and_ff: "(ucast (w AND 0xff :: 64 word) :: byte) = of_nat (unat w)"
proof -
  have "w AND 0xff = take_bit 8 w"
    by (simp add: take_bit_eq_mask mask_eq_exp_minus_1)
  then show ?thesis
    unfolding word_unat_eq_iff unat_of_nat_byte
    by (simp only: unsigned_ucast_eq unsigned_take_bit_eq) (simp add: take_bit_eq_mod)
qed
lemma unat_ucast_byte: "unat (ucast (b :: byte) :: 64 word) = unat b"
proof -
  have "unat b < 2 ^ 64"
    by (rule less_trans [OF unat_byte_less]) simp
  then show ?thesis
    by (simp add: unsigned_ucast_eq take_bit_nat_eq_self)
qed
function scriptnum_bytes :: "64 word \<Rightarrow> valtype" where
  "scriptnum_bytes absvalue =
    (if absvalue = 0 then [] else ucast (absvalue AND 0xff) # scriptnum_bytes (drop_bit 8 absvalue))"
  by auto
termination
proof (relation "measure unat")
  show "(drop_bit 8 w, w) \<in> measure unat" if "w \<noteq> 0" for w :: "64 word"
    using that by (simp add: unat_drop_bit_8 unat_gt_0)
qed simp

declare scriptnum_bytes.simps [simp del]

definition serialize :: "int \<Rightarrow> valtype" where
  "serialize value =
    (if value = 0 then []
     else
       let neg = value < 0;
           absvalue = (if neg then NOT (word_of_int value) + 1 else word_of_int value :: 64 word);
           result = scriptnum_bytes absvalue
       in if last result AND 0x80 \<noteq> 0 then result @ [if neg then 0x80 else 0]
          else if neg then butlast result @ [last result OR 0x80]
          else result)"

primrec set_vch_loop :: "nat \<Rightarrow> 64 word \<Rightarrow> valtype \<Rightarrow> 64 word" where
  "set_vch_loop i result [] = result"
| "set_vch_loop i result (b # vch) = set_vch_loop (i + 1) (result OR push_bit (8 * i) (ucast b)) vch"

definition set_vch :: "valtype \<Rightarrow> int" where
  "set_vch vch =
    (if vch = [] then 0
     else
       let result = set_vch_loop 0 0 vch
       in if last vch AND 0x80 \<noteq> 0
          then - sint (result AND NOT (push_bit (8 * (length vch - 1)) 0x80))
          else sint result)"

definition scriptnum_minimal :: "valtype \<Rightarrow> bool" where
  "scriptnum_minimal vch =
    (vch = [] \<or> last vch AND 0x7f \<noteq> 0 \<or>
     \<not> (length vch \<le> 1 \<or> vch ! (length vch - 2) AND 0x80 = 0))"

definition CScriptNum :: "valtype \<Rightarrow> bool \<Rightarrow> nat \<Rightarrow> scriptnum_error + int" where
  "CScriptNum vch fRequireMinimal nMaxNumSize =
    (if length vch > nMaxNumSize then Inl script_number_overflow
     else if fRequireMinimal \<and> length vch > 0 \<and> last vch AND 0x7f = 0 \<and>
             (length vch \<le> 1 \<or> vch ! (length vch - 2) AND 0x80 = 0)
     then Inl non_minimally_encoded
     else Inr (set_vch vch))"

definition getint :: "int \<Rightarrow> int" where
  "getint m_value =
    (if m_value > 2 ^ 31 - 1 then 2 ^ 31 - 1
     else if m_value < - (2 ^ 31) then - (2 ^ 31)
     else m_value)"

text \<open>
  \<open>operator+=\<close>, \<open>operator-=\<close> and unary minus assert that the result is an
  \<open>int64_t\<close>; \<^term>\<open>None\<close> is the failed assertion.
\<close>

definition scriptnum_add :: "int \<Rightarrow> int \<Rightarrow> int option" where
  "scriptnum_add m_value rhs =
    (if rhs = 0 \<or> rhs > 0 \<and> m_value \<le> int64_max - rhs \<or> rhs < 0 \<and> m_value \<ge> int64_min - rhs
     then Some (m_value + rhs) else None)"

definition scriptnum_sub :: "int \<Rightarrow> int \<Rightarrow> int option" where
  "scriptnum_sub m_value rhs =
    (if rhs = 0 \<or> rhs > 0 \<and> m_value \<ge> int64_min + rhs \<or> rhs < 0 \<and> m_value \<le> int64_max + rhs
     then Some (m_value - rhs) else None)"

definition scriptnum_neg :: "int \<Rightarrow> int option" where
  "scriptnum_neg m_value = (if m_value \<noteq> int64_min then Some (- m_value) else None)"


section \<open>The encoding as arithmetic\<close>

text \<open>
  Reference definitions over naturals: the magnitude in base 256 without leading zeros, and the
  sign in the top bit of the last byte.
\<close>

function nat_bytes :: "nat \<Rightarrow> valtype" where
  "nat_bytes n = (if n = 0 then [] else of_nat n # nat_bytes (n div 256))"
  by auto
termination
  by (relation "measure id") auto

declare nat_bytes.simps [simp del]

lemma nat_bytes_0 [simp]: "nat_bytes 0 = []"
  by (simp add: nat_bytes.simps)

lemma scriptnum_bytes_eq: "scriptnum_bytes w = nat_bytes (unat w)"
proof (induction w rule: scriptnum_bytes.induct)
  case (1 w)
  show ?case
  proof (cases "w = 0")
    case False
    then show ?thesis
      using 1
      by (subst scriptnum_bytes.simps, subst nat_bytes.simps)
        (simp add: unat_drop_bit_8 ucast_and_ff unat_eq_zero)
  qed (simp add: scriptnum_bytes.simps)
qed

lemma le_val_nat_bytes [simp]: "le_val (nat_bytes n) = n"
  by (induction n rule: nat_bytes.induct) (subst nat_bytes.simps, simp)

lemma nat_bytes_nonempty: "0 < n \<Longrightarrow> nat_bytes n \<noteq> []"
  by (subst nat_bytes.simps) simp

lemma last_nat_bytes: "0 < n \<Longrightarrow> last (nat_bytes n) \<noteq> 0"
proof (induction n rule: nat_bytes.induct)
  case (1 n)
  show ?case
  proof (cases "n div 256 = 0")
    case True
    then have "n < 256"
      by (simp add: div_eq_0_iff)
    then show ?thesis
      using 1 True by (subst nat_bytes.simps) (simp add: word_unat_eq_iff)
  next
    case False
    then show ?thesis
      using 1 nat_bytes_nonempty [of "n div 256"] by (subst nat_bytes.simps) simp
  qed
qed

lemma nat_bytes_le_val: "bs = [] \<or> last bs \<noteq> 0 \<Longrightarrow> nat_bytes (le_val bs) = bs"
proof (induction bs)
  case (Cons b bs)
  have "unat b + 256 * le_val bs \<noteq> 0"
  proof (cases "bs = []")
    case True
    then show ?thesis
      using Cons.prems by (simp add: unat_eq_zero)
  next
    case False
    then have "nat_bytes (le_val bs) \<noteq> []"
      using Cons by simp
    then show ?thesis
      by (metis nat_bytes_0 add_is_0 mult_is_0 zero_neq_numeral)
  qed
  then show ?case
    using Cons by (subst nat_bytes.simps) (auto split: if_splits)
qed simp


definition sign_bytes :: "bool \<Rightarrow> valtype \<Rightarrow> valtype" where
  "sign_bytes neg bs =
    (if bs = [] then []
     else if 128 \<le> unat (last bs) then bs @ [if neg then 0x80 else 0]
     else if neg then butlast bs @ [last bs OR 0x80]
     else bs)"

lemma serialize_eq:
  assumes "int64_min \<le> v" "v \<le> int64_max"
  shows "serialize v = sign_bytes (v < 0) (nat_bytes (nat \<bar>v\<bar>))"
proof (cases "v = 0")
  case False
  have u: "unat (word_of_int x :: 64 word) = nat x" if "0 \<le> x" "x < 2 ^ 64" for x :: int
    using that by (simp add: unsigned_of_int take_bit_int_eq_self)
  have "unat (if v < 0 then NOT (word_of_int v) + 1 else word_of_int v :: 64 word) = nat \<bar>v\<bar>"
  proof (cases "v < 0")
    case True
    then have "NOT (word_of_int v) + 1 = (word_of_int (- v) :: 64 word)"
      by (simp add: minus_eq_not_plus_1 [symmetric])
    then show ?thesis
      using True assms u [of "- v"] by (simp add: int64_min_def del: wi_hom_neg of_int_minus)
  next
    case False
    then show ?thesis
      using assms u [of v] by (simp add: int64_max_def)
  qed
  then show ?thesis
    using False nat_bytes_nonempty [of "nat \<bar>v\<bar>"]
    by (auto simp: serialize_def sign_bytes_def Let_def scriptnum_bytes_eq and_80_eq_0 not_less split: if_splits)
qed (simp add: serialize_def sign_bytes_def)

lemma power_256: "(2 :: 'a::semiring_1) ^ (8 * i) = 256 ^ i"
  by (simp only: power_mult) simp

lemma set_vch_loop_eq:
  "r < 256 ^ i \<Longrightarrow> set_vch_loop i (of_nat r) vch = of_nat (r + 256 ^ i * le_val vch)"
proof (induction vch arbitrary: i r)
  case (Cons b vch)
  have bits: "\<not> bit (of_nat r :: 64 word) n" if "8 * i \<le> n" for n
  proof -
    have "r < 2 ^ (8 * i)"
      using Cons.prems by (simp add: power_mult)
    then have "r div 2 ^ n = 0"
      using that by (meson div_less less_le_trans one_le_numeral power_increasing)
    then have "\<not> bit r n"
      by (simp add: bit_iff_odd)
    then show ?thesis
      by (simp add: bit_of_nat_iff)
  qed
  have "(of_nat r :: 64 word) OR push_bit (8 * i) (ucast b) = of_nat r + push_bit (8 * i) (ucast b)"
    by (rule disjunctive_add [symmetric]) (use bits in \<open>auto simp: bit_push_bit_iff not_le\<close>)
  also have "\<dots> = of_nat (r + 256 ^ i * unat b)"
    unfolding push_bit_eq_mult power_256 by (simp add: mult.commute)
  finally have step: "(of_nat r :: 64 word) OR push_bit (8 * i) (ucast b) = of_nat (r + 256 ^ i * unat b)" .
  have "r + 256 ^ i * unat b < 256 ^ i * (unat b + 1)"
    using Cons.prems by (simp add: algebra_simps)
  also have "\<dots> \<le> 256 ^ i * 256"
    using unat_byte_less [of b] by (intro mult_le_mono2) linarith
  finally have "r + 256 ^ i * unat b < 256 ^ (i + 1)"
    by (simp add: mult.commute)
  from Cons.IH [OF this] show ?case
    by (simp only: set_vch_loop.simps step le_val.simps) (simp add: algebra_simps)
qed simp

lemma set_vch_loop_0: "set_vch_loop 0 0 vch = of_nat (le_val vch)"
  using set_vch_loop_eq [of 0 0 vch] by simp

text \<open>The sign bit: the value below it and its weight.\<close>

lemma le_val_top:
  assumes "vch \<noteq> []"
  shows "le_val vch = le_val (butlast vch) + 256 ^ (length vch - 1) * unat (last vch)"
    and "le_val (butlast vch) < 256 ^ (length vch - 1)"
  using le_val_append [of "butlast vch" "[last vch]"] le_val_less [of "butlast vch"] assms
  by simp_all

lemma le_val_div_top: "vch \<noteq> [] \<Longrightarrow> le_val vch div 2 ^ (8 * (length vch - 1) + 7) = unat (last vch) div 128"
  using le_val_top [of vch] by (simp add: power_add power_256 div_mult2_eq)

lemma sint_small: "x < 2 ^ 63 \<Longrightarrow> sint (of_nat x :: 64 word) = int x"
  by (simp add: signed_of_nat signed_take_bit_int_eq_self)

lemma set_vch_eq:
  assumes "vch \<noteq> []" "length vch \<le> 8"
  shows "set_vch vch =
    (if 128 \<le> unat (last vch) then - int (le_val vch - 128 * 256 ^ (length vch - 1)) else int (le_val vch))"
proof -
  define k where "k = length vch - 1"
  have k: "k \<le> 7" "256 ^ k * 128 \<le> (2 ^ 63 :: nat)"
  proof -
    show "k \<le> 7"
      using assms by (simp add: k_def)
    then have "(256 :: nat) ^ k \<le> 256 ^ 7"
      by (intro power_increasing) auto
    then show "256 ^ k * 128 \<le> (2 ^ 63 :: nat)"
      by simp
  qed
  have top: "le_val vch = le_val (butlast vch) + 256 ^ k * unat (last vch)" "le_val (butlast vch) < 256 ^ k"
    using le_val_top [OF assms(1)] by (simp_all add: k_def)
  show ?thesis
  proof (cases "128 \<le> unat (last vch)")
    case True
    let ?w = "of_nat (le_val vch) :: 64 word" and ?m = "push_bit (8 * k) 0x80 :: 64 word"
    have "unat (last vch) div 128 = 1"
      using True unat_byte_less [of "last vch"] by (intro div_nat_eqI) auto
    then have "bit (le_val vch) (8 * k + 7)"
      using le_val_div_top [OF assms(1)] by (simp add: bit_iff_odd k_def)
    then have b: "bit ?w (8 * k + 7)"
      using k(1) by (simp add: bit_of_nat_iff)
    have m: "?m = 2 ^ (8 * k + 7)"
      by (simp add: push_bit_eq_mult power_add)
    then have "NOT ?w AND ?m = 0"
      unfolding m and_exp_eq_0_iff_not_bit using b by (simp add: bit_not_iff)
    then have d: "?w AND NOT ?m = ?w - ?m"
      by (simp only: disjunctive_diff_eq_and_not)
    have "?m = of_nat (128 * 256 ^ k)"
      unfolding m power_add power_256 by simp
    moreover have "128 * 256 ^ k \<le> le_val vch"
      using top(1) mult_le_mono2 [OF True, of "256 ^ k"] by linarith
    ultimately have r: "?w AND NOT ?m = of_nat (le_val vch - 128 * 256 ^ k)"
      unfolding d by (simp only: of_nat_diff)
    have "256 ^ k * (unat (last vch) + 1) \<le> 256 ^ k * (256 :: nat)"
      using unat_byte_less [of "last vch"] by (intro mult_le_mono2) linarith
    moreover have "le_val vch < 256 ^ k * (unat (last vch) + 1)"
      using top by (simp add: algebra_simps)
    ultimately have "le_val vch - 128 * 256 ^ k < 2 ^ 63"
      using k(2) by linarith
    then show ?thesis
      using True assms(1) unfolding set_vch_def set_vch_loop_0 Let_def k_def [symmetric] r
      by (simp add: and_80_eq_0 not_less sint_small)
  next
    case False
    have "le_val vch < 256 ^ k * (unat (last vch) + 1)"
      using top by (simp add: algebra_simps)
    also have "\<dots> \<le> 256 ^ k * 128"
      using False by (intro mult_le_mono2) simp
    finally have "le_val vch < 2 ^ 63"
      using k by linarith
    then show ?thesis
      using False assms(1) by (simp add: set_vch_def set_vch_loop_0 and_80_eq_0 sint_small Let_def)
  qed
qed


section \<open>Round trips\<close>

lemma le_val_snoc: "le_val (bs @ [b]) = le_val bs + 256 ^ length bs * unat b"
  by (simp add: le_val_append)

lemma le_val_sign_bytes:
  assumes "bs \<noteq> []"
  shows "le_val (sign_bytes neg bs) =
    le_val bs + (if neg then 128 * 256 ^ (length (sign_bytes neg bs) - 1) else 0)"
    and "(128 \<le> unat (last (sign_bytes neg bs))) = neg"
    and "sign_bytes neg bs \<noteq> []"
proof -
  have "le_val bs = le_val (butlast bs) + 256 ^ (length bs - 1) * unat (last bs)"
    using le_val_top(1) [OF assms] .
  then show "le_val (sign_bytes neg bs) =
    le_val bs + (if neg then 128 * 256 ^ (length (sign_bytes neg bs) - 1) else 0)"
    using assms by (auto simp: sign_bytes_def le_val_snoc unat_or_80 not_le distrib_left)
qed (use assms in \<open>auto simp: sign_bytes_def unat_or_80 not_le\<close>)

lemma nat_bytes_length: "n < 256 ^ k \<longleftrightarrow> length (nat_bytes n) \<le> k"
proof (induction n arbitrary: k rule: nat_bytes.induct)
  case (1 n)
  show ?case
  proof (cases "n = 0 \<or> k = 0")
    case True
    then show ?thesis
      by (cases "n = 0") (simp_all add: nat_bytes_nonempty)
  next
    case False
    then obtain k' where "k = Suc k'"
      by (cases k) auto
    then have "n < 256 ^ k \<longleftrightarrow> n div 256 < 256 ^ k'"
      by (simp add: div_less_iff_less_mult mult.commute)
    then show ?thesis
      using 1 False \<open>k = Suc k'\<close> by (subst nat_bytes.simps) simp
  qed
qed

lemma length_sign_bytes:
  "length (sign_bytes neg bs) = (if bs = [] then 0 else if 128 \<le> unat (last bs) then length bs + 1 else length bs)"
  by (simp add: sign_bytes_def)

lemma length_sign_nat_bytes:
  assumes "0 < n" "0 < k"
  shows "length (sign_bytes neg (nat_bytes n)) \<le> k \<longleftrightarrow> n < 128 * 256 ^ (k - 1)"
proof -
  define bs where "bs = nat_bytes n"
  have bs: "bs \<noteq> []" "le_val bs = n"
    using assms by (simp_all add: bs_def nat_bytes_nonempty)
  have ge: "256 ^ (length bs - 1) \<le> n" and lt: "n < 256 ^ length bs"
    using nat_bytes_length [of n "length bs - 1"] nat_bytes_length [of n "length bs"] bs(1)
    by (cases bs; simp add: bs_def [symmetric] not_less [symmetric])+
  consider "length bs < k" | "length bs = k" | "k < length bs"
    by linarith
  then show ?thesis
  proof cases
    case 1
    then have "(256 :: nat) ^ length bs \<le> 256 ^ (k - 1)"
      by (intro power_increasing) auto
    then have "n < 128 * 256 ^ (k - 1)"
      using lt by linarith
    then show ?thesis
      using 1 by (simp add: length_sign_bytes bs_def [symmetric])
  next
    case 2
    have "n div (128 * 256 ^ (k - 1)) = unat (last bs) div 128"
      using le_val_div_top [OF bs(1), unfolded power_add power_256] bs(2) 2 by (simp add: mult.commute)
    then have "n < 128 * 256 ^ (k - 1) \<longleftrightarrow> unat (last bs) < 128"
      by (metis div_eq_0_iff mult_is_0 power_not_zero zero_neq_numeral)
    then show ?thesis
      using 2 bs by (simp add: length_sign_bytes bs_def [symmetric] not_le)
  next
    case 3
    then have "(256 :: nat) ^ k \<le> 256 ^ (length bs - 1)"
      by (intro power_increasing) auto
    moreover have "(256 :: nat) ^ k = 256 * 256 ^ (k - 1)"
      using assms(2) by (cases k) simp_all
    ultimately have "\<not> n < 128 * 256 ^ (k - 1)"
      using ge by linarith
    then show ?thesis
      using 3 bs by (simp add: length_sign_bytes bs_def [symmetric])
  qed
qed

lemma length_serialize:
  assumes "int64_min \<le> v" "v \<le> int64_max" "0 < k"
  shows "length (serialize v) \<le> k \<longleftrightarrow> \<bar>v\<bar> < 128 * 256 ^ (k - 1)"
proof (cases "v = 0")
  case False
  then have "length (serialize v) \<le> k \<longleftrightarrow> nat \<bar>v\<bar> < 128 * 256 ^ (k - 1)"
    using assms by (simp add: serialize_eq length_sign_nat_bytes)
  also have "\<dots> \<longleftrightarrow> int (nat \<bar>v\<bar>) < int (128 * 256 ^ (k - 1))"
    by (simp only: of_nat_less_iff)
  finally show ?thesis
    by simp
qed (simp add: serialize_def)

lemma set_vch_serialize:
  assumes "int64_min < v" "v \<le> int64_max"
  shows "set_vch (serialize v) = v"
proof (cases "v = 0")
  case False
  define bs where "bs = nat_bytes (nat \<bar>v\<bar>)"
  have bs: "bs \<noteq> []" "le_val bs = nat \<bar>v\<bar>"
    using False by (simp_all add: bs_def nat_bytes_nonempty)
  have e: "serialize v = sign_bytes (v < 0) bs"
    using assms by (simp add: serialize_eq bs_def)
  have "length (serialize v) \<le> 8"
    using assms length_serialize [of v 8] by (simp add: int64_min_def int64_max_def)
  then show ?thesis
    using le_val_sign_bytes [OF bs(1), of "v < 0"] bs(2) unfolding e
    by (subst set_vch_eq) (auto simp del: One_nat_def)
qed (simp add: serialize_def set_vch_def)


lemma last_and_7f_eq_0: "(b AND 0x7f :: byte) = 0 \<longleftrightarrow> unat b mod 128 = 0"
  by (metis unat_and_7f unat_eq_zero)

lemma serialize_minimal:
  assumes "int64_min \<le> v" "v \<le> int64_max"
  shows "scriptnum_minimal (serialize v)"
proof (cases "v = 0")
  case False
  define bs where "bs = nat_bytes (nat \<bar>v\<bar>)"
  have bs: "bs \<noteq> []" "unat (last bs) \<noteq> 0"
    using False last_nat_bytes [of "nat \<bar>v\<bar>"] by (simp_all add: bs_def nat_bytes_nonempty unat_eq_zero)
  have nz: "unat (last bs) mod 128 \<noteq> 0" if "unat (last bs) < 128"
    using bs(2) that by simp
  have nth: "(bs @ [x]) ! (length (bs @ [x]) - 2) = last bs" for x
    using bs(1) by (simp add: nth_append last_conv_nth)
  show ?thesis
    using bs nz nth assms
    by (auto simp: serialize_eq bs_def [symmetric] sign_bytes_def scriptnum_minimal_def last_and_7f_eq_0
        unat_or_80 not_le and_80_eq_0 Suc_le_eq)
qed (simp add: serialize_def scriptnum_minimal_def)

text \<open>The magnitude of a minimal encoding: its bytes without the sign.\<close>

definition magnitude_bytes :: "valtype \<Rightarrow> valtype" where
  "magnitude_bytes vch =
    (if last vch AND 0x7f = 0 then butlast vch else butlast vch @ [last vch AND 0x7f])"

lemma byte_split_80: "b = (if 128 \<le> unat b then (b AND 0x7f) OR 0x80 else b AND 0x7f :: byte)"
proof (cases "128 \<le> unat b")
  case True
  have "unat b = unat b mod 128 + 128"
    using True unat_byte_less [of b] le_mod_geq [of 128 "unat b"] mod_less [of "unat b - 128" 128]
    by linarith
  then show ?thesis
    using True by (simp add: word_unat_eq_iff unat_or_80 unat_and_7f)
next
  case False
  then show ?thesis
    by (simp add: word_unat_eq_iff unat_and_7f)
qed

lemma sign_magnitude_bytes:
  assumes "scriptnum_minimal vch" "vch \<noteq> []"
  shows "sign_bytes (128 \<le> unat (last vch)) (magnitude_bytes vch) = vch"
    and "magnitude_bytes vch \<noteq> []" and "last (magnitude_bytes vch) \<noteq> 0"
proof -
  let ?neg = "128 \<le> unat (last vch)"
  have "sign_bytes ?neg (magnitude_bytes vch) = vch \<and> magnitude_bytes vch \<noteq> [] \<and> last (magnitude_bytes vch) \<noteq> 0"
  proof (cases "last vch AND 0x7f = 0")
    case True
    then have l: "\<not> length vch \<le> 1" "128 \<le> unat (vch ! (length vch - 2))"
      using assms by (auto simp: scriptnum_minimal_def and_80_eq_0 not_less)
    have b1: "butlast vch \<noteq> []"
      using l(1) by (cases vch rule: rev_cases) auto
    then have "last (butlast vch) = vch ! (length vch - 2)"
      using l(1) by (subst last_conv_nth) (auto simp: nth_butlast numeral_2_eq_2)
    with b1 have b: "butlast vch \<noteq> []" "last (butlast vch) = vch ! (length vch - 2)"
      by auto
    have "last vch = (if ?neg then 0x80 else 0)"
      using byte_split_80 [of "last vch"] True by auto
    moreover have "last (butlast vch) \<noteq> 0"
      using l(2) b(2) by auto
    ultimately show ?thesis
      using True b l(2) append_butlast_last_id [OF assms(2)]
      by (simp add: sign_bytes_def magnitude_bytes_def)
  next
    case False
    have "unat (last vch AND 0x7f) < 128"
      by (simp add: unat_and_7f)
    then show ?thesis
      using False byte_split_80 [of "last vch"] append_butlast_last_id [OF assms(2)]
      by (auto simp: sign_bytes_def magnitude_bytes_def)
  qed
  then show "sign_bytes ?neg (magnitude_bytes vch) = vch" "magnitude_bytes vch \<noteq> []"
    "last (magnitude_bytes vch) \<noteq> 0"
    by auto
qed

lemma serialize_set_vch:
  assumes "scriptnum_minimal vch" "length vch \<le> 8"
  shows "serialize (set_vch vch) = vch"
proof (cases "vch = []")
  case False
  let ?neg = "128 \<le> unat (last vch)" and ?m = "magnitude_bytes vch"
  note m = sign_magnitude_bytes [OF assms(1) False]
  have val: "set_vch vch = (if ?neg then - int (le_val ?m) else int (le_val ?m))"
    using le_val_sign_bytes(1) [OF m(2), of ?neg] set_vch_eq [OF False assms(2)]
    unfolding m(1) by simp
  have nb: "nat_bytes (le_val ?m) = ?m"
    using m nat_bytes_le_val by blast
  then have pos: "0 < le_val ?m"
    using m(2) by (metis gr0I nat_bytes_0)
  have "le_val ?m < 128 * 256 ^ (8 - 1)"
    using length_sign_nat_bytes [OF pos, of 8 ?neg] assms(2) unfolding nb m(1) by simp
  then have "int64_min \<le> set_vch vch" "set_vch vch \<le> int64_max"
    unfolding val by (auto simp: int64_min_def int64_max_def)
  then show ?thesis
    using pos nb m(1) unfolding val by (auto simp: serialize_eq)
qed (simp add: serialize_def set_vch_def)

lemma set_vch_range:
  assumes "length vch \<le> k" "0 < k" "k \<le> 8"
  shows "\<bar>set_vch vch\<bar> < 128 * 256 ^ (k - 1)"
proof (cases "vch = []")
  case False
  define j where "j = length vch - 1"
  have top: "le_val vch = le_val (butlast vch) + 256 ^ j * unat (last vch)" "le_val (butlast vch) < 256 ^ j"
    using le_val_top [OF False] by (simp_all add: j_def)
  let ?m = "if 128 \<le> unat (last vch) then le_val vch - 128 * 256 ^ j else le_val vch"
  have val: "\<bar>set_vch vch\<bar> = int ?m"
    using set_vch_eq [OF False] assms unfolding j_def by simp
  have "?m < 256 ^ j * 128"
  proof -
    have "256 ^ j * (unat (last vch) + 1) \<le> 256 ^ j * (if 128 \<le> unat (last vch) then 256 else 128)"
      using unat_byte_less [of "last vch"] by (intro mult_le_mono2) (auto simp: not_le)
    moreover have "le_val vch < 256 ^ j * (unat (last vch) + 1)"
      using top by (simp add: algebra_simps)
    ultimately have "le_val vch < 256 ^ j * (if 128 \<le> unat (last vch) then 256 else 128)"
      by linarith
    then show ?thesis
      by (auto split: if_splits)
  qed
  also have "(256 :: nat) ^ j * 128 \<le> 256 ^ (k - 1) * 128"
    using assms unfolding j_def by (intro mult_le_mono1 power_increasing) auto
  finally have "?m < 128 * 256 ^ (k - 1)"
    by (simp only: mult.commute)
  then have "int ?m < int (128 * 256 ^ (k - 1))"
    by (simp only: of_nat_less_iff)
  then show ?thesis
    unfolding val by simp
qed (simp add: set_vch_def)

lemma CScriptNum_eq:
  "CScriptNum vch fMin k =
    (if length vch > k then Inl script_number_overflow
     else if fMin \<and> \<not> scriptnum_minimal vch then Inl non_minimally_encoded
     else Inr (set_vch vch))"
  by (auto simp: CScriptNum_def scriptnum_minimal_def)

lemma CScriptNum_range:
  "CScriptNum vch fMin k = Inr v \<Longrightarrow> 0 < k \<Longrightarrow> k \<le> 8 \<Longrightarrow> \<bar>v\<bar> < 128 * 256 ^ (k - 1)"
  using set_vch_range [of vch k] by (auto simp: CScriptNum_eq split: if_splits)

lemma CScriptNum_serialize:
  "int64_min < v \<Longrightarrow> v \<le> int64_max \<Longrightarrow> length (serialize v) \<le> k \<Longrightarrow> CScriptNum (serialize v) fMin k = Inr v"
  by (simp add: CScriptNum_eq set_vch_serialize serialize_minimal)


section \<open>Properties\<close>

text \<open>
  C36.  With the minimality requirement, decoding is exactly the inverse of encoding: for a size
  limit of at most eight bytes the constructor accepts \<open>vch\<close> with value \<open>v\<close> if and
  only if \<open>v\<close> fits the limit and \<open>vch\<close> is the bytes \<open>serialize\<close>
  writes for \<open>v\<close>.  So every number has one minimal encoding, and the limit of \<open>k\<close>
  bytes is the range below \<open>2 ^ (8 k - 1)\<close> in magnitude.
\<close>

theorem CScriptNum_minimal_iff_serialize:
  assumes "0 < k" "k \<le> 8"
  shows "CScriptNum vch True k = Inr v \<longleftrightarrow> \<bar>v\<bar> < 2 ^ (8 * k - 1) \<and> vch = serialize v"
proof -
  have p: "(128 :: int) * 256 ^ (k - 1) = 2 ^ (8 * k - 1)"
  proof -
    have "8 * k - 1 = 7 + 8 * (k - 1)"
      using assms by linarith
    then show ?thesis
      by (simp only: power_add power_256) simp
  qed
  have q: "(2 :: int) ^ (8 * k - 1) \<le> 2 ^ 63"
    using assms by (intro power_increasing) auto
  show ?thesis
  proof
    assume a: "CScriptNum vch True k = Inr v"
    then have "scriptnum_minimal vch" "length vch \<le> 8" "v = set_vch vch"
      using assms by (auto simp: CScriptNum_eq split: if_splits)
    then show "\<bar>v\<bar> < 2 ^ (8 * k - 1) \<and> vch = serialize v"
      using CScriptNum_range [OF a assms] serialize_set_vch p by simp
  next
    assume a: "\<bar>v\<bar> < 2 ^ (8 * k - 1) \<and> vch = serialize v"
    then have r: "int64_min < v" "v \<le> int64_max"
      using q unfolding int64_min_def int64_max_def by linarith+
    then have "length vch \<le> k"
      using a length_serialize [of v k] assms p by simp
    then show "CScriptNum vch True k = Inr v"
      using a r CScriptNum_serialize by blast
  qed
qed

theorem CScriptNum_minimal_iff_serialize_witness:
  "(0 :: nat) < 4 \<and> (4 :: nat) \<le> 8 \<and>
   (CScriptNum [0xff, 0x80] True 4 = Inr (- 255) \<longleftrightarrow> \<bar>- 255 :: int\<bar> < 2 ^ (8 * 4 - 1) \<and> [0xff, 0x80] = serialize (- 255))"
  using CScriptNum_minimal_iff_serialize [of 4 "[0xff, 0x80]" "- 255"] by simp

text \<open>
  The operands of the numeric opcodes: whatever bytes are accepted, with or without the
  minimality requirement, the value lies in \<open>[-2^(8k-1)+1, 2^(8k-1)-1]\<close>; for the
  default of four bytes this is the range the class comment states, and sums, differences and
  negations of two such operands pass the overflow assertions of the arithmetic operators.
\<close>

lemma CScriptNum_operands_in_range:
  assumes "CScriptNum a fMin nDefaultMaxNumSize = Inr x" "CScriptNum b fMin nDefaultMaxNumSize = Inr y"
  shows "- (2 ^ 31) + 1 \<le> x \<and> x \<le> 2 ^ 31 - 1 \<and> getint x = x \<and>
    scriptnum_add x y = Some (x + y) \<and> scriptnum_sub x y = Some (x - y) \<and> scriptnum_neg x = Some (- x) \<and>
    length (serialize (x + y)) \<le> 5 \<and> length (serialize (x - y)) \<le> 5"
proof -
  have "\<bar>x\<bar> < 2 ^ 31" "\<bar>y\<bar> < 2 ^ 31"
    using CScriptNum_range [OF assms(1)] CScriptNum_range [OF assms(2)] by (simp_all add: nDefaultMaxNumSize_def)
  then show ?thesis
    using length_serialize [of "x + y" 5] length_serialize [of "x - y" 5]
    by (auto simp: getint_def scriptnum_add_def scriptnum_sub_def scriptnum_neg_def int64_min_def int64_max_def)
qed

end
