(* ===== verification/Script.thy ===== *)
theory Script
  imports Opcodes ScriptNum
begin

text \<open>
  Scripts as byte strings (class \<open>CScript\<close> of \<open>src/script/script.h\<close> and
  \<open>src/script/script.cpp\<close>): appending data, reading the next instruction, and the
  functions that scan a script.  An iterator into a script is the list of the bytes from it to the
  end.  Every scan advances by \<open>GetScriptOp\<close>; \<open>script_ops\<close> is the list of
  the instructions it reads, against which the scans are characterised.
\<close>

named_theorems script_defs "definitions of the script component"

section \<open>Building scripts\<close>

definition AppendDataSize :: "nat \<Rightarrow> valtype" where
  "AppendDataSize nsize =
    (if nsize < OP_PUSHDATA1 then [of_nat nsize]
     else if nsize \<le> 0xff then [of_nat OP_PUSHDATA1, of_nat nsize]
     else if nsize \<le> 0xffff then of_nat OP_PUSHDATA2 # le_bytes 2 nsize
     else of_nat OP_PUSHDATA4 # le_bytes 4 nsize)"

definition push_data :: "valtype \<Rightarrow> valtype" where
  "push_data b = AppendDataSize (length b) @ b"

definition push_opcode :: "opcodetype \<Rightarrow> valtype" where
  "push_opcode opcode = [of_nat opcode]"

definition push_int64 :: "int \<Rightarrow> valtype" where
  "push_int64 n =
    (if n = -1 \<or> (n \<ge> 1 \<and> n \<le> 16) then [word_of_int (n + (int OP_1 - 1))]
     else if n = 0 then push_opcode OP_0
     else push_data (serialize n))"

definition IsUnspendable :: "valtype \<Rightarrow> bool" where
  "IsUnspendable s = ((length s > 0 \<and> unat (hd s) = OP_RETURN) \<or> length s > MAX_SCRIPT_SIZE)"


section \<open>Reading an instruction\<close>

text \<open>
  \<open>GetScriptOp pc\<close> returns whether an instruction was read, the iterator after the call
  (it has moved even when the read fails), \<open>opcodeRet\<close> and \<open>*pvchRet\<close>.
\<close>

definition push_size :: "opcodetype \<Rightarrow> valtype \<Rightarrow> (nat \<times> valtype) option" where
  "push_size opcode pc =
    (if opcode < OP_PUSHDATA1 then Some (opcode, pc)
     else if opcode = OP_PUSHDATA1 then (case pc of [] \<Rightarrow> None | b # pc' \<Rightarrow> Some (unat b, pc'))
     else if opcode = OP_PUSHDATA2 then (if length pc < 2 then None else Some (le_val (take 2 pc), drop 2 pc))
     else (if length pc < 4 then None else Some (le_val (take 4 pc), drop 4 pc)))"

definition GetScriptOp :: "valtype \<Rightarrow> bool \<times> valtype \<times> opcodetype \<times> valtype" where
  "GetScriptOp pc = (case pc of
     [] \<Rightarrow> (False, [], OP_INVALIDOPCODE, [])
   | b # pc1 \<Rightarrow>
       let opcode = unat b in
       if opcode \<le> OP_PUSHDATA4 then
         (case push_size opcode pc1 of
            None \<Rightarrow> (False, pc1, OP_INVALIDOPCODE, [])
          | Some (nSize, pc2) \<Rightarrow>
              if length pc2 < nSize then (False, pc2, OP_INVALIDOPCODE, [])
              else (True, drop nSize pc2, opcode, take nSize pc2))
       else (True, pc1, opcode, []))"

definition GetOp :: "valtype \<Rightarrow> (opcodetype \<times> valtype \<times> valtype) option" where
  "GetOp pc = (case GetScriptOp pc of (ok, pc', opcode, vch) \<Rightarrow> if ok then Some (opcode, vch, pc') else None)"

lemma push_size_length: "push_size opcode pc = Some (n, pc') \<Longrightarrow> length pc' \<le> length pc"
  by (auto simp: push_size_def split: if_splits list.splits)

lemma GetScriptOp_length:
  "pc \<noteq> [] \<Longrightarrow> GetScriptOp pc = (ok, pc', opcode, vch) \<Longrightarrow> length pc' < length pc"
  by (cases pc)
    (fastforce simp: GetScriptOp_def Let_def split: if_splits option.splits dest: push_size_length)+

lemma GetOp_Nil [simp]: "GetOp [] = None"
  by (simp add: GetOp_def GetScriptOp_def)

lemma GetOp_length: "GetOp pc = Some (opcode, vch, pc') \<Longrightarrow> length pc' < length pc"
  by (cases "pc = []", simp)
    (auto simp: GetOp_def split: prod.splits if_splits dest: GetScriptOp_length)

lemma GetOp_bounds: "GetOp pc = Some (opcode, vch, pc') \<Longrightarrow> opcode < 256 \<and> length vch + length pc' < length pc"
  by (cases pc)
    (fastforce simp: GetOp_def GetScriptOp_def Let_def split: if_splits option.splits dest: push_size_length)+

lemma GetOp_nonpush: "GetOp pc = Some (opcode, vch, pc') \<Longrightarrow> opcode > OP_PUSHDATA4 \<Longrightarrow> vch = []"
  by (cases pc) (auto simp: GetOp_def GetScriptOp_def Let_def split: if_splits option.splits)


section \<open>Scans\<close>

function script_ops :: "valtype \<Rightarrow> (opcodetype \<times> valtype) list" where
  "script_ops pc = (case GetOp pc of None \<Rightarrow> [] | Some (opcode, vch, pc') \<Rightarrow> (opcode, vch) # script_ops pc')"
  by auto
termination
  by (relation "measure length") (auto dest: GetOp_length)

function script_parses :: "valtype \<Rightarrow> bool" where
  "script_parses pc =
    (pc = [] \<or> (case GetOp pc of None \<Rightarrow> False | Some (opcode, vch, pc') \<Rightarrow> script_parses pc'))"
  by auto
termination
  by (relation "measure length") (auto dest: GetOp_length)

function GetSigOpCount_loop :: "bool \<Rightarrow> opcodetype \<Rightarrow> nat \<Rightarrow> valtype \<Rightarrow> nat" where
  "GetSigOpCount_loop fAccurate lastOpcode n pc =
    (if pc = [] then n
     else (case GetOp pc of
       None \<Rightarrow> n
     | Some (opcode, vch, pc') \<Rightarrow>
         let n' = (if opcode = OP_CHECKSIG \<or> opcode = OP_CHECKSIGVERIFY then n + 1
                   else if opcode = OP_CHECKMULTISIG \<or> opcode = OP_CHECKMULTISIGVERIFY then
                     (if fAccurate \<and> lastOpcode \<ge> OP_1 \<and> lastOpcode \<le> OP_16 then n + DecodeOP_N lastOpcode
                      else n + MAX_PUBKEYS_PER_MULTISIG)
                   else n)
         in GetSigOpCount_loop fAccurate opcode n' pc'))"
  by auto
termination
  by (relation "measure (\<lambda>(_, _, _, pc). length pc)") (auto dest: GetOp_length)

definition GetSigOpCount :: "bool \<Rightarrow> valtype \<Rightarrow> nat" where
  "GetSigOpCount fAccurate s = GetSigOpCount_loop fAccurate OP_INVALIDOPCODE 0 s"

definition IsPayToAnchor :: "valtype \<Rightarrow> bool" where
  "IsPayToAnchor s = (s = [of_nat OP_1, 0x02, 0x4e, 0x73])"

definition IsPayToAnchor_program :: "nat \<Rightarrow> valtype \<Rightarrow> bool" where
  "IsPayToAnchor_program version program = (version = 1 \<and> program = [0x4e, 0x73])"

definition IsPayToScriptHash :: "valtype \<Rightarrow> bool" where
  "IsPayToScriptHash s =
    (length s = 23 \<and> unat (s ! 0) = OP_HASH160 \<and> s ! 1 = 0x14 \<and> unat (s ! 22) = OP_EQUAL)"

definition IsPayToWitnessScriptHash :: "valtype \<Rightarrow> bool" where
  "IsPayToWitnessScriptHash s = (length s = 34 \<and> unat (s ! 0) = OP_0 \<and> s ! 1 = 0x20)"

definition IsPayToTaproot :: "valtype \<Rightarrow> bool" where
  "IsPayToTaproot s = (length s = 34 \<and> unat (s ! 0) = OP_1 \<and> s ! 1 = 0x20)"

definition IsWitnessProgram :: "valtype \<Rightarrow> (nat \<times> valtype) option" where
  "IsWitnessProgram s =
    (if length s < 4 \<or> length s > 42 then None
     else if unat (s ! 0) \<noteq> OP_0 \<and> (unat (s ! 0) < OP_1 \<or> unat (s ! 0) > OP_16) then None
     else if unat (s ! 1) + 2 = length s then Some (DecodeOP_N (unat (s ! 0)), drop 2 s)
     else None)"

function IsPushOnly :: "valtype \<Rightarrow> bool" where
  "IsPushOnly pc =
    (if pc = [] then True
     else (case GetOp pc of
       None \<Rightarrow> False
     | Some (opcode, vch, pc') \<Rightarrow> if opcode > OP_16 then False else IsPushOnly pc'))"
  by auto
termination
  by (relation "measure length") (auto dest: GetOp_length)

function HasValidOps :: "valtype \<Rightarrow> bool" where
  "HasValidOps it =
    (if it = [] then True
     else (case GetOp it of
       None \<Rightarrow> False
     | Some (opcode, item, it') \<Rightarrow>
         if opcode > MAX_OPCODE \<or> length item > MAX_SCRIPT_ELEMENT_SIZE then False else HasValidOps it'))"
  by auto
termination
  by (relation "measure length") (auto dest: GetOp_length)

text \<open>
  \<open>GetSigOpCount(const CScript& scriptSig)\<close> runs over the scriptSig and keeps the last
  item it pushes, the redeem script.
\<close>

function last_push :: "valtype \<Rightarrow> valtype \<Rightarrow> valtype option" where
  "last_push vData pc =
    (if pc = [] then Some vData
     else (case GetOp pc of
       None \<Rightarrow> None
     | Some (opcode, vch, pc') \<Rightarrow> if opcode > OP_16 then None else last_push vch pc'))"
  by auto
termination
  by (relation "measure (\<lambda>(_, pc). length pc)") (auto dest: GetOp_length)

definition GetSigOpCount_P2SH :: "valtype \<Rightarrow> valtype \<Rightarrow> nat" where
  "GetSigOpCount_P2SH s scriptSig =
    (if \<not> IsPayToScriptHash s then GetSigOpCount True s
     else (case last_push [] scriptSig of
       None \<Rightarrow> 0
     | Some vData \<Rightarrow> GetSigOpCount True vData))"

declare script_ops.simps [simp del] script_parses.simps [simp del] GetSigOpCount_loop.simps [simp del]
  IsPushOnly.simps [simp del] HasValidOps.simps [simp del] last_push.simps [simp del]

definition CheckMinimalPush :: "valtype \<Rightarrow> opcodetype \<Rightarrow> bool" where
  "CheckMinimalPush data opcode =
    (if length data = 0 then opcode = OP_0
     else if length data = 1 \<and> data ! 0 \<ge> 1 \<and> data ! 0 \<le> 16 then False
     else if length data = 1 \<and> data ! 0 = 0x81 then False
     else if length data \<le> 75 then opcode = length data
     else if length data \<le> 255 then opcode = OP_PUSHDATA1
     else if length data \<le> 65535 then opcode = OP_PUSHDATA2
     else True)"


section \<open>Reading back what was appended\<close>

definition push_op :: "nat \<Rightarrow> opcodetype" where
  "push_op n =
    (if n < OP_PUSHDATA1 then n else if n \<le> 0xff then OP_PUSHDATA1
     else if n \<le> 0xffff then OP_PUSHDATA2 else OP_PUSHDATA4)"

lemma GetScriptOp_push_data:
  assumes "length b < 2 ^ 32"
  shows "GetScriptOp (push_data b @ rest) = (True, rest, push_op (length b), b)"
proof -
  have "le_val (le_bytes 2 (length b)) = length b" if "length b \<le> 0xffff"
    using that by (simp add: le_val_le_bytes)
  moreover have "le_val (le_bytes 4 (length b)) = length b"
    using assms by (simp add: le_val_le_bytes)
  ultimately show ?thesis
    by (simp add: push_data_def AppendDataSize_def GetScriptOp_def push_size_def push_op_def Let_def)
qed

lemma GetOp_push_data [simp]:
  "length b < 2 ^ 32 \<Longrightarrow> GetOp (push_data b @ rest) = Some (push_op (length b), b, rest)"
  by (simp add: GetOp_def GetScriptOp_push_data)

lemma GetOp_opcode: "OP_PUSHDATA4 < unat b \<Longrightarrow> GetOp (b # rest) = Some (unat b, [], rest)"
  by (simp add: GetOp_def GetScriptOp_def Let_def)

lemma GetOp_push_opcode [simp]:
  "OP_PUSHDATA4 < opcode \<Longrightarrow> opcode < 256 \<Longrightarrow> GetOp (push_opcode opcode @ rest) = Some (opcode, [], rest)"
  by (simp add: push_opcode_def GetOp_opcode)

lemma push_size_append:
  "push_size opcode pc = Some (n, pc') \<Longrightarrow> push_size opcode (pc @ t) = Some (n, pc' @ t)"
  by (auto simp: push_size_def split: if_splits list.splits)

lemma GetOp_append:
  "GetOp s = Some (opcode, vch, s') \<Longrightarrow> GetOp (s @ t) = Some (opcode, vch, s' @ t)"
  by (cases s)
    (auto simp: GetOp_def GetScriptOp_def Let_def push_size_append split: if_splits option.splits prod.splits)

lemma script_ops_append:
  "script_parses s \<Longrightarrow> script_ops (s @ t) = script_ops s @ script_ops t"
proof (induction s rule: script_ops.induct)
  case (1 s)
  show ?case
  proof (cases "s = []")
    case True
    then show ?thesis
      by (simp add: script_ops.simps [of "[]"])
  next
    case False
    then obtain opcode vch s' where g: "GetOp s = Some (opcode, vch, s')" and p: "script_parses s'"
      using "1.prems" by (subst (asm) script_parses.simps) (auto split: option.splits)
    then show ?thesis
      using "1.IH" [OF g refl refl p]
      by (subst script_ops.simps, subst (2) script_ops.simps) (simp add: GetOp_append)
  qed
qed

lemma script_parses_append: "script_parses s \<Longrightarrow> script_parses (s @ t) = script_parses t"
proof (induction s rule: script_parses.induct)
  case (1 s)
  show ?case
  proof (cases "s = []")
    case False
    then obtain opcode vch s' where g: "GetOp s = Some (opcode, vch, s')" and p: "script_parses s'"
      using "1.prems" by (subst (asm) script_parses.simps) (auto split: option.splits)
    then show ?thesis
      using "1.IH" [OF g refl refl p] False
      by (subst script_parses.simps) (simp add: GetOp_append)
  qed simp
qed

lemma script_ops_push_data [simp]:
  "length b < 2 ^ 32 \<Longrightarrow> script_ops (push_data b @ rest) = (push_op (length b), b) # script_ops rest"
  by (subst script_ops.simps) simp

lemma script_parses_Nil [simp]: "script_parses []"
  by (simp add: script_parses.simps)

lemma push_data_not_Nil [simp]: "push_data b \<noteq> []"
  by (simp add: push_data_def AppendDataSize_def)

lemma script_parses_push_data [simp]:
  "length b < 2 ^ 32 \<Longrightarrow> script_parses (push_data b @ rest) = script_parses rest"
  by (subst script_parses.simps) simp

section \<open>The scans by the list of instructions\<close>

lemma IsPushOnly_iff:
  "IsPushOnly s \<longleftrightarrow> script_parses s \<and> list_all (\<lambda>(opcode, vch). opcode \<le> OP_16) (script_ops s)"
proof (induction s rule: IsPushOnly.induct)
  case (1 s)
  show ?case
    by (subst IsPushOnly.simps, subst script_parses.simps, subst script_ops.simps)
      (auto simp: 1 split: option.splits)
qed

lemma HasValidOps_iff:
  "HasValidOps s \<longleftrightarrow> script_parses s \<and>
    list_all (\<lambda>(opcode, vch). opcode \<le> MAX_OPCODE \<and> length vch \<le> MAX_SCRIPT_ELEMENT_SIZE) (script_ops s)"
proof (induction s rule: HasValidOps.induct)
  case (1 s)
  show ?case
    by (subst HasValidOps.simps, subst script_parses.simps, subst script_ops.simps)
      (auto simp: 1 split: option.splits)
qed

fun ops_sigops :: "bool \<Rightarrow> opcodetype \<Rightarrow> (opcodetype \<times> valtype) list \<Rightarrow> nat" where
  "ops_sigops acc prev [] = 0"
| "ops_sigops acc prev ((opcode, vch) # ops) =
    (if opcode = OP_CHECKSIG \<or> opcode = OP_CHECKSIGVERIFY then 1
     else if opcode = OP_CHECKMULTISIG \<or> opcode = OP_CHECKMULTISIGVERIFY then
       (if acc \<and> OP_1 \<le> prev \<and> prev \<le> OP_16 then DecodeOP_N prev else MAX_PUBKEYS_PER_MULTISIG)
     else 0) + ops_sigops acc opcode ops"

lemma GetSigOpCount_loop_eq: "GetSigOpCount_loop acc prev n s = n + ops_sigops acc prev (script_ops s)"
proof (induction acc prev n s rule: GetSigOpCount_loop.induct)
  case (1 acc prev n s)
  show ?case
  proof (cases "GetOp s")
    case None
    then show ?thesis
      by (subst GetSigOpCount_loop.simps, subst script_ops.simps) simp
  next
    case (Some r)
    obtain opcode vch s' where r: "r = (opcode, vch, s')"
      by (cases r)
    then have "s \<noteq> []"
      using Some by auto
    then show ?thesis
      using "1.IH" [OF _ Some r [symmetric] refl refl] Some r
      by (subst GetSigOpCount_loop.simps, subst script_ops.simps) (simp add: Let_def)
  qed
qed

lemma ops_sigops_mono: "ops_sigops True prev ops \<le> ops_sigops False prev ops"
proof (induction ops arbitrary: prev)
  case (Cons x ops)
  obtain opcode vch where x: "x = (opcode, vch)"
    by (cases x)
  have "DecodeOP_N prev \<le> MAX_PUBKEYS_PER_MULTISIG" if "OP_1 \<le> prev" "prev \<le> OP_16"
    using that by (simp add: DecodeOP_N_def)
  then show ?case
    using Cons.IH [of opcode] by (auto simp: x)
qed simp

lemma ops_sigops_prev: "ops_sigops False p ops = ops_sigops False q ops"
  by (cases ops) auto

lemma ops_sigops_bound: "ops_sigops acc prev ops \<le> MAX_PUBKEYS_PER_MULTISIG * length ops"
proof (induction acc prev ops rule: ops_sigops.induct)
  case (2 acc prev opcode vch ops)
  then show ?case
    by (auto simp: DecodeOP_N_def)
qed simp

lemma script_ops_length: "length (script_ops s) \<le> length s"
proof (induction s rule: script_ops.induct)
  case (1 s)
  show ?case
  proof (cases "GetOp s")
    case (Some r)
    obtain opcode vch s' where r: "r = (opcode, vch, s')"
      by (cases r)
    have "length (script_ops s') \<le> length s'"
      using "1.IH" [OF Some r [symmetric] refl] .
    then show ?thesis
      using Some r GetOp_length [of s opcode vch s'] by (subst script_ops.simps) simp
  qed (subst script_ops.simps, simp)
qed


text \<open>
  A witness program is recognised exactly when the script is a version opcode followed by one
  direct push of 2 to 40 bytes, and the version and program returned are those two.
\<close>

lemma IsWitnessProgram_iff:
  "IsWitnessProgram s = Some (version, program) \<longleftrightarrow>
    version \<le> 16 \<and> 2 \<le> length program \<and> length program \<le> 40 \<and>
    s = push_opcode (EncodeOP_N version) @ push_data program"
proof
  assume a: "IsWitnessProgram s = Some (version, program)"
  then obtain x y where s: "s = x # y # program"
    and l: "2 \<le> length program" "length program \<le> 40" and y: "unat y = length program"
    and v: "unat x = OP_0 \<or> OP_1 \<le> unat x \<and> unat x \<le> OP_16" and r: "version = DecodeOP_N (unat x)"
    by (cases s; cases "tl s") (auto simp: IsWitnessProgram_def not_less not_le split: if_splits)
  have "x = of_nat (EncodeOP_N version)" "y = of_nat (length program)" "version \<le> 16"
    using v r EncodeOP_N_DecodeOP_N [of "unat x"] by (auto simp: y [symmetric] DecodeOP_N_def)
  then show "version \<le> 16 \<and> 2 \<le> length program \<and> length program \<le> 40 \<and>
    s = push_opcode (EncodeOP_N version) @ push_data program"
    using l s by (simp add: push_opcode_def push_data_def AppendDataSize_def)
next
  assume "version \<le> 16 \<and> 2 \<le> length program \<and> length program \<le> 40 \<and>
    s = push_opcode (EncodeOP_N version) @ push_data program"
  then show "IsWitnessProgram s = Some (version, program)"
    by (auto simp: IsWitnessProgram_def push_opcode_def push_data_def AppendDataSize_def DecodeOP_N_def EncodeOP_N_def)
qed


section \<open>Properties\<close>

text \<open>
  What \<open>operator<<\<close> appends is what \<open>GetScriptOp\<close> reads: data of less
  than \<open>2^32\<close> bytes comes back unchanged, with the opcode of its length class, and the
  iterator stands after it.  The opcode satisfies \<open>CheckMinimalPush\<close> exactly when the data
  is not one of the single bytes that have an opcode of their own.
\<close>

lemma GetScriptOp_reads_push_data:
  assumes "length b < 2 ^ 32"
  shows "GetScriptOp (push_data b @ rest) = (True, rest, push_op (length b), b) \<and>
    (CheckMinimalPush b (push_op (length b)) \<longleftrightarrow> \<not> (\<exists>x. b = [x] \<and> (1 \<le> x \<and> x \<le> 16 \<or> x = 0x81)))"
proof
  show "GetScriptOp (push_data b @ rest) = (True, rest, push_op (length b), b)"
    by (rule GetScriptOp_push_data [OF assms])
  show "CheckMinimalPush b (push_op (length b)) \<longleftrightarrow> \<not> (\<exists>x. b = [x] \<and> (1 \<le> x \<and> x \<le> 16 \<or> x = 0x81))"
    by (auto simp: CheckMinimalPush_def push_op_def length_Suc_conv)
qed



end
