(* ===== verification/Serialize.thy ===== *)
theory Serialize
  imports Bytes
begin

text \<open>
  The serialization layer (\<open>src/serialize.h\<close>).  A stream is the list of the bytes not
  yet read; a read that throws \<open>std::ios_base::failure\<close> is \<^term>\<open>None\<close>.  The
  interface between the layer and its users is the locale \<open>codec\<close>: decoding the
  bytes of a value returns the value and leaves the rest of the stream.  Its extension
  \<open>canonical_codec\<close> adds that a decoder accepts no other bytes for the value.
\<close>


section \<open>Integers\<close>

definition ser_read :: "nat \<Rightarrow> valtype \<Rightarrow> (valtype \<times> valtype) option" where
  "ser_read n s = (if length s < n then None else Some (take n s, drop n s))"

definition ser_writedata8 :: "nat \<Rightarrow> valtype" where
  "ser_writedata8 obj = [of_nat obj]"

definition ser_writedata16 :: "nat \<Rightarrow> valtype" where
  "ser_writedata16 obj = le_bytes 2 obj"

definition ser_writedata32 :: "nat \<Rightarrow> valtype" where
  "ser_writedata32 obj = le_bytes 4 obj"

definition ser_writedata64 :: "nat \<Rightarrow> valtype" where
  "ser_writedata64 obj = le_bytes 8 obj"

definition ser_readdata :: "nat \<Rightarrow> valtype \<Rightarrow> (nat \<times> valtype) option" where
  "ser_readdata n s = map_option (\<lambda>(bs, rest). (le_val bs, rest)) (ser_read n s)"

definition ser_readdata8 :: "valtype \<Rightarrow> (nat \<times> valtype) option" where
  "ser_readdata8 s = (case s of [] \<Rightarrow> None | b # rest \<Rightarrow> Some (unat b, rest))"

definition ser_readdata16 :: "valtype \<Rightarrow> (nat \<times> valtype) option" where
  "ser_readdata16 s = ser_readdata 2 s"

definition ser_readdata32 :: "valtype \<Rightarrow> (nat \<times> valtype) option" where
  "ser_readdata32 s = ser_readdata 4 s"

definition ser_readdata64 :: "valtype \<Rightarrow> (nat \<times> valtype) option" where
  "ser_readdata64 s = ser_readdata 8 s"

lemmas ser_int_defs [ser_defs] =
  ser_writedata8_def ser_writedata16_def ser_writedata32_def ser_writedata64_def
  ser_readdata16_def ser_readdata32_def ser_readdata64_def

lemma ser_read_append [simp]: "length bs = n \<Longrightarrow> ser_read n (bs @ rest) = Some (bs, rest)"
  by (simp add: ser_read_def)

lemma ser_read_SomeD: "ser_read n s = Some (bs, rest) \<Longrightarrow> s = bs @ rest \<and> length bs = n"
  by (auto simp: ser_read_def split: if_splits)

lemma ser_readdata_write [simp]:
  "x < 256 ^ n \<Longrightarrow> ser_readdata n (le_bytes n x @ rest) = Some (x, rest)"
  by (simp add: ser_readdata_def le_val_le_bytes)

lemma ser_readdata_Some_iff:
  "ser_readdata n s = Some (x, rest) \<longleftrightarrow> s = le_bytes n x @ rest \<and> x < 256 ^ n"
proof
  assume "ser_readdata n s = Some (x, rest)"
  then obtain bs where "ser_read n s = Some (bs, rest)" "x = le_val bs"
    by (auto simp: ser_readdata_def)
  then show "s = le_bytes n x @ rest \<and> x < 256 ^ n"
    using le_val_less [of bs] by (auto simp: le_bytes_le_val' dest: ser_read_SomeD)
qed (simp add: ser_readdata_write)

lemma ser_readdata8_Some_iff:
  "ser_readdata8 s = Some (x, rest) \<longleftrightarrow> s = of_nat x # rest \<and> x < 256"
  by (auto simp: ser_readdata8_def take_bit_eq_mod unsigned_of_nat split: list.splits)


section \<open>The codec interface\<close>

locale codec =
  fixes enc :: "'a \<Rightarrow> valtype"
    and dec :: "valtype \<Rightarrow> ('a \<times> valtype) option"
    and ok :: "'a \<Rightarrow> bool"
  assumes dec_enc: "ok x \<Longrightarrow> dec (enc x @ rest) = Some (x, rest)"
begin

lemma dec_enc_nil: "ok x \<Longrightarrow> dec (enc x) = Some (x, [])"
  using dec_enc [of x "[]"] by simp

lemma enc_prefix_free:
  "ok x \<Longrightarrow> ok y \<Longrightarrow> enc x @ r = enc y @ r' \<Longrightarrow> x = y \<and> r = r'"
  by (metis dec_enc option.inject prod.inject)

lemma enc_inject: "ok x \<Longrightarrow> ok y \<Longrightarrow> enc x = enc y \<Longrightarrow> x = y"
  using enc_prefix_free [of x y "[]" "[]"] by simp

lemma concat_enc_inject:
  assumes nonempty: "\<And>x. enc x \<noteq> []"
  shows "list_all ok xs \<Longrightarrow> list_all ok ys \<Longrightarrow> concat (map enc xs) = concat (map enc ys) \<Longrightarrow> xs = ys"
proof (induction xs arbitrary: ys)
  case Nil
  then show ?case
    using nonempty by (cases ys) auto
next
  case (Cons x xs)
  obtain y ys' where ys: "ys = y # ys'"
    using Cons.prems nonempty by (cases ys) auto
  then have "x = y \<and> concat (map enc xs) = concat (map enc ys')"
    using Cons.prems by (intro enc_prefix_free) auto
  then show ?case
    using Cons.IH [of ys'] Cons.prems ys by simp
qed

end

locale canonical_codec = codec +
  assumes enc_dec: "dec s = Some (x, rest) \<Longrightarrow> ok x \<and> s = enc x @ rest"
begin

lemma dec_iff: "dec s = Some (x, rest) \<longleftrightarrow> ok x \<and> s = enc x @ rest"
  using dec_enc enc_dec by blast

end


section \<open>CompactSize\<close>

definition MAX_SIZE :: nat where
  "MAX_SIZE = 0x02000000"

definition GetSizeOfCompactSize :: "nat \<Rightarrow> nat" where
  "GetSizeOfCompactSize nSize =
    (if nSize < 253 then 1
     else if nSize \<le> 0xffff then 1 + 2
     else if nSize \<le> 0xffffffff then 1 + 4
     else 1 + 8)"

definition WriteCompactSize :: "nat \<Rightarrow> valtype" where
  "WriteCompactSize nSize =
    (if nSize < 253 then ser_writedata8 nSize
     else if nSize \<le> 0xffff then ser_writedata8 253 @ ser_writedata16 nSize
     else if nSize \<le> 0xffffffff then ser_writedata8 254 @ ser_writedata32 nSize
     else ser_writedata8 255 @ ser_writedata64 nSize)"

text \<open>
  After the first byte, \<open>ReadCompactSize\<close> reads an integer and throws
  \<open>non-canonical\<close> when a shorter form would have held it.
\<close>

definition at_least :: "nat \<Rightarrow> (nat \<times> valtype) option \<Rightarrow> (nat \<times> valtype) option" where
  "at_least lo r = (case r of None \<Rightarrow> None | Some (v, s) \<Rightarrow> if v < lo then None else Some (v, s))"

definition ReadCompactSize :: "bool \<Rightarrow> valtype \<Rightarrow> (nat \<times> valtype) option" where
  "ReadCompactSize range_check s = (case ser_readdata8 s of
     None \<Rightarrow> None
   | Some (chSize, s1) \<Rightarrow>
       (case (if chSize < 253 then Some (chSize, s1)
              else if chSize = 253 then at_least 253 (ser_readdata16 s1)
              else if chSize = 254 then at_least 0x10000 (ser_readdata32 s1)
              else at_least 0x100000000 (ser_readdata64 s1)) of
          None \<Rightarrow> None
        | Some (nSizeRet, s2) \<Rightarrow>
            if range_check \<and> nSizeRet > MAX_SIZE then None else Some (nSizeRet, s2)))"

lemma at_least_Some_iff [simp]: "at_least lo r = Some (v, s) \<longleftrightarrow> r = Some (v, s) \<and> lo \<le> v"
  by (auto simp: at_least_def split: option.splits if_splits)

lemma at_least_Some [simp]: "lo \<le> v \<Longrightarrow> at_least lo (Some (v, s)) = Some (v, s)"
  by simp

definition compact_ok :: "bool \<Rightarrow> nat \<Rightarrow> bool" where
  "compact_ok range_check n = (n < 2 ^ 64 \<and> (range_check \<longrightarrow> n \<le> MAX_SIZE))"

lemma length_WriteCompactSize: "length (WriteCompactSize n) = GetSizeOfCompactSize n"
  by (simp add: WriteCompactSize_def GetSizeOfCompactSize_def ser_defs)

lemma ReadCompactSize_Write:
  "compact_ok rc n \<Longrightarrow> ReadCompactSize rc (WriteCompactSize n @ rest) = Some (n, rest)"
  by (auto simp: compact_ok_def ReadCompactSize_def WriteCompactSize_def ser_defs ser_readdata8_def)

lemma ReadCompactSize_SomeD:
  assumes "ReadCompactSize rc s = Some (n, rest)"
  shows "compact_ok rc n \<and> s = WriteCompactSize n @ rest"
proof -
  obtain ch s1 where r8: "ser_readdata8 s = Some (ch, s1)"
    using assms by (fastforce simp: ReadCompactSize_def split: option.splits)
  let ?r = "if ch < 253 then Some (ch, s1)
            else if ch = 253 then at_least 253 (ser_readdata16 s1)
            else if ch = 254 then at_least 0x10000 (ser_readdata32 s1)
            else at_least 0x100000000 (ser_readdata64 s1)"
  have n: "?r = Some (n, rest)" and rc: "rc \<longrightarrow> n \<le> MAX_SIZE"
    using assms r8 by (cases ?r; simp add: ReadCompactSize_def not_less split: if_splits prod.splits)+
  have ch: "s = of_nat ch # s1" "ch < 256"
    using r8 by (simp_all add: ser_readdata8_Some_iff)
  have lim: "MAX_SIZE < 2 ^ 64"
    by (simp add: MAX_SIZE_def)
  consider "ch < 253" | "ch = 253" | "ch = 254" | "ch = 255"
    using ch(2) by linarith
  then show ?thesis
    by cases (use ch rc n lim in \<open>auto simp: compact_ok_def WriteCompactSize_def ser_defs ser_readdata_Some_iff\<close>)
qed

interpretation compact: canonical_codec WriteCompactSize "ReadCompactSize rc" "compact_ok rc" for rc
  by unfold_locales (auto simp: ReadCompactSize_Write dest: ReadCompactSize_SomeD)

text \<open>
  The compact size format is canonical: with or without the range check, reading succeeds
  exactly on what \<open>WriteCompactSize\<close> writes for a 64-bit size in range, of the
  length \<open>GetSizeOfCompactSize\<close> announces, and every longer encoding of the same
  size is refused.
\<close>
lemma ReadCompactSize_iff_Write:
  "ReadCompactSize rc s = Some (n, rest) \<longleftrightarrow>
     compact_ok rc n \<and> s = WriteCompactSize n @ rest \<and> length s = GetSizeOfCompactSize n + length rest"
  by (auto simp: compact.dec_iff length_WriteCompactSize)


section \<open>Variable-length integers\<close>

text \<open>
  \<open>WriteVarInt\<close> fills a temporary array from the least significant group and writes it
  backwards: \<^term>\<open>varint_groups\<close> is that array, written in reverse.
  \<open>ReadVarInt\<close> takes the largest value of the integer type it is used at.
\<close>

function varint_groups :: "bool \<Rightarrow> nat \<Rightarrow> valtype" where
  "varint_groups more n =
    (of_nat (n mod 128) OR (if more then 0x80 else 0)) #
    (if n \<le> 0x7f then [] else varint_groups True (n div 128 - 1))"
  by auto
termination
  by (relation "measure snd") auto

declare varint_groups.simps [simp del]

definition WriteVarInt :: "nat \<Rightarrow> valtype" where
  "WriteVarInt n = rev (varint_groups False n)"

function GetSizeOfVarInt :: "nat \<Rightarrow> nat" where
  "GetSizeOfVarInt n = (if n \<le> 0x7f then 1 else 1 + GetSizeOfVarInt (n div 128 - 1))"
  by auto
termination
  by (relation "measure id") auto

declare GetSizeOfVarInt.simps [simp del]

fun ReadVarInt_loop :: "nat \<Rightarrow> nat \<Rightarrow> valtype \<Rightarrow> (nat \<times> valtype) option" where
  "ReadVarInt_loop lim n [] = None"
| "ReadVarInt_loop lim n (chData # s) =
    (if n > lim div 128 then None
     else let n' = n * 128 + unat (chData AND 0x7f) in
       if chData AND 0x80 \<noteq> 0 then
         (if n' = lim then None else ReadVarInt_loop lim (n' + 1) s)
       else Some (n', s))"

definition ReadVarInt :: "nat \<Rightarrow> valtype \<Rightarrow> (nat \<times> valtype) option" where
  "ReadVarInt lim s = ReadVarInt_loop lim 0 s"

lemma length_WriteVarInt: "length (WriteVarInt n) = GetSizeOfVarInt n"
proof -
  have "length (varint_groups more n) = GetSizeOfVarInt n" for more
  proof (induction n arbitrary: more rule: GetSizeOfVarInt.induct)
    case (1 n)
    then show ?case
      by (subst varint_groups.simps, subst GetSizeOfVarInt.simps) simp
  qed
  then show ?thesis
    by (simp add: WriteVarInt_def)
qed

lemma varint_groups_True:
  "q < lim \<Longrightarrow> ReadVarInt_loop lim 0 (rev (varint_groups True q) @ s) = ReadVarInt_loop lim (q + 1) s"
proof (induction q arbitrary: s rule: GetSizeOfVarInt.induct)
  case (1 q)
  have low: "unat ((of_nat (q mod 128) OR 0x80 :: byte) AND 0x7f) = q mod 128"
    "(of_nat (q mod 128) OR 0x80 :: byte) AND 0x80 \<noteq> 0"
    by (simp_all add: unat_and_7f and_80_eq_0 unat_or_80)
  show ?case
  proof (cases "q \<le> 0x7f")
    case True
    then show ?thesis
      using 1 low by (subst varint_groups.simps) (simp add: Let_def)
  next
    case False
    then have "q div 128 - 1 + 1 = q div 128" "q div 128 - 1 < lim"
      using 1 by (auto simp: div_greater_zero_iff)
    moreover have "q div 128 \<le> lim div 128" "q div 128 * 128 + q mod 128 = q"
      using 1 by (auto intro: div_le_mono)
    ultimately show ?thesis
      using 1 low False by (subst varint_groups.simps) (simp add: Let_def)
  qed
qed

lemma ReadVarInt_Write: "n \<le> lim \<Longrightarrow> ReadVarInt lim (WriteVarInt n @ s) = Some (n, s)"
proof -
  assume n: "n \<le> lim"
  have low: "unat ((of_nat (n mod 128) :: byte) AND 0x7f) = n mod 128"
    "(of_nat (n mod 128) :: byte) AND 0x80 = 0"
    by (simp_all add: unat_and_7f and_80_eq_0)
  show ?thesis
  proof (cases "n \<le> 0x7f")
    case True
    then show ?thesis
      using n low by (simp add: ReadVarInt_def WriteVarInt_def varint_groups.simps [of False])
  next
    case False
    then have "n div 128 - 1 + 1 = n div 128" "n div 128 - 1 < lim"
      using n by (auto simp: div_greater_zero_iff)
    moreover have "n div 128 \<le> lim div 128" "n div 128 * 128 + n mod 128 = n"
      using n by (auto intro: div_le_mono)
    ultimately show ?thesis
      using n low False
      by (simp add: ReadVarInt_def WriteVarInt_def varint_groups.simps [of False] varint_groups_True Let_def)
  qed
qed

definition varint_read_so_far :: "nat \<Rightarrow> valtype" where
  "varint_read_so_far acc = (if acc = 0 then [] else rev (varint_groups True (acc - 1)))"

lemma varint_groups_step:
  fixes ch :: byte and more :: bool and acc :: nat
  defines "n \<equiv> acc * 128 + unat (ch AND 0x7f)"
  assumes "(ch AND 0x80 \<noteq> 0) = more"
  shows "rev (varint_groups more n) = varint_read_so_far acc @ [ch]"
proof -
  have m: "n mod 128 = unat (ch AND 0x7f)" "n div 128 = acc"
    by (simp_all add: n_def unat_and_7f)
  have ch: "(of_nat (n mod 128) :: byte) OR (if more then 0x80 else 0) = ch"
  proof (cases more)
    case True
    then have "128 \<le> unat ch"
      using assms(2) and_80_eq_0 [of ch] by linarith
    then have "unat ch = unat ch mod 128 + 128"
      using unat_byte_less [of ch] le_mod_geq [of 128 "unat ch"] mod_less [of "unat ch - 128" 128]
      by linarith
    then show ?thesis
      using True by (simp add: m unat_and_7f word_unat_eq_iff unat_or_80)
  next
    case False
    then have "unat ch < 128"
      using assms(2) and_80_eq_0 [of ch] by blast
    then show ?thesis
      using False by (simp add: m unat_and_7f)
  qed
  show ?thesis
    using ch m(2) by (subst varint_groups.simps) (auto simp: varint_read_so_far_def)
qed

lemma ReadVarInt_loop_SomeD:
  "ReadVarInt_loop lim acc s = Some (n, rest) \<Longrightarrow> lim mod 128 = 127 \<Longrightarrow>
   n \<le> lim \<and> varint_read_so_far acc @ s = WriteVarInt n @ rest"
proof (induction lim acc s rule: ReadVarInt_loop.induct)
  case (2 lim acc ch s)
  let ?n = "acc * 128 + unat (ch AND 0x7f)"
  from "2.prems" have acc: "\<not> lim div 128 < acc"
    by (auto split: if_splits)
  have "acc * 128 + 127 \<le> lim"
    using acc "2.prems"(2) div_mult_mod_eq [of lim 128] by linarith
  moreover have "unat (ch AND 0x7f) \<le> 127"
    using mod_less_divisor [of 128 "unat ch"] by (simp add: unat_and_7f)
  ultimately have n: "?n \<le> lim"
    by linarith
  show ?case
  proof (cases "ch AND 0x80 = 0")
    case True
    then have "n = ?n" "rest = s"
      using "2.prems" acc by (auto simp: Let_def)
    then show ?thesis
      using n True varint_groups_step [of ch False acc] by (simp add: WriteVarInt_def)
  next
    case False
    then have *: "?n \<noteq> lim" "ReadVarInt_loop lim (?n + 1) s = Some (n, rest)"
      using "2.prems" acc by (auto simp: Let_def split: if_splits)
    then have "n \<le> lim \<and> varint_read_so_far (?n + 1) @ s = WriteVarInt n @ rest"
      using "2.IH" [OF acc refl False] "2.prems"(2) by simp
    then show ?thesis
      using varint_groups_step [of ch True acc] False by (simp add: varint_read_so_far_def)
  qed
qed simp

interpretation varint: canonical_codec WriteVarInt "ReadVarInt (2 ^ (k + 7) - 1)" "\<lambda>n. n < 2 ^ (k + 7)" for k
proof
  have "(2 ^ (k + 7) - 1 :: nat) mod 128 = 127"
  proof -
    have "(2 ^ (k + 7) - 1 :: nat) = 127 + 128 * (2 ^ k - 1)"
      by (simp add: power_add algebra_simps)
    then show ?thesis
      by simp
  qed
  then show "n < 2 ^ (k + 7) \<and> s = WriteVarInt n @ rest"
    if "ReadVarInt (2 ^ (k + 7) - 1) s = Some (n, rest)" for n s rest
    using ReadVarInt_loop_SomeD [of "2 ^ (k + 7) - 1" 0 s n rest] that
    by (simp add: ReadVarInt_def varint_read_so_far_def) linarith
qed (simp add: ReadVarInt_Write)

text \<open>
  The variable-length integers are a bijection: for a type of at least seven bits, reading
  succeeds exactly on what \<open>WriteVarInt\<close> writes for a value of that type, which is of
  the length \<open>GetSizeOfVarInt\<close> announces; overflowing encodings are refused and no
  value has two encodings.
\<close>
lemma ReadVarInt_iff_Write:
  "ReadVarInt (2 ^ (k + 7) - 1) s = Some (n, rest) \<longleftrightarrow>
     n < 2 ^ (k + 7) \<and> s = WriteVarInt n @ rest \<and> length s = GetSizeOfVarInt n + length rest"
  using varint.dec_iff [of k s n rest] by (auto simp: length_WriteVarInt simp del: One_nat_def)


section \<open>Vectors\<close>

text \<open>
  A vector of bytes is read in blocks of at most 5000000 bytes, so that a bogus size does
  not allocate memory for data that is not there; any other vector element by element.
\<close>

definition Serialize_bytes :: "valtype \<Rightarrow> valtype" where
  "Serialize_bytes v = WriteCompactSize (length v) @ v"

function Unserialize_blocks :: "nat \<Rightarrow> valtype \<Rightarrow> (valtype \<times> valtype) option" where
  "Unserialize_blocks left s =
    (if left = 0 then Some ([], s)
     else let blk = min left 5000000 in
       (case ser_read blk s of
          None \<Rightarrow> None
        | Some (b, s1) \<Rightarrow> map_option (\<lambda>(bs, s2). (b @ bs, s2)) (Unserialize_blocks (left - blk) s1)))"
  by auto
termination
  by (relation "measure fst") auto

declare Unserialize_blocks.simps [simp del]

definition Unserialize_bytes :: "valtype \<Rightarrow> (valtype \<times> valtype) option" where
  "Unserialize_bytes s = (case ReadCompactSize True s of
     None \<Rightarrow> None | Some (nSize, s1) \<Rightarrow> Unserialize_blocks nSize s1)"

lemma ser_read_add:
  "ser_read (m + n) s =
    (case ser_read m s of None \<Rightarrow> None
     | Some (b, s1) \<Rightarrow> map_option (\<lambda>(bs, s2). (b @ bs, s2)) (ser_read n s1))"
  by (auto simp: ser_read_def take_add add.commute)

lemma Unserialize_blocks_eq: "Unserialize_blocks n s = ser_read n s"
proof (induction n s rule: Unserialize_blocks.induct)
  case (1 n s)
  show ?case
  proof (cases "n = 0")
    case True
    then show ?thesis
      by (simp add: Unserialize_blocks.simps ser_read_def)
  next
    case False
    define blk where "blk = min n 5000000"
    have "ser_read n s = ser_read (blk + (n - blk)) s"
      by (simp add: blk_def)
    moreover have "Unserialize_blocks (n - blk) s1 = ser_read (n - blk) s1"
      if "ser_read blk s = Some (b, s1)" for b s1
      using "1.IH" [OF False blk_def that refl] .
    ultimately show ?thesis
      using False unfolding ser_read_add
      by (subst Unserialize_blocks.simps)
        (auto simp: blk_def [symmetric] Let_def split: option.split)
  qed
qed

interpretation byte_vector: canonical_codec Serialize_bytes Unserialize_bytes "\<lambda>v. length v \<le> MAX_SIZE"
proof
  have lim: "n < 2 ^ 64" if "n \<le> MAX_SIZE" for n
    using that by (simp add: MAX_SIZE_def)
  show "Unserialize_bytes (Serialize_bytes v @ rest) = Some (v, rest)" if "length v \<le> MAX_SIZE" for v rest
    using that lim [OF that]
    by (simp add: Serialize_bytes_def Unserialize_bytes_def ReadCompactSize_Write compact_ok_def
        Unserialize_blocks_eq)
  show "length v \<le> MAX_SIZE \<and> s = Serialize_bytes v @ rest" if "Unserialize_bytes s = Some (v, rest)" for v s rest
    using that
    by (auto simp: Serialize_bytes_def Unserialize_bytes_def Unserialize_blocks_eq compact_ok_def
        split: option.splits dest!: ReadCompactSize_SomeD ser_read_SomeD)
qed

definition ser_vector :: "('a \<Rightarrow> valtype) \<Rightarrow> 'a list \<Rightarrow> valtype" where
  "ser_vector ser v = WriteCompactSize (length v) @ concat (map ser v)"

primrec unser_n :: "(valtype \<Rightarrow> ('a \<times> valtype) option) \<Rightarrow> nat \<Rightarrow> valtype \<Rightarrow> ('a list \<times> valtype) option" where
  "unser_n unser 0 s = Some ([], s)"
| "unser_n unser (Suc k) s = (case unser s of
     None \<Rightarrow> None
   | Some (x, s1) \<Rightarrow> map_option (\<lambda>(xs, s2). (x # xs, s2)) (unser_n unser k s1))"

definition unser_vector :: "(valtype \<Rightarrow> ('a \<times> valtype) option) \<Rightarrow> valtype \<Rightarrow> ('a list \<times> valtype) option" where
  "unser_vector unser s = (case ReadCompactSize True s of
     None \<Rightarrow> None | Some (k, s1) \<Rightarrow> unser_n unser k s1)"

definition vector_ok :: "('a \<Rightarrow> bool) \<Rightarrow> 'a list \<Rightarrow> bool" where
  "vector_ok ok v = (list_all ok v \<and> length v \<le> MAX_SIZE)"

lemma vector_ok_compact: "length v \<le> MAX_SIZE \<Longrightarrow> compact_ok True (length v)"
  by (simp add: compact_ok_def MAX_SIZE_def)

context codec
begin

lemma unser_n_enc:
  "list_all ok v \<Longrightarrow> unser_n dec (length v) (concat (map enc v) @ rest) = Some (v, rest)"
  by (induction v) (simp_all add: dec_enc)

lemma vector_codec: "codec (ser_vector enc) (unser_vector dec) (vector_ok ok)"
proof
  show "unser_vector dec (ser_vector enc v @ rest) = Some (v, rest)" if "vector_ok ok v" for v rest
    using that
    by (simp add: ser_vector_def unser_vector_def vector_ok_def ReadCompactSize_Write
        vector_ok_compact unser_n_enc)
qed

end

context canonical_codec
begin

lemma unser_n_SomeD:
  "unser_n dec k s = Some (v, rest) \<Longrightarrow> list_all ok v \<and> length v = k \<and> s = concat (map enc v) @ rest"
  by (induction k arbitrary: s v) (auto split: option.splits dest: enc_dec)

lemma vector_canonical: "canonical_codec (ser_vector enc) (unser_vector dec) (vector_ok ok)"
proof (intro canonical_codec.intro vector_codec canonical_codec_axioms.intro)
  show "vector_ok ok v \<and> s = ser_vector enc v @ rest" if "unser_vector dec s = Some (v, rest)" for s v rest
    using that
    by (auto simp: ser_vector_def unser_vector_def vector_ok_def compact_ok_def
        split: option.splits dest!: ReadCompactSize_SomeD unser_n_SomeD)
qed

end

end
