(* ===== verification/Transaction.thy ===== *)
theory Transaction
  imports Serialize "HOL-Library.Monad_Syntax"
begin

text \<open>
  Transactions (\<open>src/primitives/transaction.h\<close>, \<open>.cpp\<close>): the data, the two
  serialization formats (with and without witness) and the functions on a transaction that the
  script interpreter and the policy code use.  A \<open>uint256\<close> is its 32 bytes in memory
  order; an amount is the 64-bit word the code stores, read as a signed number by
  \<^term>\<open>sint\<close>.
\<close>


section \<open>Data\<close>

type_synonym uint256 = valtype
type_synonym CScript = valtype
type_synonym CAmount = "64 word"

record COutPoint =
  outpoint_hash :: uint256
  outpoint_n :: "32 word"

record CTxIn =
  txin_prevout :: COutPoint
  txin_scriptSig :: CScript
  txin_nSequence :: "32 word"
  txin_scriptWitness :: "valtype list"

record CTxOut =
  txout_nValue :: CAmount
  txout_scriptPubKey :: CScript

record CTransaction =
  tx_version :: "32 word"
  tx_vin :: "CTxIn list"
  tx_vout :: "CTxOut list"
  tx_nLockTime :: "32 word"

definition SEQUENCE_FINAL :: "32 word" where
  "SEQUENCE_FINAL = 0xffffffff"

definition SEQUENCE_LOCKTIME_DISABLE_FLAG :: "32 word" where
  "SEQUENCE_LOCKTIME_DISABLE_FLAG = 0x80000000"

definition SEQUENCE_LOCKTIME_TYPE_FLAG :: "32 word" where
  "SEQUENCE_LOCKTIME_TYPE_FLAG = 0x00400000"

definition SEQUENCE_LOCKTIME_MASK :: "32 word" where
  "SEQUENCE_LOCKTIME_MASK = 0x0000ffff"

definition HasWitness :: "CTransaction \<Rightarrow> bool" where
  "HasWitness tx = list_ex (\<lambda>txin. txin_scriptWitness txin \<noteq> []) (tx_vin tx)"

definition outpoint_IsNull :: "COutPoint \<Rightarrow> bool" where
  "outpoint_IsNull p = (outpoint_hash p = replicate 32 0 \<and> outpoint_n p = 0xffffffff)"

definition IsCoinBase :: "CTransaction \<Rightarrow> bool" where
  "IsCoinBase tx = (case tx_vin tx of [txin] \<Rightarrow> outpoint_IsNull (txin_prevout txin) | _ \<Rightarrow> False)"


section \<open>Serialization\<close>

definition ser_uint32 :: "32 word \<Rightarrow> valtype" where
  "ser_uint32 x = ser_writedata32 (unat x)"

definition unser_uint32 :: "valtype \<Rightarrow> (32 word \<times> valtype) option" where
  "unser_uint32 s = do { (v, s1) \<leftarrow> ser_readdata32 s; Some (of_nat v, s1) }"

definition ser_int64 :: "64 word \<Rightarrow> valtype" where
  "ser_int64 x = ser_writedata64 (unat x)"

definition unser_int64 :: "valtype \<Rightarrow> (64 word \<times> valtype) option" where
  "unser_int64 s = do { (v, s1) \<leftarrow> ser_readdata64 s; Some (of_nat v, s1) }"

definition ser_outpoint :: "COutPoint \<Rightarrow> valtype" where
  "ser_outpoint p = outpoint_hash p @ ser_uint32 (outpoint_n p)"

definition unser_outpoint :: "valtype \<Rightarrow> (COutPoint \<times> valtype) option" where
  "unser_outpoint s = do {
     (h, s1) \<leftarrow> ser_read 32 s;
     (n, s2) \<leftarrow> unser_uint32 s1;
     Some (\<lparr>outpoint_hash = h, outpoint_n = n\<rparr>, s2) }"

definition ser_txin :: "CTxIn \<Rightarrow> valtype" where
  "ser_txin i = ser_outpoint (txin_prevout i) @ Serialize_bytes (txin_scriptSig i) @ ser_uint32 (txin_nSequence i)"

definition unser_txin :: "valtype \<Rightarrow> (CTxIn \<times> valtype) option" where
  "unser_txin s = do {
     (p, s1) \<leftarrow> unser_outpoint s;
     (sig, s2) \<leftarrow> Unserialize_bytes s1;
     (sq, s3) \<leftarrow> unser_uint32 s2;
     Some (\<lparr>txin_prevout = p, txin_scriptSig = sig, txin_nSequence = sq, txin_scriptWitness = []\<rparr>, s3) }"

definition ser_txout :: "CTxOut \<Rightarrow> valtype" where
  "ser_txout t = ser_int64 (txout_nValue t) @ Serialize_bytes (txout_scriptPubKey t)"

definition unser_txout :: "valtype \<Rightarrow> (CTxOut \<times> valtype) option" where
  "unser_txout s = do {
     (v, s1) \<leftarrow> unser_int64 s;
     (spk, s2) \<leftarrow> Unserialize_bytes s1;
     Some (\<lparr>txout_nValue = v, txout_scriptPubKey = spk\<rparr>, s2) }"

text \<open>\<open>SerializeTransaction\<close>: the extended format is used only when a witness is present.\<close>

definition SerializeTransaction :: "bool \<Rightarrow> CTransaction \<Rightarrow> valtype" where
  "SerializeTransaction fAllowWitness tx =
    (let flags = (if fAllowWitness \<and> HasWitness tx then 1 else 0 :: byte) in
     ser_uint32 (tx_version tx) @
     (if flags \<noteq> 0 then ser_vector ser_txin [] @ [flags] else []) @
     ser_vector ser_txin (tx_vin tx) @
     ser_vector ser_txout (tx_vout tx) @
     (if flags AND 1 \<noteq> 0 then concat (map (\<lambda>i. ser_vector Serialize_bytes (txin_scriptWitness i)) (tx_vin tx)) else []) @
     ser_uint32 (tx_nLockTime tx))"

primrec unser_witnesses :: "CTxIn list \<Rightarrow> valtype \<Rightarrow> (CTxIn list \<times> valtype) option" where
  "unser_witnesses [] s = Some ([], s)"
| "unser_witnesses (i # vin) s = do {
     (w, s1) \<leftarrow> unser_vector Unserialize_bytes s;
     (vin', s2) \<leftarrow> unser_witnesses vin s1;
     Some (i\<lparr>txin_scriptWitness := w\<rparr> # vin', s2) }"

definition unser_vin_vout :: "bool \<Rightarrow> valtype \<Rightarrow> (byte \<times> CTxIn list \<times> CTxOut list \<times> valtype) option" where
  "unser_vin_vout fAllowWitness s = do {
     (vin, s1) \<leftarrow> unser_vector unser_txin s;
     if vin = [] \<and> fAllowWitness then do {
       (f, s2) \<leftarrow> ser_readdata8 s1;
       if f \<noteq> 0 then do {
         (vin, s3) \<leftarrow> unser_vector unser_txin s2;
         (vout, s4) \<leftarrow> unser_vector unser_txout s3;
         Some (of_nat f, vin, vout, s4) }
       else Some (0, [], [], s2) }
     else do {
       (vout, s2) \<leftarrow> unser_vector unser_txout s1;
       Some (0, vin, vout, s2) } }"

definition UnserializeTransaction :: "bool \<Rightarrow> valtype \<Rightarrow> (CTransaction \<times> valtype) option" where
  "UnserializeTransaction fAllowWitness s = do {
     (ver, s1) \<leftarrow> unser_uint32 s;
     (flags, vin, vout, s2) \<leftarrow> unser_vin_vout fAllowWitness s1;
     (flags, vin, s3) \<leftarrow>
       (if flags AND 1 \<noteq> 0 \<and> fAllowWitness then do {
          (vin, s3) \<leftarrow> unser_witnesses vin s2;
          if list_ex (\<lambda>i. txin_scriptWitness i \<noteq> []) vin then Some (flags XOR 1, vin, s3) else None }
        else Some (flags, vin, s2));
     if flags \<noteq> 0 then None else do {
       (lt, s4) \<leftarrow> unser_uint32 s3;
       Some (\<lparr>tx_version = ver, tx_vin = vin, tx_vout = vout, tx_nLockTime = lt\<rparr>, s4) } }"


section \<open>Every format is a canonical codec\<close>

lemma bind_split_Some [simp]:
  "Option.bind m (\<lambda>(x, s). f x s) = Some y \<longleftrightarrow> (\<exists>x s. m = Some (x, s) \<and> f x s = Some y)"
  by (cases m) (auto split: prod.splits)

lemma of_nat_unat_roundtrip: "v < 2 ^ LENGTH('a::len) \<Longrightarrow> unat (of_nat v :: 'a word) = v"
  by (simp add: unsigned_of_nat take_bit_nat_eq_self)

interpretation uint32: canonical_codec ser_uint32 unser_uint32 "\<lambda>_. True"
proof
  show "unser_uint32 (ser_uint32 x @ rest) = Some (x, rest)" for x rest
    using unat_word_less [of x] by (simp add: unser_uint32_def ser_uint32_def ser_defs)
  show "True \<and> s = ser_uint32 x @ rest" if "unser_uint32 s = Some (x, rest)" for s x rest
    using that by (auto simp: unser_uint32_def ser_uint32_def ser_defs ser_readdata_Some_iff of_nat_unat_roundtrip)
qed

interpretation int64: canonical_codec ser_int64 unser_int64 "\<lambda>_. True"
proof
  show "unser_int64 (ser_int64 x @ rest) = Some (x, rest)" for x rest
    using unat_word_less [of x] by (simp add: unser_int64_def ser_int64_def ser_defs)
  show "True \<and> s = ser_int64 x @ rest" if "unser_int64 s = Some (x, rest)" for s x rest
    using that by (auto simp: unser_int64_def ser_int64_def ser_defs ser_readdata_Some_iff of_nat_unat_roundtrip)
qed

lemmas field_codecs [simp] =
  uint32.dec_enc [simplified] uint32.dec_iff int64.dec_enc [simplified] int64.dec_iff
  byte_vector.dec_enc byte_vector.dec_iff

lemma ser_read_Some_iff: "ser_read n s = Some (b, rest) \<longleftrightarrow> s = b @ rest \<and> length b = n"
  by (auto dest: ser_read_SomeD)

definition outpoint_ok :: "COutPoint \<Rightarrow> bool" where
  "outpoint_ok p = (length (outpoint_hash p) = 32)"

definition txin_ok :: "CTxIn \<Rightarrow> bool" where
  "txin_ok i = (outpoint_ok (txin_prevout i) \<and> length (txin_scriptSig i) \<le> MAX_SIZE \<and> txin_scriptWitness i = [])"

definition txout_ok :: "CTxOut \<Rightarrow> bool" where
  "txout_ok t = (length (txout_scriptPubKey t) \<le> MAX_SIZE)"

interpretation outpoint: canonical_codec ser_outpoint unser_outpoint outpoint_ok
  by unfold_locales
    (auto simp: ser_outpoint_def unser_outpoint_def outpoint_ok_def ser_read_Some_iff)

interpretation txin: canonical_codec ser_txin unser_txin txin_ok
  by unfold_locales
    (auto simp: ser_txin_def unser_txin_def txin_ok_def outpoint.dec_enc outpoint.dec_iff)

interpretation txout: canonical_codec ser_txout unser_txout txout_ok
  by unfold_locales (auto simp: ser_txout_def unser_txout_def txout_ok_def)

interpretation txins: canonical_codec "ser_vector ser_txin" "unser_vector unser_txin" "vector_ok txin_ok"
  by (rule txin.vector_canonical)

interpretation txouts: canonical_codec "ser_vector ser_txout" "unser_vector unser_txout" "vector_ok txout_ok"
  by (rule txout.vector_canonical)

definition witness_ok :: "valtype list \<Rightarrow> bool" where
  "witness_ok w = vector_ok (\<lambda>v. length v \<le> MAX_SIZE) w"

interpretation witness: canonical_codec "ser_vector Serialize_bytes" "unser_vector Unserialize_bytes" witness_ok
  unfolding witness_ok_def by (rule byte_vector.vector_canonical)

definition strip_witness :: "CTxIn \<Rightarrow> CTxIn" where
  "strip_witness i = i\<lparr>txin_scriptWitness := []\<rparr>"

lemma ser_vector_strip [simp]: "ser_vector ser_txin (map strip_witness vin) = ser_vector ser_txin vin"
proof -
  have "ser_txin (strip_witness i) = ser_txin i" for i
    by (simp add: ser_txin_def strip_witness_def)
  then show ?thesis
    by (simp add: ser_vector_def comp_def)
qed

lemma strip_witness_id: "txin_ok i \<Longrightarrow> strip_witness i = i"
  by (simp add: txin_ok_def strip_witness_def)

lemma strip_witness_upd [simp]:
  "strip_witness (i\<lparr>txin_scriptWitness := w\<rparr>) = strip_witness i"
  "(strip_witness i)\<lparr>txin_scriptWitness := txin_scriptWitness i\<rparr> = i"
  by (simp_all add: strip_witness_def)

lemma unser_witnesses_ser:
  "list_all (witness_ok \<circ> txin_scriptWitness) vin \<Longrightarrow>
   unser_witnesses (map strip_witness vin)
     (concat (map (\<lambda>i. ser_vector Serialize_bytes (txin_scriptWitness i)) vin) @ rest) = Some (vin, rest)"
  by (induction vin) (simp_all add: witness.dec_enc)

lemma unser_witnesses_SomeD:
  "unser_witnesses vin0 s = Some (vin, rest) \<Longrightarrow>
   map strip_witness vin = map strip_witness vin0 \<and> list_all (witness_ok \<circ> txin_scriptWitness) vin \<and>
   s = concat (map (\<lambda>i. ser_vector Serialize_bytes (txin_scriptWitness i)) vin) @ rest"
  by (induction vin0 arbitrary: vin s) (fastforce simp: witness.dec_iff)+

text \<open>
  The transactions a serialization stands for.  In the format with witnesses a transaction
  without inputs but with outputs is not one: its empty input vector reads as the marker of the
  extended format.  The format without witnesses drops them.
\<close>

definition tx_ok :: "bool \<Rightarrow> CTransaction \<Rightarrow> bool" where
  "tx_ok fAllowWitness tx =
    (vector_ok txin_ok (map strip_witness (tx_vin tx)) \<and> vector_ok txout_ok (tx_vout tx) \<and>
     list_all (witness_ok \<circ> txin_scriptWitness) (tx_vin tx) \<and>
     (if fAllowWitness then tx_vin tx \<noteq> [] \<or> tx_vout tx = [] else \<not> HasWitness tx))"

lemma strip_no_witness: "\<not> HasWitness tx \<Longrightarrow> map strip_witness (tx_vin tx) = tx_vin tx"
  by (rule map_idI) (auto simp: HasWitness_def list_ex_iff strip_witness_def)

lemma unser_txins_ser:
  "vector_ok txin_ok (map strip_witness vin) \<Longrightarrow>
   unser_vector unser_txin (ser_vector ser_txin vin @ rest) = Some (map strip_witness vin, rest)"
  using txins.dec_enc [of "map strip_witness vin"] by simp

lemma vector_ok_Nil [simp]: "vector_ok ok []"
  by (simp add: vector_ok_def)

lemma ser_readdata8_Cons [simp]: "ser_readdata8 (b # s) = Some (unat b, s)"
  by (simp add: ser_readdata8_def)

lemma ser_vector_Nil: "ser_vector ser [] = [0]"
  by (simp add: ser_vector_def WriteCompactSize_def ser_defs)

lemma unser_txins_0 [simp]: "unser_vector unser_txin (0 # rest) = Some ([], rest)"
  using txins.dec_enc [of "[]" rest] by (simp add: ser_vector_Nil)

lemma Unserialize_Serialize_tx:
  assumes "tx_ok aw tx"
  shows "UnserializeTransaction aw (SerializeTransaction aw tx @ rest) = Some (tx, rest)"
proof (cases "aw \<and> HasWitness tx")
  case True
  then have "list_ex (\<lambda>i. txin_scriptWitness i \<noteq> []) (tx_vin tx)"
    by (simp add: HasWitness_def)
  with True assms show ?thesis
    by (simp add: UnserializeTransaction_def unser_vin_vout_def SerializeTransaction_def tx_ok_def
        ser_vector_Nil unser_txins_ser txouts.dec_enc unser_witnesses_ser)
next
  case False
  then have nw: "\<not> HasWitness tx"
    using assms by (auto simp: tx_ok_def split: if_splits)
  show ?thesis
  proof (cases "aw \<and> tx_vin tx = []")
    case True
    then have "tx_vout tx = []" "tx_vin tx = []" aw
      using assms by (auto simp: tx_ok_def)
    then show ?thesis
      using nw by (simp add: UnserializeTransaction_def unser_vin_vout_def SerializeTransaction_def ser_vector_Nil)
  next
    case False
    then show ?thesis
      using nw assms strip_no_witness [OF nw]
      by (auto simp: UnserializeTransaction_def unser_vin_vout_def SerializeTransaction_def tx_ok_def
          unser_txins_ser txouts.dec_enc)
  qed
qed

lemma unser_vin_vout_SomeD:
  assumes "unser_vin_vout aw s = Some (flags, vin, vout, rest)"
  shows "vector_ok txin_ok vin \<and> vector_ok txout_ok vout \<and>
    s = (if flags \<noteq> 0 then [0, flags] else []) @ ser_vector ser_txin vin @ ser_vector ser_txout vout @ rest \<and>
    (if aw then flags \<noteq> 0 \<or> vin \<noteq> [] \<or> vout = [] else flags = 0)"
proof -
  obtain vin0 s1 where v0: "vector_ok txin_ok vin0" "s = ser_vector ser_txin vin0 @ s1"
    and r: "(if vin0 = [] \<and> aw then
               Option.bind (ser_readdata8 s1) (\<lambda>(f, s2).
                 if f \<noteq> 0 then Option.bind (unser_vector unser_txin s2) (\<lambda>(vin, s3).
                     Option.bind (unser_vector unser_txout s3) (\<lambda>(vout, s4). Some (of_nat f, vin, vout, s4)))
                 else Some (0, [], [], s2))
             else Option.bind (unser_vector unser_txout s1) (\<lambda>(vout, s2). Some (0, vin0, vout, s2))) =
            Some (flags, vin, vout, rest)"
    using assms by (auto simp: unser_vin_vout_def txins.dec_iff)
  show ?thesis
  proof (cases "vin0 = [] \<and> aw")
    case True
    then show ?thesis
      using v0 r
      by (auto simp: txins.dec_iff txouts.dec_iff ser_vector_Nil ser_readdata8_Some_iff
          unat_eq_zero [symmetric] split: if_splits)
  next
    case False
    then show ?thesis
      using v0 r by (auto simp: txouts.dec_iff)
  qed
qed

lemma map_strip_id: "vector_ok txin_ok vin \<Longrightarrow> map strip_witness vin = vin"
  by (rule map_idI) (auto simp: vector_ok_def list_all_iff strip_witness_id)

lemma no_witness_ok: "vector_ok txin_ok vin \<Longrightarrow>
  list_all (witness_ok \<circ> txin_scriptWitness) vin \<and> \<not> list_ex (\<lambda>i. txin_scriptWitness i \<noteq> []) vin"
  by (auto simp: vector_ok_def list_all_iff list_ex_iff txin_ok_def witness_ok_def)

lemma xor_1_eq_0: "flags XOR 1 = 0 \<longleftrightarrow> flags = (1 :: byte)"
  by (metis xor.right_neutral xor_self_eq word_bw_assocs(3))

lemma Serialize_Unserialize_tx:
  assumes "UnserializeTransaction aw s = Some (tx, rest)"
  shows "tx_ok aw tx \<and> s = SerializeTransaction aw tx @ rest"
proof -
  obtain ver s1 flags vin0 vout s2 flags' vin s3 lt
    where s: "s = ser_uint32 ver @ s1"
      and v: "unser_vin_vout aw s1 = Some (flags, vin0, vout, s2)"
      and w: "(if flags AND 1 \<noteq> 0 \<and> aw then
                 Option.bind (unser_witnesses vin0 s2) (\<lambda>(vin, s3).
                   if list_ex (\<lambda>i. txin_scriptWitness i \<noteq> []) vin then Some (flags XOR 1, vin, s3) else None)
               else Some (flags, vin0, s2)) = Some (flags', vin, s3)"
      and f: "flags' = 0"
      and l: "s3 = ser_uint32 lt @ rest"
      and tx: "tx = \<lparr>tx_version = ver, tx_vin = vin, tx_vout = vout, tx_nLockTime = lt\<rparr>"
    using assms unfolding UnserializeTransaction_def
    by (auto simp: bind_eq_Some_conv split: if_splits prod.splits)
  note v' = unser_vin_vout_SomeD [OF v]
  show ?thesis
  proof (cases "flags AND 1 \<noteq> 0 \<and> aw")
    case True
    then have u: "unser_witnesses vin0 s2 = Some (vin, s3)"
      and e: "list_ex (\<lambda>i. txin_scriptWitness i \<noteq> []) vin" and fl: "flags = 1"
      using w f by (auto simp: xor_1_eq_0 split: if_splits)
    have m: "map strip_witness vin = vin0"
      using unser_witnesses_SomeD [OF u] v' map_strip_id by simp
    have "vector_ok txin_ok (map strip_witness vin)" "vector_ok txout_ok vout"
      "s1 = [0, 1] @ ser_vector ser_txin vin @ ser_vector ser_txout vout @ s2" "vin \<noteq> []"
      using v' e by (auto simp: m fl simp flip: ser_vector_strip [of vin])
    then show ?thesis
      using True e unser_witnesses_SomeD [OF u] s l
      by (simp add: tx tx_ok_def SerializeTransaction_def HasWitness_def ser_vector_Nil)
  next
    case False
    then have "flags = 0" "vin = vin0" "s3 = s2"
      using w f by auto
    then show ?thesis
      using v' no_witness_ok [of vin0] map_strip_id [of vin0] s l
      by (auto simp: tx tx_ok_def SerializeTransaction_def HasWitness_def split: if_splits)
  qed
qed

interpretation transaction: canonical_codec "SerializeTransaction aw" "UnserializeTransaction aw" "tx_ok aw" for aw
  by unfold_locales (simp_all add: Unserialize_Serialize_tx Serialize_Unserialize_tx)

text \<open>
  C32.  Transactions travel unchanged.  In either format, reading succeeds exactly on the
  serialization of a transaction the format can carry, followed by anything: what is read
  is that transaction, what is left is the rest, and no transaction has two encodings.
\<close>
theorem UnserializeTransaction_iff_Serialize:
  "UnserializeTransaction aw s = Some (tx, rest) \<longleftrightarrow> tx_ok aw tx \<and> s = SerializeTransaction aw tx @ rest"
  by (rule transaction.dec_iff)

end
