(* ===== verification/ScriptTypes.thy ===== *)
theory ScriptTypes
  imports Script Transaction
begin

text \<open>
  The vocabulary of the script interpreter (\<open>src/script/script_error.h\<close>,
  \<open>src/script/interpreter.h\<close>): error codes, verification flags, signature versions,
  the data of an execution, and the interface \<open>BaseSignatureChecker\<close> through which the
  interpreter asks whether a signature or a lock time is satisfied.  A member that the code guards
  by an \<open>_init\<close> flag is an option here.
\<close>


section \<open>Errors\<close>

datatype (plugins only: code size) ScriptError =
    SCRIPT_ERR_OK
  | SCRIPT_ERR_UNKNOWN_ERROR
  | SCRIPT_ERR_EVAL_FALSE
  | SCRIPT_ERR_OP_RETURN
  | SCRIPT_ERR_SCRIPT_SIZE
  | SCRIPT_ERR_PUSH_SIZE
  | SCRIPT_ERR_OP_COUNT
  | SCRIPT_ERR_STACK_SIZE
  | SCRIPT_ERR_SIG_COUNT
  | SCRIPT_ERR_PUBKEY_COUNT
  | SCRIPT_ERR_VERIFY
  | SCRIPT_ERR_EQUALVERIFY
  | SCRIPT_ERR_CHECKMULTISIGVERIFY
  | SCRIPT_ERR_CHECKSIGVERIFY
  | SCRIPT_ERR_NUMEQUALVERIFY
  | SCRIPT_ERR_BAD_OPCODE
  | SCRIPT_ERR_DISABLED_OPCODE
  | SCRIPT_ERR_INVALID_STACK_OPERATION
  | SCRIPT_ERR_INVALID_ALTSTACK_OPERATION
  | SCRIPT_ERR_UNBALANCED_CONDITIONAL
  | SCRIPT_ERR_NEGATIVE_LOCKTIME
  | SCRIPT_ERR_UNSATISFIED_LOCKTIME
  | SCRIPT_ERR_SIG_HASHTYPE
  | SCRIPT_ERR_SIG_DER
  | SCRIPT_ERR_MINIMALDATA
  | SCRIPT_ERR_SIG_PUSHONLY
  | SCRIPT_ERR_SIG_HIGH_S
  | SCRIPT_ERR_SIG_NULLDUMMY
  | SCRIPT_ERR_PUBKEYTYPE
  | SCRIPT_ERR_CLEANSTACK
  | SCRIPT_ERR_MINIMALIF
  | SCRIPT_ERR_SIG_NULLFAIL
  | SCRIPT_ERR_DISCOURAGE_UPGRADABLE_NOPS
  | SCRIPT_ERR_DISCOURAGE_UPGRADABLE_WITNESS_PROGRAM
  | SCRIPT_ERR_DISCOURAGE_UPGRADABLE_TAPROOT_VERSION
  | SCRIPT_ERR_DISCOURAGE_OP_SUCCESS
  | SCRIPT_ERR_DISCOURAGE_UPGRADABLE_PUBKEYTYPE
  | SCRIPT_ERR_WITNESS_PROGRAM_WRONG_LENGTH
  | SCRIPT_ERR_WITNESS_PROGRAM_WITNESS_EMPTY
  | SCRIPT_ERR_WITNESS_PROGRAM_MISMATCH
  | SCRIPT_ERR_WITNESS_MALLEATED
  | SCRIPT_ERR_WITNESS_MALLEATED_P2SH
  | SCRIPT_ERR_WITNESS_UNEXPECTED
  | SCRIPT_ERR_WITNESS_PUBKEYTYPE
  | SCRIPT_ERR_SCHNORR_SIG_SIZE
  | SCRIPT_ERR_SCHNORR_SIG_HASHTYPE
  | SCRIPT_ERR_SCHNORR_SIG
  | SCRIPT_ERR_TAPROOT_WRONG_CONTROL_SIZE
  | SCRIPT_ERR_TAPSCRIPT_VALIDATION_WEIGHT
  | SCRIPT_ERR_TAPSCRIPT_CHECKMULTISIG
  | SCRIPT_ERR_TAPSCRIPT_MINIMALIF
  | SCRIPT_ERR_OP_CODESEPARATOR
  | SCRIPT_ERR_SIG_FINDANDDELETE
  | SCRIPT_ERR_QUANTUM_SIG_VERIFICATION
  | SCRIPT_ERR_QUANTUM_WRONG_KEY_TYPE
  | SCRIPT_ERR_ERROR_COUNT


section \<open>Flags\<close>

type_synonym script_flags = "32 word"

abbreviation (input) SCRIPT_VERIFY_NONE :: script_flags where "SCRIPT_VERIFY_NONE \<equiv> 0"
abbreviation (input) SCRIPT_VERIFY_P2SH :: script_flags where "SCRIPT_VERIFY_P2SH \<equiv> 0x1"
abbreviation (input) SCRIPT_VERIFY_STRICTENC :: script_flags where "SCRIPT_VERIFY_STRICTENC \<equiv> 0x2"
abbreviation (input) SCRIPT_VERIFY_DERSIG :: script_flags where "SCRIPT_VERIFY_DERSIG \<equiv> 0x4"
abbreviation (input) SCRIPT_VERIFY_LOW_S :: script_flags where "SCRIPT_VERIFY_LOW_S \<equiv> 0x8"
abbreviation (input) SCRIPT_VERIFY_NULLDUMMY :: script_flags where "SCRIPT_VERIFY_NULLDUMMY \<equiv> 0x10"
abbreviation (input) SCRIPT_VERIFY_SIGPUSHONLY :: script_flags where "SCRIPT_VERIFY_SIGPUSHONLY \<equiv> 0x20"
abbreviation (input) SCRIPT_VERIFY_MINIMALDATA :: script_flags where "SCRIPT_VERIFY_MINIMALDATA \<equiv> 0x40"
abbreviation (input) SCRIPT_VERIFY_DISCOURAGE_UPGRADABLE_NOPS :: script_flags where "SCRIPT_VERIFY_DISCOURAGE_UPGRADABLE_NOPS \<equiv> 0x80"
abbreviation (input) SCRIPT_VERIFY_CLEANSTACK :: script_flags where "SCRIPT_VERIFY_CLEANSTACK \<equiv> 0x100"
abbreviation (input) SCRIPT_VERIFY_CHECKLOCKTIMEVERIFY :: script_flags where "SCRIPT_VERIFY_CHECKLOCKTIMEVERIFY \<equiv> 0x200"
abbreviation (input) SCRIPT_VERIFY_CHECKSEQUENCEVERIFY :: script_flags where "SCRIPT_VERIFY_CHECKSEQUENCEVERIFY \<equiv> 0x400"
abbreviation (input) SCRIPT_VERIFY_WITNESS :: script_flags where "SCRIPT_VERIFY_WITNESS \<equiv> 0x800"
abbreviation (input) SCRIPT_VERIFY_DISCOURAGE_UPGRADABLE_WITNESS_PROGRAM :: script_flags where "SCRIPT_VERIFY_DISCOURAGE_UPGRADABLE_WITNESS_PROGRAM \<equiv> 0x1000"
abbreviation (input) SCRIPT_VERIFY_MINIMALIF :: script_flags where "SCRIPT_VERIFY_MINIMALIF \<equiv> 0x2000"
abbreviation (input) SCRIPT_VERIFY_NULLFAIL :: script_flags where "SCRIPT_VERIFY_NULLFAIL \<equiv> 0x4000"
abbreviation (input) SCRIPT_VERIFY_WITNESS_PUBKEYTYPE :: script_flags where "SCRIPT_VERIFY_WITNESS_PUBKEYTYPE \<equiv> 0x8000"
abbreviation (input) SCRIPT_VERIFY_CONST_SCRIPTCODE :: script_flags where "SCRIPT_VERIFY_CONST_SCRIPTCODE \<equiv> 0x10000"
abbreviation (input) SCRIPT_VERIFY_TAPROOT :: script_flags where "SCRIPT_VERIFY_TAPROOT \<equiv> 0x20000"
abbreviation (input) SCRIPT_VERIFY_DISCOURAGE_UPGRADABLE_TAPROOT_VERSION :: script_flags where "SCRIPT_VERIFY_DISCOURAGE_UPGRADABLE_TAPROOT_VERSION \<equiv> 0x40000"
abbreviation (input) SCRIPT_VERIFY_DISCOURAGE_OP_SUCCESS :: script_flags where "SCRIPT_VERIFY_DISCOURAGE_OP_SUCCESS \<equiv> 0x80000"
abbreviation (input) SCRIPT_VERIFY_DISCOURAGE_UPGRADABLE_PUBKEYTYPE :: script_flags where "SCRIPT_VERIFY_DISCOURAGE_UPGRADABLE_PUBKEYTYPE \<equiv> 0x100000"
abbreviation (input) SCRIPT_VERIFY_QUANTUM_SIGS :: script_flags where "SCRIPT_VERIFY_QUANTUM_SIGS \<equiv> 0x200000"

definition has_flag :: "script_flags \<Rightarrow> script_flags \<Rightarrow> bool" where
  "has_flag flags f = (flags AND f \<noteq> 0)"

lemma has_flag_or [simp]: "has_flag flags (f OR g) \<longleftrightarrow> has_flag flags f \<or> has_flag flags g"
  by (auto simp: has_flag_def bit_eq_iff [of "_ AND _"] bit_simps)

lemma has_flag_or_flags [simp]: "has_flag (flags OR g) f \<longleftrightarrow> has_flag flags f \<or> g AND f \<noteq> 0"
  by (auto simp: has_flag_def bit_eq_iff [of "_ AND _"] bit_simps)

lemma has_flag_none [simp]: "\<not> has_flag 0 f"
  by (simp add: has_flag_def)

abbreviation (input) SIGHASH_ALL :: byte where "SIGHASH_ALL \<equiv> 1"
abbreviation (input) SIGHASH_NONE :: byte where "SIGHASH_NONE \<equiv> 2"
abbreviation (input) SIGHASH_SINGLE :: byte where "SIGHASH_SINGLE \<equiv> 3"
abbreviation (input) SIGHASH_ANYONECANPAY :: byte where "SIGHASH_ANYONECANPAY \<equiv> 0x80"
abbreviation (input) SIGHASH_DEFAULT :: byte where "SIGHASH_DEFAULT \<equiv> 0"
abbreviation (input) SIGHASH_OUTPUT_MASK :: byte where "SIGHASH_OUTPUT_MASK \<equiv> 3"
abbreviation (input) SIGHASH_INPUT_MASK :: byte where "SIGHASH_INPUT_MASK \<equiv> 0x80"


section \<open>Execution data and signature checkers\<close>

datatype SigVersion = BASE | WITNESS_V0 | TAPROOT | TAPSCRIPT

record ScriptExecutionData =
  m_tapleaf_hash :: "uint256 option"
  m_codeseparator_pos :: "(32 word) option"
  m_annex :: "uint256 option option"
  m_validation_weight_left :: "int option"
  m_output_hash :: "uint256 option"

definition empty_execdata :: ScriptExecutionData where
  "empty_execdata = \<lparr>m_tapleaf_hash = None, m_codeseparator_pos = None, m_annex = None, m_validation_weight_left = None,
     m_output_hash = None\<rparr>"

text \<open>
  The two checks that return a boolean have an error value only for a failed \<open>assert\<close>; the
  Schnorr check returns the execution data, in which it keeps the hash of the matching output.
\<close>

record SignatureChecker =
  CheckECDSASignature :: "valtype \<Rightarrow> valtype \<Rightarrow> CScript \<Rightarrow> SigVersion \<Rightarrow> ScriptError + bool"
  CheckSchnorrSignature :: "valtype \<Rightarrow> valtype \<Rightarrow> SigVersion \<Rightarrow> ScriptExecutionData \<Rightarrow> ScriptError + ScriptExecutionData"
  CheckLockTime :: "int \<Rightarrow> bool"
  CheckSequence :: "int \<Rightarrow> bool"
  CheckQuantumSignature :: "valtype \<Rightarrow> valtype \<Rightarrow> CScript \<Rightarrow> SigVersion \<Rightarrow> byte \<Rightarrow> ScriptError + bool"

definition BaseSignatureChecker :: SignatureChecker where
  "BaseSignatureChecker =
    \<lparr>CheckECDSASignature = (\<lambda>scriptSig vchPubKey scriptCode sigversion. Inr False),
     CheckSchnorrSignature = (\<lambda>sig pubkey sigversion execdata. Inl SCRIPT_ERR_UNKNOWN_ERROR),
     CheckLockTime = (\<lambda>nLockTime. False),
     CheckSequence = (\<lambda>nSequence. False),
     CheckQuantumSignature = (\<lambda>vchSig vchPubKey scriptCode sigversion scheme_id. Inr False)\<rparr>"


section \<open>Hash functions\<close>

text \<open>
  The compression functions of \<open>src/crypto\<close> enter as functions from bytes to bytes; the
  double hash and the 160-bit hash (\<open>src/hash.h\<close>) are built from them.
\<close>

record Hashes =
  SHA256 :: "valtype \<Rightarrow> valtype"
  SHA1 :: "valtype \<Rightarrow> valtype"
  RIPEMD160 :: "valtype \<Rightarrow> valtype"

definition Hash256 :: "Hashes \<Rightarrow> valtype \<Rightarrow> uint256" where
  "Hash256 hs x = SHA256 hs (SHA256 hs x)"

definition Hash160 :: "Hashes \<Rightarrow> valtype \<Rightarrow> valtype" where
  "Hash160 hs x = RIPEMD160 hs (SHA256 hs x)"

end
