(* ===== verification/SigEncoding.thy ===== *)
theory SigEncoding
  imports ScriptTypes
begin

text \<open>
  Encodings of ECDSA signatures and public keys, the truth value of a stack element and
  \<open>FindAndDelete\<close> (\<open>src/script/interpreter.cpp\<close>, lines 38--257).
  \<open>CPubKey::CheckLowS\<close>, which asks secp256k1 whether \<open>S\<close> is in the lower half of the group
  order, is a parameter.
\<close>

named_theorems sigenc_defs "definitions of signature and public key encodings"

fun CastToBool :: "valtype \<Rightarrow> bool" where
  "CastToBool [] = False"
| "CastToBool (b # vch) = (if b \<noteq> 0 then \<not> (vch = [] \<and> b = 0x80) else CastToBool vch)"

definition IsCompressedOrUncompressedPubKey :: "valtype \<Rightarrow> bool" where
  "IsCompressedOrUncompressedPubKey vchPubKey =
    (if length vchPubKey < 33 then False
     else if vchPubKey ! 0 = 0x04 then length vchPubKey = 65
     else if vchPubKey ! 0 = 0x02 \<or> vchPubKey ! 0 = 0x03 then length vchPubKey = 33
     else False)"

definition IsCompressedPubKey :: "valtype \<Rightarrow> bool" where
  "IsCompressedPubKey vchPubKey =
    (length vchPubKey = 33 \<and> (vchPubKey ! 0 = 0x02 \<or> vchPubKey ! 0 = 0x03))"

definition IsValidSignatureEncoding :: "valtype \<Rightarrow> bool" where
  "IsValidSignatureEncoding sig =
    (if length sig < 9 then False
     else if length sig > 73 then False
     else if sig ! 0 \<noteq> 0x30 then False
     else if unat (sig ! 1) \<noteq> length sig - 3 then False
     else let lenR = unat (sig ! 3) in
       if 5 + lenR \<ge> length sig then False
       else let lenS = unat (sig ! (5 + lenR)) in
         if lenR + lenS + 7 \<noteq> length sig then False
         else if sig ! 2 \<noteq> 0x02 then False
         else if lenR = 0 then False
         else if sig ! 4 AND 0x80 \<noteq> 0 then False
         else if lenR > 1 \<and> sig ! 4 = 0x00 \<and> sig ! 5 AND 0x80 = 0 then False
         else if sig ! (lenR + 4) \<noteq> 0x02 then False
         else if lenS = 0 then False
         else if sig ! (lenR + 6) AND 0x80 \<noteq> 0 then False
         else if lenS > 1 \<and> sig ! (lenR + 6) = 0x00 \<and> sig ! (lenR + 7) AND 0x80 = 0 then False
         else True)"

definition IsLowDERSignature :: "(valtype \<Rightarrow> bool) \<Rightarrow> valtype \<Rightarrow> ScriptError + unit" where
  "IsLowDERSignature CheckLowS vchSig =
    (if \<not> IsValidSignatureEncoding vchSig then Inl SCRIPT_ERR_SIG_DER
     else if \<not> CheckLowS (butlast vchSig) then Inl SCRIPT_ERR_SIG_HIGH_S
     else Inr ())"

definition IsDefinedHashtypeSignature :: "valtype \<Rightarrow> bool" where
  "IsDefinedHashtypeSignature vchSig =
    (if length vchSig = 0 then False
     else let nHashType = last vchSig AND NOT SIGHASH_ANYONECANPAY in
       \<not> (nHashType < SIGHASH_ALL \<or> nHashType > SIGHASH_SINGLE))"

definition CheckSignatureEncoding :: "(valtype \<Rightarrow> bool) \<Rightarrow> valtype \<Rightarrow> script_flags \<Rightarrow> ScriptError + unit" where
  "CheckSignatureEncoding CheckLowS vchSig flags =
    (if length vchSig = 0 then Inr ()
     else if has_flag flags (SCRIPT_VERIFY_DERSIG OR SCRIPT_VERIFY_LOW_S OR SCRIPT_VERIFY_STRICTENC) \<and>
             \<not> IsValidSignatureEncoding vchSig then Inl SCRIPT_ERR_SIG_DER
     else bindE (if has_flag flags SCRIPT_VERIFY_LOW_S then IsLowDERSignature CheckLowS vchSig else Inr ())
       (\<lambda>_. if has_flag flags SCRIPT_VERIFY_STRICTENC \<and> \<not> IsDefinedHashtypeSignature vchSig
            then Inl SCRIPT_ERR_SIG_HASHTYPE
            else Inr ()))"

definition CheckPubKeyEncoding :: "valtype \<Rightarrow> script_flags \<Rightarrow> SigVersion \<Rightarrow> ScriptError + unit" where
  "CheckPubKeyEncoding vchPubKey flags sigversion =
    (if has_flag flags SCRIPT_VERIFY_STRICTENC \<and> \<not> IsCompressedOrUncompressedPubKey vchPubKey
       then Inl SCRIPT_ERR_PUBKEYTYPE
     else if has_flag flags SCRIPT_VERIFY_WITNESS_PUBKEYTYPE \<and> sigversion = WITNESS_V0 \<and>
             \<not> IsCompressedPubKey vchPubKey then Inl SCRIPT_ERR_WITNESS_PUBKEYTYPE
     else Inr ())"

text \<open>
  \<open>FindAndDelete\<close>.  The inner loop skips copies of \<open>b\<close>, the outer one copies the
  instruction that follows to the result.
\<close>

function skip_copies :: "valtype \<Rightarrow> nat \<Rightarrow> valtype \<Rightarrow> nat \<times> valtype" where
  "skip_copies b nFound pc =
    (if b \<noteq> [] \<and> length pc \<ge> length b \<and> take (length b) pc = b
     then skip_copies b (nFound + 1) (drop (length b) pc) else (nFound, pc))"
  by auto
termination
proof (relation "measure (\<lambda>(_, _, pc). length pc)")
  show "((b, n + 1, drop (length b) pc), b, n, pc) \<in> measure (\<lambda>(_, _, pc). length pc)"
    if "b \<noteq> [] \<and> length b \<le> length pc \<and> take (length b) pc = b" for b n pc
    using that by (cases b; cases pc) auto
qed simp

declare skip_copies.simps [simp del]

lemma skip_copies_length: "skip_copies b n pc = (n', pc') \<Longrightarrow> length pc' \<le> length pc"
proof (induction b n pc arbitrary: n' pc' rule: skip_copies.induct)
  case (1 b n pc)
  then show ?case
    by (subst (asm) (2) skip_copies.simps) (fastforce split: if_splits)
qed

function FindAndDelete_loop :: "valtype \<Rightarrow> nat \<Rightarrow> valtype \<Rightarrow> valtype \<Rightarrow> nat \<times> valtype" where
  "FindAndDelete_loop b nFound result pc =
    (case skip_copies b nFound pc of
       (nFound', pc2) \<Rightarrow>
         (case GetOp pc2 of
            None \<Rightarrow> (nFound', result @ pc2)
          | Some (opcode, vch, pc') \<Rightarrow>
              FindAndDelete_loop b nFound' (result @ take (length pc2 - length pc') pc2) pc'))"
  by auto
termination
  by (relation "measure (\<lambda>(_, _, _, pc). length pc)")
    (auto dest!: skip_copies_length [OF sym] GetOp_length)

declare FindAndDelete_loop.simps [simp del]

definition FindAndDelete :: "CScript \<Rightarrow> CScript \<Rightarrow> nat \<times> CScript" where
  "FindAndDelete script b =
    (if b = [] then (0, script)
     else (case FindAndDelete_loop b 0 [] script of
       (nFound, result) \<Rightarrow> if nFound > 0 then (nFound, result) else (nFound, script)))"


section \<open>FindAndDelete\<close>

lemma skip_copies_eq:
  "skip_copies b n pc = (n', pc') \<Longrightarrow> n \<le> n' \<and> pc = concat (replicate (n' - n) b) @ pc'"
proof (induction b n pc arbitrary: n' pc' rule: skip_copies.induct)
  case (1 b n pc)
  show ?case
  proof (cases "b \<noteq> [] \<and> length pc \<ge> length b \<and> take (length b) pc = b")
    case True
    then have "skip_copies b (n + 1) (drop (length b) pc) = (n', pc')"
      using "1.prems" by (subst (asm) skip_copies.simps) simp
    from "1.IH" [OF True this]
    have "n + 1 \<le> n'" "drop (length b) pc = concat (replicate (n' - (n + 1)) b) @ pc'"
      by auto
    moreover have "pc = b @ drop (length b) pc"
      using True by (metis append_take_drop_id)
    moreover have "n' - n = Suc (n' - (n + 1))"
      using \<open>n + 1 \<le> n'\<close> by simp
    ultimately show ?thesis
      by simp
  next
    case False
    then show ?thesis
      using "1.prems" by (subst (asm) skip_copies.simps) auto
  qed
qed

lemma ex_prefix_drop:
  "\<exists>u. x # xs = u @ drop n xs"
  "\<exists>u. x # y # xs = u @ drop n xs"
  by (metis append_Cons append_take_drop_id)+

lemma GetOp_suffix:
  assumes "GetOp pc = Some (opcode, vch, pc')"
  shows "pc = take (length pc - length pc') pc @ pc'"
proof -
  have "\<exists>u. pc = u @ pc'"
    using assms
    by (cases pc)
      (auto simp: GetOp_def GetScriptOp_def Let_def push_size_def split: if_splits option.splits list.splits
        intro: ex_prefix_drop)
  then show ?thesis
    by auto
qed

text \<open>
  The deletions as a relation between the script before and after: at an instruction boundary
  either a copy of \<open>b\<close> is dropped or the instruction is kept.
\<close>

inductive deletes :: "valtype \<Rightarrow> nat \<Rightarrow> valtype \<Rightarrow> valtype \<Rightarrow> bool" for b where
  drop_copy: "deletes b n s t \<Longrightarrow> deletes b (n + 1) (b @ s) t"
| keep_op: "GetOp (u @ s) = Some (opcode, vch, s) \<Longrightarrow> deletes b n s t \<Longrightarrow> deletes b n (u @ s) (u @ t)"
| keep_rest: "GetOp s = None \<Longrightarrow> deletes b 0 s s"

lemma deletes_copies: "deletes b n s t \<Longrightarrow> deletes b (k + n) (concat (replicate k b) @ s) t"
  by (induction k) (auto dest: drop_copy)

lemma FindAndDelete_loop_deletes:
  "FindAndDelete_loop b n result pc = (n', out) \<Longrightarrow>
   n \<le> n' \<and> (\<exists>t. out = result @ t \<and> deletes b (n' - n) pc t)"
proof (induction b n result pc arbitrary: n' out rule: FindAndDelete_loop.induct)
  case (1 b n result pc)
  obtain n1 pc2 where sk: "skip_copies b n pc = (n1, pc2)"
    by fastforce
  note e = skip_copies_eq [OF sk]
  show ?case
  proof (cases "GetOp pc2")
    case None
    then have "n' = n1" "out = result @ pc2"
      using "1.prems" sk by (subst (asm) FindAndDelete_loop.simps, simp)+
    then show ?thesis
      using e deletes_copies [OF keep_rest [OF None], of b "n1 - n"] by auto
  next
    case (Some r)
    obtain opcode vch pc' where r: "r = (opcode, vch, pc')"
      by (cases r)
    let ?u = "take (length pc2 - length pc') pc2"
    have "FindAndDelete_loop b n1 (result @ ?u) pc' = (n', out)"
      using "1.prems" sk Some r by (subst (asm) FindAndDelete_loop.simps) simp
    from "1.IH" [OF sk [symmetric] Some r [symmetric] refl this]
    obtain t where t: "n1 \<le> n'" "out = (result @ ?u) @ t" "deletes b (n' - n1) pc' t"
      by auto
    have "pc2 = ?u @ pc'"
      using GetOp_suffix Some r by blast
    then have "deletes b (n' - n1) pc2 (?u @ t)"
      using keep_op [of ?u pc' opcode vch b "n' - n1" t] t(3) Some r by simp
    then show ?thesis
      using deletes_copies [of b "n' - n1" pc2 "?u @ t" "n1 - n"] e t by auto
  qed
qed

lemma deletes_length: "deletes b n s t \<Longrightarrow> length s = length t + n * length b"
  by (induction rule: deletes.induct) auto

lemma deletes_0: "deletes b n s t \<Longrightarrow> n = 0 \<Longrightarrow> t = s"
  by (induction rule: deletes.induct) auto



section \<open>Signature encodings as a grammar\<close>

definition der_int :: "valtype \<Rightarrow> bool" where
  "der_int x = (x \<noteq> [] \<and> unat (x ! 0) < 128 \<and> (length x > 1 \<and> x ! 0 = 0 \<longrightarrow> 128 \<le> unat (x ! 1)))"

definition der_sig :: "valtype \<Rightarrow> valtype \<Rightarrow> byte \<Rightarrow> valtype" where
  "der_sig R S ht =
    [0x30, of_nat (length R + length S + 4), 0x02, of_nat (length R)] @ R @ [0x02, of_nat (length S)] @ S @ [ht]"

lemma length_der_sig [simp]: "length (der_sig R S ht) = length R + length S + 7"
  by (simp add: der_sig_def)

lemma nth_der_sig:
  "der_sig R S ht ! 0 = 0x30"
  "der_sig R S ht ! Suc 0 = of_nat (length R + length S + 4)"
  "der_sig R S ht ! 2 = 0x02"
  "der_sig R S ht ! 3 = of_nat (length R)"
  "i < length R \<Longrightarrow> der_sig R S ht ! (i + 4) = R ! i"
  "der_sig R S ht ! (length R + 4) = 0x02"
  "der_sig R S ht ! (length R + 5) = of_nat (length S)"
  "i < length S \<Longrightarrow> der_sig R S ht ! (length R + 6 + i) = S ! i"
  by (simp_all add: der_sig_def nth_append numeral_eq_Suc nth_Cons split: nat.split)

lemma split_at: "i + n \<le> length xs \<Longrightarrow> drop i xs = take n (drop i xs) @ drop (i + n) xs"
  by (metis add.commute append_take_drop_id drop_drop)

lemma sig_as_der_sig:
  assumes "length sig = lenR + lenS + 7"
    and "sig ! 0 = 0x30" "unat (sig ! 1) = length sig - 3" "sig ! 2 = 0x02" "lenR = unat (sig ! 3)"
    and "sig ! (lenR + 4) = 0x02" "lenS = unat (sig ! (5 + lenR))"
  shows "sig = der_sig (take lenR (drop 4 sig)) (take lenS (drop (6 + lenR) sig)) (last sig)"
proof -
  let ?R = "take lenR (drop 4 sig)" and ?S = "take lenS (drop (6 + lenR) sig)"
  have head: "sig = [sig ! 0, sig ! 1, sig ! 2, sig ! 3] @ drop 4 sig"
    using assms(1) by (simp add: Cons_nth_drop_Suc numeral_eq_Suc)
  have R: "drop 4 sig = ?R @ drop (4 + lenR) sig"
    using assms(1) by (intro split_at) simp
  have mid: "drop (4 + lenR) sig = [sig ! (lenR + 4), sig ! (5 + lenR)] @ drop (6 + lenR) sig"
    using assms(1) by (simp add: Cons_nth_drop_Suc numeral_eq_Suc)
  have S: "drop (6 + lenR) sig = ?S @ drop (6 + lenR + lenS) sig"
    using assms(1) by (intro split_at) simp
  have "length (drop (6 + lenR + lenS) sig) = 1"
    using assms(1) by simp
  then obtain x where x: "drop (6 + lenR + lenS) sig = [x]"
    by (metis One_nat_def length_0_conv length_Suc_conv)
  then have "x = last sig"
    using last_drop [of "6 + lenR + lenS" sig] assms(1) by simp
  with x have tl: "drop (6 + lenR + lenS) sig = [last sig]"
    by simp
  have "unat (sig ! 1) = lenR + lenS + 4"
    using assms(1,3) by simp
  then have len: "sig ! 1 = of_nat (lenR + lenS + 4)"
    by (metis of_nat_unat ucast_id)
  have l: "length ?R = lenR" "length ?S = lenS"
    using assms(1) by simp_all
  have "sig = [sig ! 0, sig ! 1, sig ! 2, sig ! 3] @ ?R @ [sig ! (lenR + 4), sig ! (5 + lenR)] @ ?S @ [last sig]"
    using head R mid S tl by (metis append.assoc)
  also have "\<dots> = [0x30, of_nat (lenR + lenS + 4), 0x02, of_nat lenR] @ ?R @ [0x02, of_nat lenS] @ ?S @ [last sig]"
    using assms(2,4-7) len by simp
  finally show ?thesis
    unfolding der_sig_def l .
qed

lemma IsValidSignatureEncoding_der_sig:
  "IsValidSignatureEncoding (der_sig R S ht) \<longleftrightarrow> der_int R \<and> der_int S \<and> length R + length S \<le> 66"
proof (cases "length R + length S \<le> 66")
  case True
  let ?sig = "der_sig R S ht"
  have "unat (?sig ! 1) = unat (of_nat (length R + length S + 4) :: byte)"
    by (simp only: nth_der_sig One_nat_def)
  then have u1: "unat (?sig ! 1) = length R + length S + 4"
    unfolding unat_of_nat_byte using True by simp
  have u: "unat (?sig ! 3) = length R" "unat (?sig ! (5 + length R)) = length S"
    using True nth_der_sig(4,7) [of R S ht] by (simp_all add: add.commute)
  have c: "?sig ! 0 = 0x30" "?sig ! 2 = 0x02" "?sig ! (length R + 4) = 0x02"
    by (rule nth_der_sig)+
  have r: "R \<noteq> [] \<Longrightarrow> ?sig ! 4 = R ! 0" "length R > 1 \<Longrightarrow> ?sig ! 5 = R ! 1"
    using nth_der_sig(5) [of 0 R S ht] nth_der_sig(5) [of 1 R S ht] by simp_all
  have t: "S \<noteq> [] \<Longrightarrow> ?sig ! (length R + 6) = S ! 0" "length S > 1 \<Longrightarrow> ?sig ! (length R + 7) = S ! 1"
    using nth_der_sig(8) [of 0 S R ht] nth_der_sig(8) [of 1 S R ht] by (simp_all add: add.commute [of "length R" 7])
  show ?thesis
  proof (cases "R = [] \<or> S = []")
    case True
    then show ?thesis
      unfolding IsValidSignatureEncoding_def Let_def u1 u by (auto simp: der_int_def)
  next
    case False
    then have "2 \<le> length R + length S"
      by (cases R; cases S) auto
    with False show ?thesis
      unfolding IsValidSignatureEncoding_def Let_def u1 u c der_int_def and_80_eq_0
      using True r t by (cases "length R > 1"; cases "length S > 1") (auto simp: not_less)
  qed
qed (simp add: IsValidSignatureEncoding_def)


section \<open>Properties\<close>

text \<open>
  C22.  \<open>IsValidSignatureEncoding\<close> accepts exactly the strict DER signatures its comment
  describes: \<open>30 len 02 lenR R 02 lenS S hashtype\<close> with both integers non-empty,
  non-negative and without superfluous padding, and at most 73 bytes in all.
\<close>

theorem IsValidSignatureEncoding_iff_der:
  "IsValidSignatureEncoding sig \<longleftrightarrow>
    (\<exists>R S ht. der_int R \<and> der_int S \<and> length R + length S \<le> 66 \<and> sig = der_sig R S ht)"
proof
  assume a: "IsValidSignatureEncoding sig"
  then have "sig = der_sig (take (unat (sig ! 3)) (drop 4 sig))
      (take (unat (sig ! (5 + unat (sig ! 3)))) (drop (6 + unat (sig ! 3)) sig)) (last sig)"
    by (intro sig_as_der_sig) (auto simp: IsValidSignatureEncoding_def Let_def split: if_splits)
  then show "\<exists>R S ht. der_int R \<and> der_int S \<and> length R + length S \<le> 66 \<and> sig = der_sig R S ht"
    using a IsValidSignatureEncoding_der_sig by metis
qed (auto simp: IsValidSignatureEncoding_der_sig)



end
