(* ===== verification/CondStack.thy ===== *)
theory CondStack
  imports Bytes
begin

text \<open>
  The condition stack of the interpreter (class \<open>ConditionStack\<close>,
  \<open>src/script/interpreter.cpp\<close>, lines 259--320).  Its contract is the locale
  \<open>condition_stack\<close>: seen through \<open>empty\<close> and \<open>all_true\<close> it behaves as
  a vector of booleans.  The code keeps only the size of the vector and the position of its first
  false element, two 32-bit counters; the interpretation shows that this implements the contract.
  The elements above the first false one are not recorded, so the representation is a relation.
\<close>

section \<open>Contract\<close>

text \<open>The operations a script performs on the stack, and what they do to a vector of booleans.\<close>

datatype cond_op = PushBack bool | PopBack | ToggleTop

fun vector_op :: "cond_op \<Rightarrow> bool list \<Rightarrow> bool list option" where
  "vector_op (PushBack f) bs = Some (bs @ [f])"
| "vector_op PopBack bs = (if bs = [] then None else Some (butlast bs))"
| "vector_op ToggleTop bs = (if bs = [] then None else Some (butlast bs @ [\<not> last bs]))"

fun vector_ops :: "cond_op list \<Rightarrow> bool list \<Rightarrow> bool list option" where
  "vector_ops [] bs = Some bs"
| "vector_ops (x # xs) bs = (case vector_op x bs of None \<Rightarrow> None | Some bs' \<Rightarrow> vector_ops xs bs')"

fun run_op :: "(bool \<Rightarrow> 's \<Rightarrow> 's) \<Rightarrow> ('s \<Rightarrow> 's option) \<Rightarrow> ('s \<Rightarrow> 's option) \<Rightarrow> cond_op \<Rightarrow> 's \<Rightarrow> 's option" where
  "run_op push pop toggle (PushBack f) s = Some (push f s)"
| "run_op push pop toggle PopBack s = pop s"
| "run_op push pop toggle ToggleTop s = toggle s"

fun run_ops :: "(bool \<Rightarrow> 's \<Rightarrow> 's) \<Rightarrow> ('s \<Rightarrow> 's option) \<Rightarrow> ('s \<Rightarrow> 's option) \<Rightarrow> cond_op list \<Rightarrow> 's \<Rightarrow> 's option" where
  "run_ops push pop toggle [] s = Some s"
| "run_ops push pop toggle (x # xs) s =
    (case run_op push pop toggle x s of None \<Rightarrow> None | Some s' \<Rightarrow> run_ops push pop toggle xs s')"

locale condition_stack =
  fixes start :: 's
    and is_empty :: "'s \<Rightarrow> bool"
    and alltrue :: "'s \<Rightarrow> bool"
    and push :: "bool \<Rightarrow> 's \<Rightarrow> 's"
    and pop :: "'s \<Rightarrow> 's option"
    and toggle :: "'s \<Rightarrow> 's option"
    and capacity :: nat
    and rep :: "'s \<Rightarrow> bool list \<Rightarrow> bool"
  assumes rep_start: "rep start []"
    and rep_empty: "rep s bs \<Longrightarrow> is_empty s \<longleftrightarrow> bs = []"
    and rep_alltrue: "rep s bs \<Longrightarrow> alltrue s \<longleftrightarrow> list_all (\<lambda>b. b) bs"
    and rep_push: "rep s bs \<Longrightarrow> length bs < capacity \<Longrightarrow> rep (push f s) (bs @ [f])"
    and rep_pop: "rep s bs \<Longrightarrow> bs \<noteq> [] \<Longrightarrow> \<exists>s'. pop s = Some s' \<and> rep s' (butlast bs)"
    and rep_toggle: "rep s bs \<Longrightarrow> bs \<noteq> [] \<Longrightarrow> \<exists>s'. toggle s = Some s' \<and> rep s' (butlast bs @ [\<not> last bs])"
begin

lemma stack_op_sim:
  "rep s bs \<Longrightarrow> length bs < capacity \<Longrightarrow> vector_op x bs = Some bs' \<Longrightarrow> \<exists>s'. run_op push pop toggle x s = Some s' \<and> rep s' bs'"
  by (cases x) (auto simp: rep_push dest: rep_pop rep_toggle split: if_splits)

lemma vector_op_length: "vector_op x bs = Some bs' \<Longrightarrow> length bs' \<le> length bs + 1"
  by (cases x) (auto split: if_splits)

lemma stack_ops_sim:
  "rep s bs \<Longrightarrow> length bs + length xs \<le> capacity \<Longrightarrow> vector_ops xs bs = Some bs' \<Longrightarrow>
   \<exists>s'. run_ops push pop toggle xs s = Some s' \<and> rep s' bs'"
proof (induction xs arbitrary: s bs)
  case (Cons x xs)
  then obtain bs1 where v: "vector_op x bs = Some bs1" "vector_ops xs bs1 = Some bs'"
    by (auto split: option.splits)
  moreover obtain s1 where "run_op push pop toggle x s = Some s1" "rep s1 bs1"
    using stack_op_sim [OF Cons.prems(1) _ v(1)] Cons.prems(2) by auto
  moreover have "length bs1 + length xs \<le> capacity"
    using vector_op_length [OF v(1)] Cons.prems(2) by simp
  ultimately show ?case
    using Cons.IH by simp
qed simp

lemma observations:
  assumes "length xs \<le> capacity" "vector_ops xs [] = Some bs"
  shows "\<exists>s. run_ops push pop toggle xs start = Some s \<and> (is_empty s \<longleftrightarrow> bs = []) \<and> (alltrue s \<longleftrightarrow> list_all (\<lambda>b. b) bs)"
  using stack_ops_sim [OF rep_start _ assms(2)] assms(1) rep_empty rep_alltrue by fastforce

end


section \<open>Implementation\<close>

record ConditionStack =
  m_stack_size :: "32 word"
  m_first_false_pos :: "32 word"

definition NO_FALSE :: "32 word" where
  "NO_FALSE = 0xffffffff"

definition cs_init :: ConditionStack where
  "cs_init = \<lparr>m_stack_size = 0, m_first_false_pos = NO_FALSE\<rparr>"

definition cs_empty :: "ConditionStack \<Rightarrow> bool" where
  "cs_empty s = (m_stack_size s = 0)"

definition all_true :: "ConditionStack \<Rightarrow> bool" where
  "all_true s = (m_first_false_pos s = NO_FALSE)"

definition push_back :: "bool \<Rightarrow> ConditionStack \<Rightarrow> ConditionStack" where
  "push_back f s =
    \<lparr>m_stack_size = m_stack_size s + 1,
     m_first_false_pos = (if m_first_false_pos s = NO_FALSE \<and> \<not> f then m_stack_size s else m_first_false_pos s)\<rparr>"

definition pop_back :: "ConditionStack \<Rightarrow> ConditionStack option" where
  "pop_back s =
    (if m_stack_size s > 0 then
       let n = m_stack_size s - 1 in
       Some \<lparr>m_stack_size = n,
             m_first_false_pos = (if m_first_false_pos s = n then NO_FALSE else m_first_false_pos s)\<rparr>
     else None)"

definition toggle_top :: "ConditionStack \<Rightarrow> ConditionStack option" where
  "toggle_top s =
    (if m_stack_size s > 0 then
       Some (s\<lparr>m_first_false_pos :=
         (if m_first_false_pos s = NO_FALSE then m_stack_size s - 1
          else if m_first_false_pos s = m_stack_size s - 1 then NO_FALSE
          else m_first_false_pos s)\<rparr>)
     else None)"

definition cs_rep :: "ConditionStack \<Rightarrow> bool list \<Rightarrow> bool" where
  "cs_rep s bs =
    (length bs < 2 ^ 32 \<and> m_stack_size s = of_nat (length bs) \<and>
     (if list_all (\<lambda>b. b) bs then m_first_false_pos s = NO_FALSE
      else m_first_false_pos s = of_nat (length (takeWhile (\<lambda>b. b) bs))))"

lemma unat_of_nat_32: "a < 2 ^ 32 \<Longrightarrow> unat (of_nat a :: 32 word) = a"
  by (simp add: unsigned_of_nat take_bit_nat_eq_self)

lemma of_nat_eq_32: "a < 2 ^ 32 \<Longrightarrow> b < 2 ^ 32 \<Longrightarrow> (of_nat a :: 32 word) = of_nat b \<longleftrightarrow> a = b"
  by (metis unat_of_nat_32)

lemma of_nat_NO_FALSE: "a < 2 ^ 32 - 1 \<Longrightarrow> of_nat a \<noteq> NO_FALSE"
proof
  assume a: "a < 2 ^ 32 - 1" "of_nat a = NO_FALSE"
  then have "unat (of_nat a :: 32 word) = 2 ^ 32 - 1"
    by (simp add: NO_FALSE_def)
  then show False
    using a(1) by (simp add: unat_of_nat_32)
qed

lemma takeWhile_snoc:
  "takeWhile (\<lambda>b. b) (cs @ [b]) = (if list_all (\<lambda>b. b) cs then cs @ (if b then [b] else []) else takeWhile (\<lambda>b. b) cs)"
  by (induction cs) auto

lemma length_takeWhile_not_all: "\<not> list_all (\<lambda>b. b) bs \<Longrightarrow> length (takeWhile (\<lambda>b. b) bs) < length bs"
  by (induction bs) auto

lemma takeWhile_all: "list_all (\<lambda>b. b) cs \<Longrightarrow> takeWhile (\<lambda>b. b) cs = cs"
  by (induction cs) auto

lemma cs_rep_first_false:
  "cs_rep s bs \<Longrightarrow> \<not> list_all (\<lambda>b. b) bs \<Longrightarrow> m_first_false_pos s \<noteq> NO_FALSE"
  using length_takeWhile_not_all [of bs] of_nat_NO_FALSE [of "length (takeWhile (\<lambda>b. b) bs)"]
  by (auto simp: cs_rep_def)

lemma cs_rep_push:
  assumes "cs_rep s bs" "length bs < 2 ^ 32 - 1"
  shows "cs_rep (push_back f s) (bs @ [f])"
proof (cases "list_all (\<lambda>b. b) bs")
  case True
  then show ?thesis
    using assms by (auto simp: cs_rep_def push_back_def takeWhile_snoc)
next
  case False
  then show ?thesis
    using cs_rep_first_false [OF assms(1) False] assms
    by (auto simp: cs_rep_def push_back_def takeWhile_snoc)
qed

lemma cs_rep_snoc_size:
  assumes "cs_rep s (bs @ [b])"
  shows "m_stack_size s - 1 = of_nat (length bs)" "m_stack_size s > 0"
proof -
  have "unat (m_stack_size s) = length bs + 1"
    using assms unat_of_nat_32 [of "length bs + 1"] by (simp add: cs_rep_def)
  then show "m_stack_size s > 0"
    by (simp add: word_less_nat_alt)
qed (use assms in \<open>simp add: cs_rep_def\<close>)

lemma cs_rep_below:
  assumes "cs_rep s (bs @ [b])" "\<not> list_all (\<lambda>b. b) bs"
  shows "m_first_false_pos s = of_nat (length (takeWhile (\<lambda>b. b) bs))"
    "m_first_false_pos s \<noteq> of_nat (length bs)" "m_first_false_pos s \<noteq> NO_FALSE"
  using assms length_takeWhile_not_all [OF assms(2)] cs_rep_first_false [OF assms(1)]
    of_nat_eq_32 [of "length (takeWhile (\<lambda>b. b) bs)" "length bs"]
  by (auto simp: cs_rep_def takeWhile_snoc)

lemma cs_rep_pop:
  assumes "cs_rep s (bs @ [b])"
  shows "\<exists>s'. pop_back s = Some s' \<and> cs_rep s' bs"
proof (cases "list_all (\<lambda>b. b) bs")
  case True
  then show ?thesis
    using assms cs_rep_snoc_size [OF assms]
    by (cases b) (auto simp: pop_back_def cs_rep_def Let_def takeWhile_snoc takeWhile_all)
next
  case False
  then show ?thesis
    using assms cs_rep_snoc_size [OF assms] cs_rep_below [OF assms False]
    by (simp add: pop_back_def Let_def cs_rep_def)
qed

lemma cs_rep_toggle:
  assumes "cs_rep s (bs @ [b])"
  shows "\<exists>s'. toggle_top s = Some s' \<and> cs_rep s' (bs @ [\<not> b])"
proof (cases "list_all (\<lambda>b. b) bs")
  case True
  have "of_nat (length bs) \<noteq> NO_FALSE"
    using assms by (intro of_nat_NO_FALSE) (simp add: cs_rep_def)
  then show ?thesis
    using True assms cs_rep_snoc_size [OF assms]
    by (cases b) (auto simp: toggle_top_def cs_rep_def takeWhile_snoc takeWhile_all)
next
  case False
  then show ?thesis
    using assms cs_rep_snoc_size [OF assms] cs_rep_below [OF assms False]
    by (simp add: toggle_top_def cs_rep_def takeWhile_snoc)
qed

interpretation cs: condition_stack cs_init cs_empty all_true push_back pop_back toggle_top "2 ^ 32 - 1" cs_rep
proof
  show "cs_rep cs_init []"
    by (simp add: cs_rep_def cs_init_def)
  show "cs_empty s \<longleftrightarrow> bs = []" if "cs_rep s bs" for s bs
    using that unat_of_nat_32 [of "length bs"] by (auto simp: cs_rep_def cs_empty_def)
  show "all_true s \<longleftrightarrow> list_all (\<lambda>b. b) bs" if "cs_rep s bs" for s bs
    using that cs_rep_first_false [OF that]
    by (cases "list_all (\<lambda>b. b) bs") (simp_all add: cs_rep_def all_true_def)
  show "cs_rep (push_back f s) (bs @ [f])" if "cs_rep s bs" "length bs < 2 ^ 32 - 1" for s bs f
    using that by (rule cs_rep_push)
  show "\<exists>s'. pop_back s = Some s' \<and> cs_rep s' (butlast bs)" if "cs_rep s bs" "bs \<noteq> []" for s bs
    using that by (cases bs rule: rev_cases) (auto dest: cs_rep_pop)
  show "\<exists>s'. toggle_top s = Some s' \<and> cs_rep s' (butlast bs @ [\<not> last bs])" if "cs_rep s bs" "bs \<noteq> []" for s bs
    using that by (cases bs rule: rev_cases) (auto dest: cs_rep_toggle)
qed


section \<open>Properties\<close>

text \<open>
  C23.  The optimised condition stack is observationally a vector of booleans: after any sequence of
  pushes, pops and toggles (shorter than \<open>2^32\<close>, far above what a script can hold) that
  is defined on the vector, no assertion of the class fails, \<open>empty()\<close> tells whether the
  vector is empty and \<open>all_true()\<close> whether it holds no false value.
\<close>

theorem ConditionStack_refines_bool_vector:
  assumes "length xs < 2 ^ 32" "vector_ops xs [] = Some bs"
  shows "\<exists>s. run_ops push_back pop_back toggle_top xs cs_init = Some s \<and>
    cs_empty s = (bs = []) \<and> all_true s = list_all (\<lambda>b. b) bs"
  using cs.observations [of xs bs] assms by auto

theorem ConditionStack_refines_bool_vector_witness:
  "length [PushBack True, PushBack False, ToggleTop, PopBack] < 2 ^ 32 \<and>
   vector_ops [PushBack True, PushBack False, ToggleTop, PopBack] [] = Some [True] \<and>
   (\<exists>s. run_ops push_back pop_back toggle_top [PushBack True, PushBack False, ToggleTop, PopBack] cs_init = Some s \<and>
      cs_empty s = ([True] = []) \<and> all_true s = list_all (\<lambda>b. b) [True])"
  using ConditionStack_refines_bool_vector [of "[PushBack True, PushBack False, ToggleTop, PopBack]" "[True]"]
  by simp

end
