(* ===== verification/QuantumSignature.thy ===== *)
theory QuantumSignature
  imports Serialize
begin

text \<open>
  The self-describing quantum signature format
  \<open>[scheme_id][sig_len][signature][pubkey_len][pubkey]\<close>
  (\<open>src/script/quantum_signature.h\<close>, \<open>.cpp\<close>): sizes per scheme, serialization,
  parsing and the weight of a signature.
\<close>

type_synonym SignatureSchemeID = byte

abbreviation (input) SCHEME_ECDSA :: SignatureSchemeID where "SCHEME_ECDSA \<equiv> 0x01"
abbreviation (input) SCHEME_ML_DSA_65 :: SignatureSchemeID where "SCHEME_ML_DSA_65 \<equiv> 0x02"
abbreviation (input) SCHEME_SLH_DSA_192F :: SignatureSchemeID where "SCHEME_SLH_DSA_192F \<equiv> 0x03"

abbreviation (input) ML_DSA_65_PRIVKEY_SIZE :: nat where "ML_DSA_65_PRIVKEY_SIZE \<equiv> 4032"
abbreviation (input) ML_DSA_65_PUBKEY_SIZE :: nat where "ML_DSA_65_PUBKEY_SIZE \<equiv> 1952"
abbreviation (input) ML_DSA_65_SIG_SIZE :: nat where "ML_DSA_65_SIG_SIZE \<equiv> 3309"
abbreviation (input) SLH_DSA_192F_PRIVKEY_SIZE :: nat where "SLH_DSA_192F_PRIVKEY_SIZE \<equiv> 96"
abbreviation (input) SLH_DSA_192F_PUBKEY_SIZE :: nat where "SLH_DSA_192F_PUBKEY_SIZE \<equiv> 48"
abbreviation (input) SLH_DSA_192F_SIG_SIZE :: nat where "SLH_DSA_192F_SIG_SIZE \<equiv> 35664"
abbreviation (input) MAX_ECDSA_SIG_SIZE :: nat where "MAX_ECDSA_SIG_SIZE \<equiv> 73"
abbreviation (input) MAX_ML_DSA_65_SIG_SIZE :: nat where "MAX_ML_DSA_65_SIG_SIZE \<equiv> 3366"
abbreviation (input) MAX_SLH_DSA_192F_SIG_SIZE :: nat where "MAX_SLH_DSA_192F_SIG_SIZE \<equiv> SLH_DSA_192F_SIG_SIZE"
abbreviation (input) MAX_QUANTUM_SIG_SIZE :: nat where "MAX_QUANTUM_SIG_SIZE \<equiv> 65535"
abbreviation (input) MAX_ECDSA_PUBKEY_SIZE :: nat where "MAX_ECDSA_PUBKEY_SIZE \<equiv> 65"
abbreviation (input) MAX_ML_DSA_65_PUBKEY_SIZE :: nat where "MAX_ML_DSA_65_PUBKEY_SIZE \<equiv> ML_DSA_65_PUBKEY_SIZE"
abbreviation (input) MAX_SLH_DSA_192F_PUBKEY_SIZE :: nat where "MAX_SLH_DSA_192F_PUBKEY_SIZE \<equiv> SLH_DSA_192F_PUBKEY_SIZE"
abbreviation (input) MAX_QUANTUM_PUBKEY_SIZE_DYNAMIC :: nat where "MAX_QUANTUM_PUBKEY_SIZE_DYNAMIC \<equiv> 65535"
abbreviation (input) MIN_QUANTUM_SIG_SIZE_THRESHOLD :: nat where "MIN_QUANTUM_SIG_SIZE_THRESHOLD \<equiv> 100"
abbreviation (input) WITNESS_SCALE_FACTOR :: nat where "WITNESS_SCALE_FACTOR \<equiv> 4"

record QuantumSignature =
  scheme_id :: SignatureSchemeID
  q_signature :: valtype
  q_pubkey :: valtype

definition qs_Serialize :: "QuantumSignature \<Rightarrow> valtype" where
  "qs_Serialize q =
    [scheme_id q] @
    WriteCompactSize (length (q_signature q)) @ q_signature q @
    WriteCompactSize (length (q_pubkey q)) @ q_pubkey q"

definition GetMaxSignatureSize :: "SignatureSchemeID \<Rightarrow> nat" where
  "GetMaxSignatureSize i =
    (if i = SCHEME_ECDSA then MAX_ECDSA_SIG_SIZE
     else if i = SCHEME_ML_DSA_65 then MAX_ML_DSA_65_SIG_SIZE
     else if i = SCHEME_SLH_DSA_192F then MAX_SLH_DSA_192F_SIG_SIZE
     else MAX_QUANTUM_SIG_SIZE)"

definition GetMaxPubKeySize :: "SignatureSchemeID \<Rightarrow> nat" where
  "GetMaxPubKeySize i =
    (if i = SCHEME_ECDSA then MAX_ECDSA_PUBKEY_SIZE
     else if i = SCHEME_ML_DSA_65 then MAX_ML_DSA_65_PUBKEY_SIZE
     else if i = SCHEME_SLH_DSA_192F then MAX_SLH_DSA_192F_PUBKEY_SIZE
     else MAX_QUANTUM_PUBKEY_SIZE_DYNAMIC)"

definition IsValidSize :: "QuantumSignature \<Rightarrow> bool" where
  "IsValidSize q =
    (let siglen = length (q_signature q); pklen = length (q_pubkey q) in
     if scheme_id q = SCHEME_ML_DSA_65 then
       siglen \<le> MAX_ML_DSA_65_SIG_SIZE \<and> siglen > 0 \<and> pklen = ML_DSA_65_PUBKEY_SIZE
     else if scheme_id q = SCHEME_SLH_DSA_192F then
       siglen = SLH_DSA_192F_SIG_SIZE \<and> pklen = SLH_DSA_192F_PUBKEY_SIZE
     else if scheme_id q = SCHEME_ECDSA then
       siglen \<le> MAX_ECDSA_SIG_SIZE \<and> siglen > 0 \<and> pklen \<le> MAX_ECDSA_PUBKEY_SIZE \<and> pklen > 0
     else
       siglen \<le> GetMaxSignatureSize (scheme_id q) \<and> pklen \<le> GetMaxPubKeySize (scheme_id q) \<and>
       siglen > 0 \<and> pklen > 0)"

text \<open>
  \<open>Deserialize\<close> catches every exception of the stream and returns false; the test
  \<open>id > 0xFF\<close> of a \<open>uint8_t\<close> never holds.
\<close>

definition qs_Deserialize :: "valtype \<Rightarrow> QuantumSignature option" where
  "qs_Deserialize vch = (case ser_readdata8 vch of
     None \<Rightarrow> None
   | Some (i, s1) \<Rightarrow> if i > 0xff then None else
     (case ReadCompactSize True s1 of
        None \<Rightarrow> None
      | Some (sig_len, s2) \<Rightarrow> if sig_len > MAX_QUANTUM_SIG_SIZE then None else
        (case ser_read sig_len s2 of
           None \<Rightarrow> None
         | Some (sig, s3) \<Rightarrow>
           (case ReadCompactSize True s3 of
              None \<Rightarrow> None
            | Some (pubkey_len, s4) \<Rightarrow> if pubkey_len > MAX_QUANTUM_PUBKEY_SIZE_DYNAMIC then None else
              (case ser_read pubkey_len s4 of
                 None \<Rightarrow> None
               | Some (pk, s5) \<Rightarrow>
                   if s5 \<noteq> [] then None
                   else let q = \<lparr>scheme_id = of_nat i, q_signature = sig, q_pubkey = pk\<rparr> in
                     if IsValidSize q then Some q else None)))))"

definition GetSerializedSize :: "QuantumSignature \<Rightarrow> nat" where
  "GetSerializedSize q =
    1 + (GetSizeOfCompactSize (length (q_signature q)) + length (q_signature q)) +
    (GetSizeOfCompactSize (length (q_pubkey q)) + length (q_pubkey q))"

definition ParseQuantumSignature :: "valtype \<Rightarrow> QuantumSignature option" where
  "ParseQuantumSignature data = (if data = [] then None else qs_Deserialize data)"

definition EncodeQuantumSignature :: "QuantumSignature \<Rightarrow> valtype" where
  "EncodeQuantumSignature sig = qs_Serialize sig"

definition GetQuantumSignatureWeight :: "QuantumSignature \<Rightarrow> nat" where
  "GetQuantumSignatureWeight sig =
    (let serialized_size = GetSerializedSize sig in
     if scheme_id sig = SCHEME_ECDSA then serialized_size * WITNESS_SCALE_FACTOR
     else if scheme_id sig = SCHEME_ML_DSA_65 then serialized_size * 3
     else if scheme_id sig = SCHEME_SLH_DSA_192F then serialized_size * 2
     else serialized_size * WITNESS_SCALE_FACTOR)"


section \<open>Sizes\<close>

lemma length_qs_Serialize: "length (qs_Serialize q) = GetSerializedSize q"
  by (simp add: qs_Serialize_def GetSerializedSize_def length_WriteCompactSize)

lemma IsValidSize_bounds:
  "IsValidSize q \<Longrightarrow> 0 < length (q_signature q) \<and> length (q_signature q) \<le> MAX_QUANTUM_SIG_SIZE \<and>
    length (q_signature q) \<le> GetMaxSignatureSize (scheme_id q) \<and>
    0 < length (q_pubkey q) \<and> length (q_pubkey q) \<le> MAX_QUANTUM_PUBKEY_SIZE_DYNAMIC \<and>
    length (q_pubkey q) \<le> GetMaxPubKeySize (scheme_id q)"
  by (auto simp: IsValidSize_def GetMaxSignatureSize_def GetMaxPubKeySize_def Let_def split: if_splits)

lemma qs_Deserialize_Serialize:
  assumes "IsValidSize q"
  shows "qs_Deserialize (qs_Serialize q) = Some q"
proof -
  have "compact_ok True (length (q_signature q))" "compact_ok True (length (q_pubkey q))"
    using IsValidSize_bounds [OF assms] by (simp_all add: compact_ok_def MAX_SIZE_def)
  moreover have "ser_read (length bs) bs = Some (bs, [])" for bs
    using ser_read_append [of bs "length bs" "[]"] by simp
  ultimately show ?thesis
    using IsValidSize_bounds [OF assms] assms
    by (cases q) (simp add: not_less qs_Deserialize_def qs_Serialize_def ser_readdata8_def ReadCompactSize_Write Let_def)
qed

lemma qs_Deserialize_SomeD:
  assumes "qs_Deserialize vch = Some q"
  shows "IsValidSize q \<and> vch = qs_Serialize q"
proof -
  obtain i s1 where 1: "ser_readdata8 vch = Some (i, s1)"
    using assms by (fastforce simp: qs_Deserialize_def split: option.splits)
  obtain n s2 where 2: "ReadCompactSize True s1 = Some (n, s2)"
    using assms 1 by (fastforce simp: qs_Deserialize_def split: option.splits if_splits)
  obtain sig s3 where 3: "ser_read n s2 = Some (sig, s3)"
    using assms 1 2 by (fastforce simp: qs_Deserialize_def split: option.splits if_splits)
  obtain m s4 where 4: "ReadCompactSize True s3 = Some (m, s4)"
    using assms 1 2 3 by (fastforce simp: qs_Deserialize_def split: option.splits if_splits)
  obtain pk s5 where 5: "ser_read m s4 = Some (pk, s5)"
    using assms 1 2 3 4 by (fastforce simp: qs_Deserialize_def split: option.splits if_splits)
  have "s5 = []" "q = \<lparr>scheme_id = of_nat i, q_signature = sig, q_pubkey = pk\<rparr>" "IsValidSize q"
    using assms 1 2 3 4 5 by (auto simp: qs_Deserialize_def Let_def split: if_splits)
  then show ?thesis
    using 1 2 3 4 5
    by (auto simp: qs_Serialize_def ser_readdata8_Some_iff dest!: ReadCompactSize_SomeD ser_read_SomeD)
qed


section \<open>Properties\<close>

text \<open>
  C31.  Parsing a quantum signature is exactly the inverse of serializing one of valid size: a byte
  string parses to \<open>q\<close> if and only if \<open>q\<close> passes \<open>IsValidSize\<close> and the
  string is \<open>q\<close>'s serialization.  So there is one encoding per signature (no malleability by
  re-encoding, no trailing bytes), every parsed signature obeys the limits of its scheme, and its
  length is \<open>GetSerializedSize\<close>.
\<close>

theorem ParseQuantumSignature_iff_Encode:
  "(ParseQuantumSignature vch = Some q \<longleftrightarrow> IsValidSize q \<and> vch = EncodeQuantumSignature q) \<and>
   length (EncodeQuantumSignature q) = GetSerializedSize q"
proof
  have "qs_Serialize q \<noteq> []"
    by (simp add: qs_Serialize_def)
  then show "ParseQuantumSignature vch = Some q \<longleftrightarrow> IsValidSize q \<and> vch = EncodeQuantumSignature q"
    using qs_Deserialize_Serialize qs_Deserialize_SomeD
    by (auto simp: ParseQuantumSignature_def EncodeQuantumSignature_def)
qed (simp add: EncodeQuantumSignature_def length_qs_Serialize)

text \<open>
  The weight of a quantum signature.  A valid ML-DSA-65 signature weighs at most 15975 and an
  SLH-DSA-192f signature exactly 71434; both are strictly below four times the serialized size, which
  is what an ECDSA or unknown scheme pays, so the discount never inverts: no scheme pays more than the
  witness scale factor or less than twice its bytes.
\<close>

lemma GetQuantumSignatureWeight_bounds:
  "2 * length (EncodeQuantumSignature q) \<le> GetQuantumSignatureWeight q \<and>
   GetQuantumSignatureWeight q \<le> WITNESS_SCALE_FACTOR * length (EncodeQuantumSignature q) \<and>
   (IsValidSize q \<longrightarrow> scheme_id q = SCHEME_ML_DSA_65 \<longrightarrow> GetQuantumSignatureWeight q \<le> 15975) \<and>
   (IsValidSize q \<longrightarrow> scheme_id q = SCHEME_SLH_DSA_192F \<longrightarrow> GetQuantumSignatureWeight q = 71434)"
  by (auto simp: EncodeQuantumSignature_def length_qs_Serialize GetQuantumSignatureWeight_def Let_def
      IsValidSize_def GetSerializedSize_def GetSizeOfCompactSize_def)

end
