(* ===== verification/QuantumKey.thy ===== *)
theory QuantumKey
  imports QuantumSignature ScriptTypes
begin

text \<open>
  Quantum keys (\<open>src/crypto/quantum_key.h\<close>, \<open>.cpp\<close>) over the wrapper of liboqs
  (\<open>src/crypto/oqs_wrapper.cpp\<close>).  liboqs is not part of the repository: an
  \<open>OQS_SIG\<close> record stands for one of its algorithms, and what the code relies on is the
  predicate \<open>oqs_correct\<close>.  Key generation and signing take the random bytes they
  draw as an argument.  The build enables both algorithms, so creating a context does not throw.
  The ECDSA side (\<open>CKey\<close>, whose \<open>MakeNewKey\<close> ends with a valid key, and
  \<open>CPubKey::Verify\<close>) is the record \<open>ECDSA_ops\<close>.
\<close>


section \<open>liboqs and its wrapper\<close>

record OQS_SIG =
  length_public_key :: nat
  length_secret_key :: nat
  length_signature :: nat
  OQS_SIG_keypair :: "valtype \<Rightarrow> (valtype \<times> valtype) option"
  OQS_SIG_sign :: "valtype \<Rightarrow> valtype \<Rightarrow> valtype \<Rightarrow> valtype option"
  OQS_SIG_verify :: "valtype \<Rightarrow> valtype \<Rightarrow> valtype \<Rightarrow> bool"

definition OQS_GenerateKeypair :: "OQS_SIG \<Rightarrow> valtype \<Rightarrow> (valtype \<times> valtype) option" where
  "OQS_GenerateKeypair m_sig rnd = OQS_SIG_keypair m_sig rnd"

definition OQS_Sign :: "OQS_SIG \<Rightarrow> valtype \<Rightarrow> valtype \<Rightarrow> valtype \<Rightarrow> valtype option" where
  "OQS_Sign m_sig rnd message secret_key =
    (if length secret_key \<noteq> length_secret_key m_sig then None
     else OQS_SIG_sign m_sig rnd message secret_key)"

definition OQS_Verify :: "OQS_SIG \<Rightarrow> valtype \<Rightarrow> valtype \<Rightarrow> valtype \<Rightarrow> bool" where
  "OQS_Verify m_sig message signature public_key =
    (if length public_key \<noteq> length_public_key m_sig then False
     else OQS_SIG_verify m_sig message signature public_key)"

text \<open>
  What the code relies on: the sizes of the algorithm, and that a signature made with the secret
  key of a generated pair verifies under its public key.
\<close>

definition oqs_correct :: "OQS_SIG \<Rightarrow> nat \<Rightarrow> nat \<Rightarrow> nat \<Rightarrow> bool" where
  "oqs_correct a pk_size sk_size sig_size \<longleftrightarrow>
    length_public_key a = pk_size \<and> length_secret_key a = sk_size \<and> length_signature a = sig_size \<and>
    (\<forall>rnd pk sk. OQS_SIG_keypair a rnd = Some (pk, sk) \<longrightarrow> length pk = pk_size \<and> length sk = sk_size) \<and>
    (\<forall>rnd m sk sig. OQS_SIG_sign a rnd m sk = Some sig \<longrightarrow> 0 < length sig \<and> length sig \<le> sig_size) \<and>
    (\<forall>rnd rnd' m pk sk sig. OQS_SIG_keypair a rnd = Some (pk, sk) \<longrightarrow>
       OQS_SIG_sign a rnd' m sk = Some sig \<longrightarrow> OQS_SIG_verify a m sig pk)"

record liboqs =
  alg_ML_DSA_65 :: OQS_SIG
  alg_SLH_DSA_192F :: OQS_SIG

definition liboqs_correct :: "liboqs \<Rightarrow> bool" where
  "liboqs_correct lib \<longleftrightarrow>
    oqs_correct (alg_ML_DSA_65 lib) ML_DSA_65_PUBKEY_SIZE ML_DSA_65_PRIVKEY_SIZE ML_DSA_65_SIG_SIZE \<and>
    oqs_correct (alg_SLH_DSA_192F lib) SLH_DSA_192F_PUBKEY_SIZE SLH_DSA_192F_PRIVKEY_SIZE SLH_DSA_192F_SIG_SIZE"

record ECDSA_ops =
  CKey_MakeNewKey :: "valtype \<Rightarrow> valtype"
  CKey_GetPubKey :: "valtype \<Rightarrow> valtype"
  CKey_Sign :: "valtype \<Rightarrow> valtype \<Rightarrow> valtype option"
  CKey_Load :: "valtype \<Rightarrow> valtype \<Rightarrow> valtype option"
  CKey_GetPrivKey :: "valtype \<Rightarrow> valtype"
  CPubKey_Verify :: "valtype \<Rightarrow> valtype \<Rightarrow> valtype \<Rightarrow> bool"

record crypto =
  cr_oqs :: liboqs
  cr_ecdsa :: ECDSA_ops


section \<open>Public keys\<close>

definition CPubKey_GetLen :: "byte \<Rightarrow> nat" where
  "CPubKey_GetLen chHeader =
    (if chHeader = 2 \<or> chHeader = 3 then 33
     else if chHeader = 4 \<or> chHeader = 6 \<or> chHeader = 7 then 65
     else 0)"

definition CPubKey_ValidSize :: "valtype \<Rightarrow> bool" where
  "CPubKey_ValidSize vch = (length vch > 0 \<and> CPubKey_GetLen (hd vch) = length vch)"

text \<open>
  \<open>CPubKey(vch)\<close> keeps the bytes when the header byte fits the length and is invalid
  (size zero) otherwise.
\<close>

definition CPubKey_Set :: "valtype \<Rightarrow> valtype" where
  "CPubKey_Set vch = (let len = (if vch = [] then 0 else CPubKey_GetLen (hd vch)) in
     if len \<noteq> 0 \<and> len = length vch then vch else [])"

definition CPubKey_IsValid :: "valtype \<Rightarrow> bool" where
  "CPubKey_IsValid pubkey = (length pubkey > 0)"

datatype KeyType = ECDSA | ML_DSA_65 | SLH_DSA_192F | UnknownKeyType byte

fun KeyType_byte :: "KeyType \<Rightarrow> byte" where
  "KeyType_byte ECDSA = 0x00"
| "KeyType_byte ML_DSA_65 = 0x01"
| "KeyType_byte SLH_DSA_192F = 0x02"
| "KeyType_byte (UnknownKeyType b) = b"

definition byte_KeyType :: "byte \<Rightarrow> KeyType" where
  "byte_KeyType b =
    (if b = 0x00 then ECDSA else if b = 0x01 then ML_DSA_65 else if b = 0x02 then SLH_DSA_192F
     else UnknownKeyType b)"

record CQuantumPubKey =
  pk_type :: KeyType
  pk_data :: valtype

definition empty_pubkey :: CQuantumPubKey where
  "empty_pubkey = \<lparr>pk_type = ECDSA, pk_data = []\<rparr>"

definition CQuantumPubKey_IsValid :: "CQuantumPubKey \<Rightarrow> bool" where
  "CQuantumPubKey_IsValid pk = (case pk_type pk of
     ECDSA \<Rightarrow>
       if length (pk_data pk) = 33 \<or> length (pk_data pk) = 65
       then CPubKey_IsValid (CPubKey_Set (pk_data pk)) else False
   | ML_DSA_65 \<Rightarrow> length (pk_data pk) = ML_DSA_65_PUBKEY_SIZE
   | SLH_DSA_192F \<Rightarrow> length (pk_data pk) = SLH_DSA_192F_PUBKEY_SIZE
   | UnknownKeyType _ \<Rightarrow> False)"

definition CQuantumPubKey_GetID :: "Hashes \<Rightarrow> CQuantumPubKey \<Rightarrow> valtype" where
  "CQuantumPubKey_GetID hs pk =
    (if \<not> CQuantumPubKey_IsValid pk then replicate 20 0
     else if pk_type pk \<noteq> ECDSA then Hash160 hs (KeyType_byte (pk_type pk) # pk_data pk)
     else Hash160 hs (pk_data pk))"

definition GetCPubKey :: "CQuantumPubKey \<Rightarrow> valtype option" where
  "GetCPubKey pk =
    (if pk_type pk \<noteq> ECDSA then None
     else let p = CPubKey_Set (pk_data pk) in if CPubKey_IsValid p then Some p else None)"


section \<open>Private keys\<close>

record CQuantumKey =
  m_type :: KeyType
  m_vchPrivKey :: valtype
  m_vchPubKey :: valtype
  m_fValid :: bool
  m_ecdsaKey :: "valtype option"

definition empty_key :: CQuantumKey where
  "empty_key = \<lparr>m_type = ECDSA, m_vchPrivKey = [], m_vchPubKey = [], m_fValid = False, m_ecdsaKey = None\<rparr>"

definition key_of_CKey :: "valtype option \<Rightarrow> CQuantumKey" where
  "key_of_CKey k = (case k of
     None \<Rightarrow> empty_key
   | Some ck \<Rightarrow> empty_key\<lparr>m_fValid := True, m_ecdsaKey := Some ck\<rparr>)"

definition key_Clear :: "CQuantumKey \<Rightarrow> CQuantumKey" where
  "key_Clear k = k\<lparr>m_vchPrivKey := [], m_vchPubKey := [], m_ecdsaKey := None, m_fValid := False\<rparr>"

definition alg_of :: "crypto \<Rightarrow> KeyType \<Rightarrow> OQS_SIG" where
  "alg_of c t = (if t = ML_DSA_65 then alg_ML_DSA_65 (cr_oqs c) else alg_SLH_DSA_192F (cr_oqs c))"

definition MakeNewKey :: "crypto \<Rightarrow> valtype \<Rightarrow> KeyType \<Rightarrow> CQuantumKey \<Rightarrow> CQuantumKey" where
  "MakeNewKey c rnd t k = (let k1 = (key_Clear k)\<lparr>m_type := t\<rparr> in
     case t of
       ECDSA \<Rightarrow> k1\<lparr>m_ecdsaKey := Some (CKey_MakeNewKey (cr_ecdsa c) rnd), m_fValid := True\<rparr>
     | UnknownKeyType _ \<Rightarrow> k1\<lparr>m_fValid := False\<rparr>
     | _ \<Rightarrow> (case OQS_GenerateKeypair (alg_of c t) rnd of
           None \<Rightarrow> k1
         | Some (public_key, secret_key) \<Rightarrow>
             k1\<lparr>m_vchPrivKey := secret_key, m_vchPubKey := public_key, m_fValid := True\<rparr>))"

definition key_GetPubKey :: "crypto \<Rightarrow> CQuantumKey \<Rightarrow> CQuantumPubKey" where
  "key_GetPubKey c k =
    (if \<not> m_fValid k then empty_pubkey
     else case m_type k of
       ECDSA \<Rightarrow> (case m_ecdsaKey k of
           Some ck \<Rightarrow> \<lparr>pk_type = ECDSA, pk_data = CKey_GetPubKey (cr_ecdsa c) ck\<rparr>
         | None \<Rightarrow> empty_pubkey)
     | ML_DSA_65 \<Rightarrow>
         if m_vchPubKey k \<noteq> [] then \<lparr>pk_type = ML_DSA_65, pk_data = m_vchPubKey k\<rparr> else empty_pubkey
     | SLH_DSA_192F \<Rightarrow>
         if m_vchPubKey k \<noteq> [] then \<lparr>pk_type = SLH_DSA_192F, pk_data = m_vchPubKey k\<rparr>
         else if length (m_vchPrivKey k) = SLH_DSA_192F_PRIVKEY_SIZE
         then \<lparr>pk_type = SLH_DSA_192F,
               pk_data = drop (length (m_vchPrivKey k) - SLH_DSA_192F_PUBKEY_SIZE) (m_vchPrivKey k)\<rparr>
         else empty_pubkey
     | UnknownKeyType _ \<Rightarrow> empty_pubkey)"

definition key_Sign :: "crypto \<Rightarrow> valtype \<Rightarrow> CQuantumKey \<Rightarrow> uint256 \<Rightarrow> valtype option" where
  "key_Sign c rnd k hash =
    (if \<not> m_fValid k then None
     else case m_type k of
       ECDSA \<Rightarrow> (case m_ecdsaKey k of Some ck \<Rightarrow> CKey_Sign (cr_ecdsa c) ck hash | None \<Rightarrow> None)
     | UnknownKeyType _ \<Rightarrow> None
     | t \<Rightarrow> OQS_Sign (alg_of c t) rnd hash (m_vchPrivKey k))"

definition key_Verify :: "crypto \<Rightarrow> uint256 \<Rightarrow> valtype \<Rightarrow> CQuantumPubKey \<Rightarrow> bool" where
  "key_Verify c hash vchSig pubkey =
    (if \<not> CQuantumPubKey_IsValid pubkey \<or> vchSig = [] then False
     else case pk_type pubkey of
       ECDSA \<Rightarrow> (case GetCPubKey pubkey of
           Some p \<Rightarrow> CPubKey_Verify (cr_ecdsa c) p hash vchSig | None \<Rightarrow> False)
     | UnknownKeyType _ \<Rightarrow> False
     | t \<Rightarrow> OQS_Verify (alg_of c t) hash vchSig (pk_data pubkey))"

text \<open>
  \<open>Load\<close> checks a quantum key pair by signing and verifying a fixed hash; the literal is
  written in hexadecimal with the last byte first.
\<close>

definition load_test_hash :: uint256 where
  "load_test_hash = concat (replicate 4 [0xef, 0xcd, 0xab, 0x89, 0x67, 0x45, 0x23, 0x01])"

definition key_Load :: "crypto \<Rightarrow> valtype \<Rightarrow> CQuantumKey \<Rightarrow> valtype \<Rightarrow> CQuantumPubKey \<Rightarrow> bool \<times> CQuantumKey" where
  "key_Load c rnd k privkey pubkey = (let k0 = key_Clear k in
     case pk_type pubkey of
       ECDSA \<Rightarrow> (case GetCPubKey pubkey of
           None \<Rightarrow> (False, key_Clear k0)
         | Some cpubkey \<Rightarrow> (case CKey_Load (cr_ecdsa c) privkey cpubkey of
             None \<Rightarrow> (False, key_Clear k0)
           | Some ck \<Rightarrow> (True, k0\<lparr>m_ecdsaKey := Some ck, m_type := ECDSA, m_fValid := True\<rparr>)))
     | UnknownKeyType _ \<Rightarrow> (False, k0)
     | t \<Rightarrow>
         if length privkey = (if t = ML_DSA_65 then ML_DSA_65_PRIVKEY_SIZE else SLH_DSA_192F_PRIVKEY_SIZE) then
           let k1 = k0\<lparr>m_type := t, m_vchPrivKey := privkey, m_vchPubKey := pk_data pubkey, m_fValid := True\<rparr> in
           (case key_Sign c rnd k1 load_test_hash of
              Some test_sig \<Rightarrow>
                if key_Verify c load_test_hash test_sig pubkey then (True, k1)
                else (False, k1\<lparr>m_fValid := False\<rparr>)
            | None \<Rightarrow> (False, k1\<lparr>m_fValid := False\<rparr>))
         else (False, key_Clear k0))"

definition GetPrivKeyData :: "crypto \<Rightarrow> CQuantumKey \<Rightarrow> valtype" where
  "GetPrivKeyData c k =
    (if \<not> m_fValid k then []
     else if m_type k = ECDSA then
       (case m_ecdsaKey k of Some ck \<Rightarrow> CKey_GetPrivKey (cr_ecdsa c) ck | None \<Rightarrow> m_vchPrivKey k)
     else m_vchPrivKey k)"

text \<open>
  \<open>Derive\<close> of a quantum key always fails; for an ECDSA key it is the BIP32 derivation,
  given as a parameter.
\<close>

definition key_Derive :: "(valtype \<Rightarrow> nat \<Rightarrow> valtype \<Rightarrow> (valtype \<times> valtype) option) \<Rightarrow> CQuantumKey \<Rightarrow> nat \<Rightarrow> valtype \<Rightarrow>
    (CQuantumKey \<times> valtype) option" where
  "key_Derive bip32 k nChild cc =
    (if \<not> m_fValid k then None
     else if m_type k = ECDSA then
       (case m_ecdsaKey k of
          Some ck \<Rightarrow> (case bip32 ck nChild cc of
             Some (childKey, ccChild) \<Rightarrow> Some (key_of_CKey (Some childKey), ccChild) | None \<Rightarrow> None)
        | None \<Rightarrow> None)
     else None)"


section \<open>Extended keys\<close>

record CExtQuantumKey =
  nDepth :: byte
  vchFingerprint :: valtype
  ext_nChild :: "32 word"
  ext_chaincode :: uint256
  ext_key :: CQuantumKey

definition ext_Encode :: "crypto \<Rightarrow> CExtQuantumKey \<Rightarrow> valtype" where
  "ext_Encode c x =
    (let header = [0x04, 0x88, 0xad, 0xe4, nDepth x] @ vchFingerprint x @ rev (word_bytes (ext_nChild x)) @
                  ext_chaincode x @ [KeyType_byte (m_type (ext_key x))] in
     header @ replicate (79 - length header) 0 @ GetPrivKeyData c (ext_key x))"

definition ext_Decode :: "crypto \<Rightarrow> valtype \<Rightarrow> CExtQuantumKey \<Rightarrow> valtype \<Rightarrow> CExtQuantumKey option" where
  "ext_Decode c rnd x code =
    (if length code < 78 + 1 then None
     else let keyType = byte_KeyType (code ! 45); keyData = drop 46 code in
       Some \<lparr>nDepth = code ! 4, vchFingerprint = take 4 (drop 5 code),
             ext_nChild = bytes_word (rev (take 4 (drop 9 code))),
             ext_chaincode = take 32 (drop 13 code),
             ext_key = (if keyType = ECDSA then key_of_CKey None
                        else snd (key_Load c rnd (ext_key x) keyData \<lparr>pk_type = keyType, pk_data = []\<rparr>))\<rparr>)"



section \<open>Properties\<close>

definition quantum_type :: "KeyType \<Rightarrow> bool" where
  "quantum_type t = (t = ML_DSA_65 \<or> t = SLH_DSA_192F)"

lemma alg_of_correct:
  assumes "liboqs_correct (cr_oqs c)" "quantum_type t"
  shows "oqs_correct (alg_of c t)
    (if t = ML_DSA_65 then ML_DSA_65_PUBKEY_SIZE else SLH_DSA_192F_PUBKEY_SIZE)
    (if t = ML_DSA_65 then ML_DSA_65_PRIVKEY_SIZE else SLH_DSA_192F_PRIVKEY_SIZE)
    (if t = ML_DSA_65 then ML_DSA_65_SIG_SIZE else SLH_DSA_192F_SIG_SIZE)"
  using assms by (auto simp: liboqs_correct_def alg_of_def quantum_type_def)

lemma key_Sign_quantum:
  "quantum_type (m_type k) \<Longrightarrow> m_fValid k \<Longrightarrow> key_Sign c rnd k h = OQS_Sign (alg_of c (m_type k)) rnd h (m_vchPrivKey k)"
  by (auto simp: key_Sign_def quantum_type_def)

lemma key_Verify_quantum:
  "quantum_type (pk_type pk) \<Longrightarrow>
   key_Verify c h sig pk \<longleftrightarrow> CQuantumPubKey_IsValid pk \<and> sig \<noteq> [] \<and> OQS_Verify (alg_of c (pk_type pk)) h sig (pk_data pk)"
  by (auto simp: key_Verify_def quantum_type_def)

lemma MakeNewKey_quantum:
  assumes "quantum_type t" "OQS_SIG_keypair (alg_of c t) rnd = Some (pk, sk)"
  shows "MakeNewKey c rnd t k =
    \<lparr>m_type = t, m_vchPrivKey = sk, m_vchPubKey = pk, m_fValid = True, m_ecdsaKey = None\<rparr>"
  using assms
  by (auto simp: MakeNewKey_def quantum_type_def OQS_GenerateKeypair_def key_Clear_def Let_def)

lemma new_key_signs:
  assumes lib: "liboqs_correct (cr_oqs c)" and t: "quantum_type t"
    and gen: "OQS_SIG_keypair (alg_of c t) rnd = Some (pk, sk)"
    and sign: "key_Sign c rnd' (MakeNewKey c rnd t k) hash = Some sig"
  shows "m_fValid (MakeNewKey c rnd t k) \<and>
    CQuantumPubKey_IsValid (key_GetPubKey c (MakeNewKey c rnd t k)) \<and>
    key_GetPubKey c (MakeNewKey c rnd t k) = \<lparr>pk_type = t, pk_data = pk\<rparr> \<and>
    0 < length sig \<and> length sig \<le> (if t = ML_DSA_65 then ML_DSA_65_SIG_SIZE else SLH_DSA_192F_SIG_SIZE) \<and>
    key_Verify c hash sig (key_GetPubKey c (MakeNewKey c rnd t k))"
proof -
  note ok = alg_of_correct [OF lib t] and new = MakeNewKey_quantum [OF t gen]
  have pk: "length pk = (if t = ML_DSA_65 then ML_DSA_65_PUBKEY_SIZE else SLH_DSA_192F_PUBKEY_SIZE)"
    "length sk = (if t = ML_DSA_65 then ML_DSA_65_PRIVKEY_SIZE else SLH_DSA_192F_PRIVKEY_SIZE)"
    using ok gen by (auto simp: oqs_correct_def)
  then have ne: "pk \<noteq> []"
    by (auto split: if_splits)
  have s: "OQS_SIG_sign (alg_of c t) rnd' hash sk = Some sig"
    using sign t by (auto simp: new key_Sign_quantum OQS_Sign_def split: if_splits)
  then have v: "OQS_SIG_verify (alg_of c t) hash sig pk" "0 < length sig"
    "length sig \<le> (if t = ML_DSA_65 then ML_DSA_65_SIG_SIZE else SLH_DSA_192F_SIG_SIZE)"
    using ok gen unfolding oqs_correct_def by blast+
  have g: "key_GetPubKey c (MakeNewKey c rnd t k) = \<lparr>pk_type = t, pk_data = pk\<rparr>"
    using t ne by (auto simp: new key_GetPubKey_def quantum_type_def)
  have i: "CQuantumPubKey_IsValid \<lparr>pk_type = t, pk_data = pk\<rparr>"
    using t pk(1) by (auto simp: CQuantumPubKey_IsValid_def quantum_type_def)
  have "OQS_Verify (alg_of c t) hash sig pk"
    using ok pk(1) v(1) by (auto simp: OQS_Verify_def oqs_correct_def)
  then show ?thesis
    using t g i v by (auto simp: key_Verify_quantum new)
qed


text \<open>A concrete scheme with the sizes of ML-DSA-65 and SLH-DSA-192f, for the witnesses.\<close>

definition demo_alg :: "nat \<Rightarrow> nat \<Rightarrow> nat \<Rightarrow> OQS_SIG" where
  "demo_alg pk_size sk_size sig_size =
    \<lparr>length_public_key = pk_size, length_secret_key = sk_size, length_signature = sig_size,
     OQS_SIG_keypair = (\<lambda>rnd. Some (replicate pk_size 7, replicate sk_size 9)),
     OQS_SIG_sign = (\<lambda>rnd m sk. if sk = replicate sk_size 9 then Some (replicate sig_size 5) else None),
     OQS_SIG_verify = (\<lambda>m sig pk. sig = replicate sig_size 5 \<and> pk = replicate pk_size 7)\<rparr>"

definition demo_crypto :: crypto where
  "demo_crypto =
    \<lparr>cr_oqs = \<lparr>alg_ML_DSA_65 = demo_alg ML_DSA_65_PUBKEY_SIZE ML_DSA_65_PRIVKEY_SIZE ML_DSA_65_SIG_SIZE,
               alg_SLH_DSA_192F = demo_alg SLH_DSA_192F_PUBKEY_SIZE SLH_DSA_192F_PRIVKEY_SIZE SLH_DSA_192F_SIG_SIZE\<rparr>,
     cr_ecdsa = \<lparr>CKey_MakeNewKey = (\<lambda>rnd. rnd), CKey_GetPubKey = (\<lambda>k. k), CKey_Sign = (\<lambda>k h. None),
       CKey_Load = (\<lambda>k p. None), CKey_GetPrivKey = (\<lambda>k. k), CPubKey_Verify = (\<lambda>p h s. False)\<rparr>\<rparr>"

lemma demo_alg_correct: "0 < sig_size \<Longrightarrow> oqs_correct (demo_alg pk_size sk_size sig_size) pk_size sk_size sig_size"
  by (auto simp: oqs_correct_def demo_alg_def split: if_splits)

lemma demo_crypto_correct: "liboqs_correct (cr_oqs demo_crypto)"
  by (simp add: liboqs_correct_def demo_crypto_def demo_alg_correct)


text \<open>
  \<open>Load\<close> of a quantum key pair never leaves a key usable unless the pair passed the
  self-test: it returns true exactly when the secret key has the size of the algorithm, the test
  hash could be signed and the signature verified under the given public key; the key is then
  valid and holds that pair.  Otherwise the key is invalid, so it neither signs nor gives out
  private key data, whatever was in it before.
\<close>

lemma key_Load_self_test:
  assumes "quantum_type (pk_type pubkey)" "key_Load c rnd k privkey pubkey = (ok, k')"
  shows "(ok \<longleftrightarrow> length privkey = (if pk_type pubkey = ML_DSA_65 then ML_DSA_65_PRIVKEY_SIZE else SLH_DSA_192F_PRIVKEY_SIZE) \<and>
      (\<exists>sig. OQS_Sign (alg_of c (pk_type pubkey)) rnd load_test_hash privkey = Some sig \<and>
        key_Verify c load_test_hash sig pubkey)) \<and>
    (ok \<longrightarrow> m_fValid k' \<and> key_GetPubKey c k' = pubkey \<and> GetPrivKeyData c k' = privkey) \<and>
    (\<not> ok \<longrightarrow> \<not> m_fValid k' \<and> key_Sign c rnd' k' h = None \<and> GetPrivKeyData c k' = [])"
proof -
  let ?t = "pk_type pubkey"
  let ?k1 = "(key_Clear k)\<lparr>m_type := ?t, m_vchPrivKey := privkey, m_vchPubKey := pk_data pubkey, m_fValid := True\<rparr>"
  let ?size = "length privkey = (if ?t = ML_DSA_65 then ML_DSA_65_PRIVKEY_SIZE else SLH_DSA_192F_PRIVKEY_SIZE)"
  have sg: "key_Sign c rnd ?k1 load_test_hash = OQS_Sign (alg_of c ?t) rnd load_test_hash privkey"
    using assms(1) by (simp add: key_Sign_quantum)
  have ld: "key_Load c rnd k privkey pubkey =
     (if ?size then
        (case OQS_Sign (alg_of c ?t) rnd load_test_hash privkey of
           Some test_sig \<Rightarrow> if key_Verify c load_test_hash test_sig pubkey then (True, ?k1) else (False, ?k1\<lparr>m_fValid := False\<rparr>)
         | None \<Rightarrow> (False, ?k1\<lparr>m_fValid := False\<rparr>))
      else (False, key_Clear (key_Clear k)))"
    using assms(1) sg unfolding quantum_type_def
    by (cases "pk_type pubkey") (auto simp: key_Load_def Let_def split: option.split)
  have pub: "key_GetPubKey c ?k1 = pubkey" if "CQuantumPubKey_IsValid pubkey"
    using that assms(1)
    by (cases pubkey) (auto simp: key_GetPubKey_def quantum_type_def CQuantumPubKey_IsValid_def key_Clear_def)
  have inv: "\<not> m_fValid x \<Longrightarrow> key_Sign c rnd' x h = None \<and> GetPrivKeyData c x = []" for x
    by (simp add: key_Sign_def GetPrivKeyData_def)
  have val: "key_Verify c load_test_hash s pubkey \<Longrightarrow> CQuantumPubKey_IsValid pubkey" for s
    using assms(1) by (simp add: key_Verify_quantum)
  have prv: "GetPrivKeyData c ?k1 = privkey"
    using assms(1) by (auto simp: GetPrivKeyData_def quantum_type_def)
  define k1 where "k1 = ?k1"
  have k1: "m_fValid k1" "\<not> m_fValid (k1\<lparr>m_fValid := False\<rparr>)" "\<not> m_fValid (key_Clear (key_Clear k))"
    by (simp_all add: k1_def key_Clear_def)
  note facts = ld [folded k1_def] pub [folded k1_def] prv [folded k1_def]
  consider (good) sig where ?size "OQS_Sign (alg_of c ?t) rnd load_test_hash privkey = Some sig"
      "key_Verify c load_test_hash sig pubkey"
    | (bad) "\<not> ok" "\<not> m_fValid k'"
      "\<not> (?size \<and> (\<exists>sig. OQS_Sign (alg_of c ?t) rnd load_test_hash privkey = Some sig \<and> key_Verify c load_test_hash sig pubkey))"
    using assms(2) k1 unfolding facts(1) by (auto split: if_splits option.splits)
  then show ?thesis
  proof cases
    case good
    then have "ok" "k' = k1"
      using assms(2) unfolding facts(1) by auto
    then show ?thesis
      using good facts(2,3) val k1 by auto
  next
    case bad
    then show ?thesis
      using inv by blast
  qed
qed

lemma key_Load_empty_pubkey:
  "t \<noteq> ECDSA \<Longrightarrow> \<not> m_fValid (snd (key_Load c rnd k d \<lparr>pk_type = t, pk_data = []\<rparr>))"
proof -
  have "\<not> key_Verify c h sig \<lparr>pk_type = t, pk_data = []\<rparr>" for h sig
    by (cases t) (simp_all add: key_Verify_def CQuantumPubKey_IsValid_def)
  then show "t \<noteq> ECDSA \<Longrightarrow> ?thesis"
    by (cases t) (auto simp: key_Load_def key_Clear_def Let_def split: option.split)
qed

text \<open>
  C39.  Extended keys do not survive a round trip.  \<open>Encode\<close> pads its header to 79 bytes
  and appends the private key there, while \<open>Decode\<close> takes the private key from offset
  46 and loads it with an empty public key: for every extended key, decoding what was encoded
  succeeds without an error, restores depth, fingerprint, child number and chain code, and leaves
  an invalid key.
\<close>

theorem CExtQuantumKey_roundtrip_loses_key:
  assumes "length (vchFingerprint x) = 4" "length (ext_chaincode x) = 32"
  shows "\<exists>z. ext_Decode c rnd y (ext_Encode c x) = Some z \<and>
    nDepth z = nDepth x \<and> vchFingerprint z = vchFingerprint x \<and> ext_nChild z = ext_nChild x \<and>
    ext_chaincode z = ext_chaincode x \<and> \<not> m_fValid (ext_key z)"
proof -
  define t where "t = KeyType_byte (m_type (ext_key x))"
  define d where "d = GetPrivKeyData c (ext_key x)"
  define n where "n = rev (word_bytes (ext_nChild x))"
  define e where "e = [0x04, 0x88, 0xad, 0xe4, nDepth x] @ vchFingerprint x @ n @ ext_chaincode x @ [t] @ replicate 33 0 @ d"
  have n: "length n = 4" "bytes_word (rev n) = ext_nChild x"
    by (simp_all add: n_def)
  have "ext_Encode c x = e"
    using assms n by (simp add: ext_Encode_def Let_def e_def n_def [symmetric] t_def [symmetric] d_def [symmetric])
  moreover have "e ! 4 = nDepth x" "take 4 (drop 5 e) = vchFingerprint x" "take 4 (drop 9 e) = n"
    "take 32 (drop 13 e) = ext_chaincode x" "e ! 45 = t" "drop 46 e = replicate 33 0 @ d" "\<not> length e < 79"
    using assms n(1) by (simp_all add: e_def nth_append)
  ultimately show ?thesis
    using key_Load_empty_pubkey [of "byte_KeyType t"] n(2)
    by (auto simp: ext_Decode_def Let_def key_of_CKey_def empty_key_def)
qed

theorem CExtQuantumKey_roundtrip_loses_key_witness:
  "\<exists>z. ext_Decode demo_crypto [] \<lparr>nDepth = 0, vchFingerprint = replicate 4 0, ext_nChild = 0, ext_chaincode = replicate 32 0, ext_key = empty_key\<rparr>
      (ext_Encode demo_crypto \<lparr>nDepth = 1, vchFingerprint = replicate 4 2, ext_nChild = 3, ext_chaincode = replicate 32 4,
         ext_key = MakeNewKey demo_crypto [] SLH_DSA_192F empty_key\<rparr>) = Some z \<and>
    ext_nChild z = 3 \<and> \<not> m_fValid (ext_key z)"
  using CExtQuantumKey_roundtrip_loses_key [of
      "\<lparr>nDepth = 1, vchFingerprint = replicate 4 2, ext_nChild = 3, ext_chaincode = replicate 32 4,
         ext_key = MakeNewKey demo_crypto [] SLH_DSA_192F empty_key\<rparr>" demo_crypto "[]"
      "\<lparr>nDepth = 0, vchFingerprint = replicate 4 0, ext_nChild = 0, ext_chaincode = replicate 32 0, ext_key = empty_key\<rparr>"]
  by auto

end
