(* ===== verification/Interpreter.thy ===== *)
theory Interpreter
  imports SigEncoding CondStack QuantumKey
begin

text \<open>
  \<open>EvalScript\<close> (\<open>src/script/interpreter.cpp\<close>, lines 322--1410).  The arguments that
  stay fixed during an execution are a record \<open>EvalEnv\<close>, the local variables that change
  are a record \<open>EvalState\<close>; the iterator \<open>pc\<close> is the list of the bytes still to
  be read and \<open>pbegincodehash\<close> the suffix of the script it points to.  The stacks are kept
  top first: \<open>stacktop(-i)\<close> is element \<open>i - 1\<close>.  There is one definition per
  case of the switch; each returns the error the code sets, or the state after it.  An exception
  (a script number that is too long or not minimal, \<open>popstack\<close> of an empty stack) ends in
  \<open>catch (...)\<close> with \<open>SCRIPT_ERR_UNKNOWN_ERROR\<close>; a failed
  \<open>assert\<close> is the value \<open>SCRIPT_ERR_ERROR_COUNT\<close>, which the code never
  returns.
\<close>

named_theorems op_defs "definitions of the opcodes"

abbreviation (input) ASSERT_FAIL :: ScriptError where "ASSERT_FAIL \<equiv> SCRIPT_ERR_ERROR_COUNT"

record EvalEnv =
  env_flags :: script_flags
  env_checker :: SignatureChecker
  env_sigversion :: SigVersion
  env_hashes :: Hashes
  env_CheckLowS :: "valtype \<Rightarrow> bool"

record EvalState =
  st_codehash :: CScript
  st_stack :: "valtype list"
  st_altstack :: "valtype list"
  st_vfExec :: ConditionStack
  st_nOpCount :: nat
  st_opcode_pos :: "32 word"
  st_execdata :: ScriptExecutionData

definition vchFalse :: valtype where "vchFalse = []"
definition vchTrue :: valtype where "vchTrue = [1]"

definition bool_vch :: "bool \<Rightarrow> valtype" where
  "bool_vch b = (if b then vchTrue else vchFalse)"

definition fRequireMinimal :: "EvalEnv \<Rightarrow> bool" where
  "fRequireMinimal env = has_flag (env_flags env) SCRIPT_VERIFY_MINIMALDATA"

definition read_num :: "EvalEnv \<Rightarrow> nat \<Rightarrow> valtype \<Rightarrow> ScriptError + int" where
  "read_num env nMaxNumSize vch = (case CScriptNum vch (fRequireMinimal env) nMaxNumSize of
     Inl _ \<Rightarrow> Inl SCRIPT_ERR_UNKNOWN_ERROR | Inr n \<Rightarrow> Inr n)"

definition set_stack :: "EvalState \<Rightarrow> valtype list \<Rightarrow> EvalState" where
  "set_stack st s = st\<lparr>st_stack := s\<rparr>"


section \<open>Signature checks\<close>

text \<open>
  \<open>EvalChecksigQuantum\<close> reports an error code to its caller only through
  \<open>*serror\<close>, which the caller overwrites, and returns whether the check succeeded.
\<close>

definition EvalChecksigQuantum :: "valtype \<Rightarrow> valtype \<Rightarrow> CScript \<Rightarrow> EvalEnv \<Rightarrow> ScriptError + bool" where
  "EvalChecksigQuantum vchSig vchPubKey scriptCode env =
    (case vchSig of
       [] \<Rightarrow> Inr False
     | algo_id # _ \<Rightarrow>
         (case (if algo_id = 0x01 then None
                else if algo_id = 0x02 then Some ML_DSA_65
                else if algo_id = 0x03 then Some SLH_DSA_192F
                else None) of
            None \<Rightarrow> Inr False
          | Some expectedKeyType \<Rightarrow>
              if \<not> CQuantumPubKey_IsValid \<lparr>pk_type = expectedKeyType, pk_data = vchPubKey\<rparr> then Inr False
              else CheckQuantumSignature (env_checker env) vchSig vchPubKey scriptCode (env_sigversion env) algo_id))"

definition EvalChecksigPreTapscript :: "valtype \<Rightarrow> valtype \<Rightarrow> CScript \<Rightarrow> EvalEnv \<Rightarrow> ScriptError + bool" where
  "EvalChecksigPreTapscript vchSig vchPubKey codehash env =
    (let flags = env_flags env; sigversion = env_sigversion env in
     if \<not> (sigversion = BASE \<or> sigversion = WITNESS_V0) then Inl ASSERT_FAIL
     else
       let (found, scriptCode) = (if sigversion = BASE then FindAndDelete codehash (push_data vchSig) else (0, codehash)) in
       if found > 0 \<and> has_flag flags SCRIPT_VERIFY_CONST_SCRIPTCODE then Inl SCRIPT_ERR_SIG_FINDANDDELETE
       else bindE (CheckSignatureEncoding (env_CheckLowS env) vchSig flags) (\<lambda>_.
         bindE (CheckPubKeyEncoding vchPubKey flags sigversion) (\<lambda>_.
           bindE (CheckECDSASignature (env_checker env) vchSig vchPubKey scriptCode sigversion) (\<lambda>fSuccess.
             if \<not> fSuccess \<and> has_flag flags SCRIPT_VERIFY_NULLFAIL \<and> length vchSig > 0
             then Inl SCRIPT_ERR_SIG_NULLFAIL
             else Inr fSuccess))))"

definition EvalChecksigTapscript ::
  "valtype \<Rightarrow> valtype \<Rightarrow> ScriptExecutionData \<Rightarrow> EvalEnv \<Rightarrow> ScriptError + (bool \<times> ScriptExecutionData)" where
  "EvalChecksigTapscript sig pubkey execdata env =
    (if env_sigversion env \<noteq> TAPSCRIPT then Inl ASSERT_FAIL
     else let success = (sig \<noteq> []) in
       bindE (if success then
                (case m_validation_weight_left execdata of
                   None \<Rightarrow> Inl ASSERT_FAIL
                 | Some w \<Rightarrow>
                     let w' = w - VALIDATION_WEIGHT_PER_SIGOP_PASSED in
                     if w' < 0 then Inl SCRIPT_ERR_TAPSCRIPT_VALIDATION_WEIGHT
                     else Inr (execdata\<lparr>m_validation_weight_left := Some w'\<rparr>))
              else Inr execdata)
         (\<lambda>execdata.
            if length pubkey = 0 then Inl SCRIPT_ERR_PUBKEYTYPE
            else if length pubkey = 32 then
              (if success then
                 bindE (CheckSchnorrSignature (env_checker env) sig pubkey (env_sigversion env) execdata)
                   (\<lambda>execdata. Inr (success, execdata))
               else Inr (success, execdata))
            else if has_flag (env_flags env) SCRIPT_VERIFY_DISCOURAGE_UPGRADABLE_PUBKEYTYPE
            then Inl SCRIPT_ERR_DISCOURAGE_UPGRADABLE_PUBKEYTYPE
            else Inr (success, execdata)))"

definition EvalChecksig :: "valtype \<Rightarrow> valtype \<Rightarrow> EvalEnv \<Rightarrow> EvalState \<Rightarrow> ScriptError + (bool \<times> EvalState)" where
  "EvalChecksig sig pubkey env st = (case env_sigversion env of
     TAPROOT \<Rightarrow> Inl ASSERT_FAIL
   | TAPSCRIPT \<Rightarrow>
       bindE (EvalChecksigTapscript sig pubkey (st_execdata st) env)
         (\<lambda>(success, execdata). Inr (success, st\<lparr>st_execdata := execdata\<rparr>))
   | _ \<Rightarrow>
       bindE (EvalChecksigPreTapscript sig pubkey (st_codehash st) env)
         (\<lambda>success. Inr (success, st)))"


section \<open>Push and control opcodes\<close>

definition quantum_push_allowed :: "nat \<Rightarrow> bool" where
  "quantum_push_allowed n =
    (if n \<ge> 3310 \<and> n \<le> 3320 then True
     else if n \<ge> 35665 \<and> n \<le> 35680 then True
     else if n = 1952 then True
     else if n = 48 then True
     else if n = 50 \<or> n = 1956 then True
     else False)"

definition push_size_ok :: "EvalEnv \<Rightarrow> valtype \<Rightarrow> bool" where
  "push_size_ok env vchPushValue =
    (if length vchPushValue > MAX_SCRIPT_ELEMENT_SIZE
     then has_flag (env_flags env) SCRIPT_VERIFY_QUANTUM_SIGS \<and> quantum_push_allowed (length vchPushValue)
     else True)"

definition disabled_opcode :: "opcodetype \<Rightarrow> bool" where
  "disabled_opcode opcode =
    (opcode = OP_CAT \<or> opcode = OP_SUBSTR \<or> opcode = OP_LEFT \<or> opcode = OP_RIGHT \<or>
     opcode = OP_INVERT \<or> opcode = OP_AND \<or> opcode = OP_OR \<or> opcode = OP_XOR \<or>
     opcode = OP_2MUL \<or> opcode = OP_2DIV \<or> opcode = OP_MUL \<or> opcode = OP_DIV \<or>
     opcode = OP_MOD \<or> opcode = OP_LSHIFT \<or> opcode = OP_RSHIFT)"

definition op_push_number :: "opcodetype \<Rightarrow> EvalState \<Rightarrow> ScriptError + EvalState" where
  "op_push_number opcode st = Inr (set_stack st (serialize (int opcode - (int OP_1 - 1)) # st_stack st))"

definition op_checklocktimeverify :: "EvalEnv \<Rightarrow> EvalState \<Rightarrow> ScriptError + EvalState" where
  "op_checklocktimeverify env st =
    (if \<not> has_flag (env_flags env) SCRIPT_VERIFY_CHECKLOCKTIMEVERIFY then Inr st
     else case st_stack st of
       [] \<Rightarrow> Inl SCRIPT_ERR_INVALID_STACK_OPERATION
     | vch # _ \<Rightarrow>
         bindE (read_num env 5 vch) (\<lambda>nLockTime.
           if nLockTime < 0 then Inl SCRIPT_ERR_NEGATIVE_LOCKTIME
           else if \<not> CheckLockTime (env_checker env) nLockTime then Inl SCRIPT_ERR_UNSATISFIED_LOCKTIME
           else Inr st))"

definition op_checksequenceverify :: "EvalEnv \<Rightarrow> EvalState \<Rightarrow> ScriptError + EvalState" where
  "op_checksequenceverify env st =
    (if \<not> has_flag (env_flags env) SCRIPT_VERIFY_CHECKSEQUENCEVERIFY then Inr st
     else case st_stack st of
       [] \<Rightarrow> Inl SCRIPT_ERR_INVALID_STACK_OPERATION
     | vch # _ \<Rightarrow>
         bindE (read_num env 5 vch) (\<lambda>nSequence.
           if nSequence < 0 then Inl SCRIPT_ERR_NEGATIVE_LOCKTIME
           else if nSequence AND uint SEQUENCE_LOCKTIME_DISABLE_FLAG \<noteq> 0 then Inr st
           else if \<not> CheckSequence (env_checker env) nSequence then Inl SCRIPT_ERR_UNSATISFIED_LOCKTIME
           else Inr st))"

definition op_nop :: "EvalEnv \<Rightarrow> EvalState \<Rightarrow> ScriptError + EvalState" where
  "op_nop env st =
    (if has_flag (env_flags env) SCRIPT_VERIFY_DISCOURAGE_UPGRADABLE_NOPS
     then Inl SCRIPT_ERR_DISCOURAGE_UPGRADABLE_NOPS else Inr st)"

definition op_checksig_ex :: "EvalEnv \<Rightarrow> opcodetype \<Rightarrow> EvalState \<Rightarrow> ScriptError + EvalState" where
  "op_checksig_ex env opcode st =
    (if \<not> has_flag (env_flags env) SCRIPT_VERIFY_QUANTUM_SIGS then
       (if has_flag (env_flags env) SCRIPT_VERIFY_DISCOURAGE_UPGRADABLE_NOPS
        then Inl SCRIPT_ERR_DISCOURAGE_UPGRADABLE_NOPS else Inr st)
     else case st_stack st of
       vchPubKey # vchSig # s \<Rightarrow>
         bindE (EvalChecksigQuantum vchSig vchPubKey (st_codehash st) env) (\<lambda>fSuccess.
           if \<not> fSuccess \<and> has_flag (env_flags env) SCRIPT_VERIFY_NULLFAIL \<and> length vchSig > 0
           then Inl SCRIPT_ERR_SIG_NULLFAIL
           else if opcode = OP_CHECKSIGVERIFY_EX then
             (if fSuccess then Inr (set_stack st s) else Inl SCRIPT_ERR_CHECKSIGVERIFY)
           else Inr (set_stack st (bool_vch fSuccess # s)))
     | _ \<Rightarrow> Inl SCRIPT_ERR_INVALID_STACK_OPERATION)"

definition op_if :: "EvalEnv \<Rightarrow> opcodetype \<Rightarrow> bool \<Rightarrow> EvalState \<Rightarrow> ScriptError + EvalState" where
  "op_if env opcode fExec st =
    (if fExec then
       (case st_stack st of
          [] \<Rightarrow> Inl SCRIPT_ERR_UNBALANCED_CONDITIONAL
        | vch # s \<Rightarrow>
            if env_sigversion env = TAPSCRIPT \<and> (length vch > 1 \<or> length vch = 1 \<and> vch ! 0 \<noteq> 1)
            then Inl SCRIPT_ERR_TAPSCRIPT_MINIMALIF
            else if env_sigversion env = WITNESS_V0 \<and> has_flag (env_flags env) SCRIPT_VERIFY_MINIMALIF \<and>
                    (length vch > 1 \<or> length vch = 1 \<and> vch ! 0 \<noteq> 1)
            then Inl SCRIPT_ERR_MINIMALIF
            else let fValue = (if opcode = OP_NOTIF then \<not> CastToBool vch else CastToBool vch) in
              Inr (st\<lparr>st_stack := s, st_vfExec := push_back fValue (st_vfExec st)\<rparr>))
     else Inr (st\<lparr>st_vfExec := push_back False (st_vfExec st)\<rparr>))"

definition op_else :: "EvalState \<Rightarrow> ScriptError + EvalState" where
  "op_else st =
    (if cs_empty (st_vfExec st) then Inl SCRIPT_ERR_UNBALANCED_CONDITIONAL
     else case toggle_top (st_vfExec st) of
       None \<Rightarrow> Inl ASSERT_FAIL | Some v \<Rightarrow> Inr (st\<lparr>st_vfExec := v\<rparr>))"

definition op_endif :: "EvalState \<Rightarrow> ScriptError + EvalState" where
  "op_endif st =
    (if cs_empty (st_vfExec st) then Inl SCRIPT_ERR_UNBALANCED_CONDITIONAL
     else case pop_back (st_vfExec st) of
       None \<Rightarrow> Inl ASSERT_FAIL | Some v \<Rightarrow> Inr (st\<lparr>st_vfExec := v\<rparr>))"

definition op_verify :: "EvalState \<Rightarrow> ScriptError + EvalState" where
  "op_verify st = (case st_stack st of
     [] \<Rightarrow> Inl SCRIPT_ERR_INVALID_STACK_OPERATION
   | vch # s \<Rightarrow> if CastToBool vch then Inr (set_stack st s) else Inl SCRIPT_ERR_VERIFY)"


section \<open>Stack opcodes\<close>

definition op_toaltstack :: "EvalState \<Rightarrow> ScriptError + EvalState" where
  "op_toaltstack st = (case st_stack st of
     [] \<Rightarrow> Inl SCRIPT_ERR_INVALID_STACK_OPERATION
   | x # s \<Rightarrow> Inr (st\<lparr>st_stack := s, st_altstack := x # st_altstack st\<rparr>))"

definition op_fromaltstack :: "EvalState \<Rightarrow> ScriptError + EvalState" where
  "op_fromaltstack st = (case st_altstack st of
     [] \<Rightarrow> Inl SCRIPT_ERR_INVALID_ALTSTACK_OPERATION
   | x # s \<Rightarrow> Inr (st\<lparr>st_stack := x # st_stack st, st_altstack := s\<rparr>))"

text \<open>
  The opcodes that only rearrange the stack, from the stack before to the stack after;
  \<^term>\<open>None\<close> when it is too small.
\<close>

definition stack_op_pairs :: "opcodetype \<Rightarrow> valtype list \<Rightarrow> valtype list option" where
  "stack_op_pairs opcode stack =
    (if opcode = OP_2DROP then (case stack of x2 # x1 # s \<Rightarrow> Some s | _ \<Rightarrow> None)
     else if opcode = OP_2DUP then (case stack of x2 # x1 # s \<Rightarrow> Some (x2 # x1 # x2 # x1 # s) | _ \<Rightarrow> None)
     else if opcode = OP_3DUP then
       (case stack of x3 # x2 # x1 # s \<Rightarrow> Some (x3 # x2 # x1 # x3 # x2 # x1 # s) | _ \<Rightarrow> None)
     else if opcode = OP_2OVER then
       (case stack of x4 # x3 # x2 # x1 # s \<Rightarrow> Some (x2 # x1 # x4 # x3 # x2 # x1 # s) | _ \<Rightarrow> None)
     else if opcode = OP_2ROT then
       (case stack of x6 # x5 # x4 # x3 # x2 # x1 # s \<Rightarrow> Some (x2 # x1 # x6 # x5 # x4 # x3 # s) | _ \<Rightarrow> None)
     else if opcode = OP_2SWAP then
       (case stack of x4 # x3 # x2 # x1 # s \<Rightarrow> Some (x2 # x1 # x4 # x3 # s) | _ \<Rightarrow> None)
     else None)"

definition stack_op_single :: "opcodetype \<Rightarrow> valtype list \<Rightarrow> valtype list option" where
  "stack_op_single opcode stack =
    (if opcode = OP_IFDUP then
       (case stack of x # s \<Rightarrow> if CastToBool x then Some (x # x # s) else Some (x # s) | _ \<Rightarrow> None)
     else if opcode = OP_DEPTH then Some (serialize (int (length stack)) # stack)
     else if opcode = OP_DROP then (case stack of x # s \<Rightarrow> Some s | _ \<Rightarrow> None)
     else if opcode = OP_DUP then (case stack of x # s \<Rightarrow> Some (x # x # s) | _ \<Rightarrow> None)
     else if opcode = OP_NIP then (case stack of x2 # x1 # s \<Rightarrow> Some (x2 # s) | _ \<Rightarrow> None)
     else if opcode = OP_OVER then (case stack of x2 # x1 # s \<Rightarrow> Some (x1 # x2 # x1 # s) | _ \<Rightarrow> None)
     else if opcode = OP_ROT then (case stack of x3 # x2 # x1 # s \<Rightarrow> Some (x1 # x3 # x2 # s) | _ \<Rightarrow> None)
     else if opcode = OP_SWAP then (case stack of x2 # x1 # s \<Rightarrow> Some (x1 # x2 # s) | _ \<Rightarrow> None)
     else if opcode = OP_TUCK then (case stack of x2 # x1 # s \<Rightarrow> Some (x2 # x1 # x2 # s) | _ \<Rightarrow> None)
     else if opcode = OP_SIZE then (case stack of x # s \<Rightarrow> Some (serialize (int (length x)) # x # s) | _ \<Rightarrow> None)
     else None)"

definition op_stack :: "(valtype list \<Rightarrow> valtype list option) \<Rightarrow> EvalState \<Rightarrow> ScriptError + EvalState" where
  "op_stack f st = (case f (st_stack st) of
     None \<Rightarrow> Inl SCRIPT_ERR_INVALID_STACK_OPERATION | Some s \<Rightarrow> Inr (set_stack st s))"

definition op_pick_roll :: "EvalEnv \<Rightarrow> opcodetype \<Rightarrow> EvalState \<Rightarrow> ScriptError + EvalState" where
  "op_pick_roll env opcode st =
    (if length (st_stack st) < 2 then Inl SCRIPT_ERR_INVALID_STACK_OPERATION
     else case st_stack st of
       [] \<Rightarrow> Inl SCRIPT_ERR_INVALID_STACK_OPERATION
     | x # s \<Rightarrow>
         bindE (read_num env nDefaultMaxNumSize x) (\<lambda>bn.
           let n = getint bn in
           if n < 0 \<or> n \<ge> int (length s) then Inl SCRIPT_ERR_INVALID_STACK_OPERATION
           else let vch = s ! nat n in
             Inr (set_stack st (vch # (if opcode = OP_ROLL then take (nat n) s @ drop (nat n + 1) s else s)))))"


section \<open>Comparison and arithmetic\<close>

definition op_equal :: "opcodetype \<Rightarrow> EvalState \<Rightarrow> ScriptError + EvalState" where
  "op_equal opcode st = (case st_stack st of
     vch2 # vch1 # s \<Rightarrow>
       let fEqual = (vch1 = vch2) in
       if opcode = OP_EQUALVERIFY then
         (if fEqual then Inr (set_stack st s) else Inl SCRIPT_ERR_EQUALVERIFY)
       else Inr (set_stack st (bool_vch fEqual # s))
   | _ \<Rightarrow> Inl SCRIPT_ERR_INVALID_STACK_OPERATION)"

definition int_of_bool :: "bool \<Rightarrow> int" where
  "int_of_bool b = (if b then 1 else 0)"

definition unary_num :: "opcodetype \<Rightarrow> int \<Rightarrow> int option" where
  "unary_num opcode bn =
    (if opcode = OP_1ADD then scriptnum_add bn 1
     else if opcode = OP_1SUB then scriptnum_sub bn 1
     else if opcode = OP_NEGATE then scriptnum_neg bn
     else if opcode = OP_ABS then (if bn < 0 then scriptnum_neg bn else Some bn)
     else if opcode = OP_NOT then Some (int_of_bool (bn = 0))
     else if opcode = OP_0NOTEQUAL then Some (int_of_bool (bn \<noteq> 0))
     else None)"

definition op_unary :: "EvalEnv \<Rightarrow> opcodetype \<Rightarrow> EvalState \<Rightarrow> ScriptError + EvalState" where
  "op_unary env opcode st = (case st_stack st of
     [] \<Rightarrow> Inl SCRIPT_ERR_INVALID_STACK_OPERATION
   | x # s \<Rightarrow>
       bindE (read_num env nDefaultMaxNumSize x) (\<lambda>bn.
         case unary_num opcode bn of
           None \<Rightarrow> Inl ASSERT_FAIL
         | Some r \<Rightarrow> Inr (set_stack st (serialize r # s))))"

definition binary_num :: "opcodetype \<Rightarrow> int \<Rightarrow> int \<Rightarrow> int option" where
  "binary_num opcode bn1 bn2 =
    (if opcode = OP_ADD then Some (bn1 + bn2)
     else if opcode = OP_SUB then Some (bn1 - bn2)
     else if opcode = OP_BOOLAND then Some (int_of_bool (bn1 \<noteq> 0 \<and> bn2 \<noteq> 0))
     else if opcode = OP_BOOLOR then Some (int_of_bool (bn1 \<noteq> 0 \<or> bn2 \<noteq> 0))
     else if opcode = OP_NUMEQUAL then Some (int_of_bool (bn1 = bn2))
     else if opcode = OP_NUMEQUALVERIFY then Some (int_of_bool (bn1 = bn2))
     else if opcode = OP_NUMNOTEQUAL then Some (int_of_bool (bn1 \<noteq> bn2))
     else if opcode = OP_LESSTHAN then Some (int_of_bool (bn1 < bn2))
     else if opcode = OP_GREATERTHAN then Some (int_of_bool (bn1 > bn2))
     else if opcode = OP_LESSTHANOREQUAL then Some (int_of_bool (bn1 \<le> bn2))
     else if opcode = OP_GREATERTHANOREQUAL then Some (int_of_bool (bn1 \<ge> bn2))
     else if opcode = OP_MIN then Some (if bn1 < bn2 then bn1 else bn2)
     else if opcode = OP_MAX then Some (if bn1 > bn2 then bn1 else bn2)
     else None)"

definition op_binary :: "EvalEnv \<Rightarrow> opcodetype \<Rightarrow> EvalState \<Rightarrow> ScriptError + EvalState" where
  "op_binary env opcode st = (case st_stack st of
     x2 # x1 # s \<Rightarrow>
       bindE (read_num env nDefaultMaxNumSize x1) (\<lambda>bn1.
         bindE (read_num env nDefaultMaxNumSize x2) (\<lambda>bn2.
           case binary_num opcode bn1 bn2 of
             None \<Rightarrow> Inl ASSERT_FAIL
           | Some bn \<Rightarrow>
               if opcode = OP_NUMEQUALVERIFY then
                 (if CastToBool (serialize bn) then Inr (set_stack st s) else Inl SCRIPT_ERR_NUMEQUALVERIFY)
               else Inr (set_stack st (serialize bn # s))))
   | _ \<Rightarrow> Inl SCRIPT_ERR_INVALID_STACK_OPERATION)"

definition op_within :: "EvalEnv \<Rightarrow> EvalState \<Rightarrow> ScriptError + EvalState" where
  "op_within env st = (case st_stack st of
     x3 # x2 # x1 # s \<Rightarrow>
       bindE (read_num env nDefaultMaxNumSize x1) (\<lambda>bn1.
         bindE (read_num env nDefaultMaxNumSize x2) (\<lambda>bn2.
           bindE (read_num env nDefaultMaxNumSize x3) (\<lambda>bn3.
             Inr (set_stack st (bool_vch (bn2 \<le> bn1 \<and> bn1 < bn3) # s)))))
   | _ \<Rightarrow> Inl SCRIPT_ERR_INVALID_STACK_OPERATION)"


section \<open>Hashes and signatures\<close>

definition op_hash :: "EvalEnv \<Rightarrow> opcodetype \<Rightarrow> EvalState \<Rightarrow> ScriptError + EvalState" where
  "op_hash env opcode st = (case st_stack st of
     [] \<Rightarrow> Inl SCRIPT_ERR_INVALID_STACK_OPERATION
   | vch # s \<Rightarrow>
       let vchHash = (if opcode = OP_RIPEMD160 then RIPEMD160 (env_hashes env) vch
                      else if opcode = OP_SHA1 then SHA1 (env_hashes env) vch
                      else if opcode = OP_SHA256 then SHA256 (env_hashes env) vch
                      else if opcode = OP_HASH160 then Hash160 (env_hashes env) vch
                      else Hash256 (env_hashes env) vch) in
       Inr (set_stack st (vchHash # s)))"

definition op_codeseparator :: "valtype \<Rightarrow> EvalState \<Rightarrow> ScriptError + EvalState" where
  "op_codeseparator pc st =
    Inr (st\<lparr>st_codehash := pc,
           st_execdata := (st_execdata st)\<lparr>m_codeseparator_pos := Some (st_opcode_pos st)\<rparr>\<rparr>)"

definition op_checksig :: "EvalEnv \<Rightarrow> opcodetype \<Rightarrow> EvalState \<Rightarrow> ScriptError + EvalState" where
  "op_checksig env opcode st = (case st_stack st of
     vchPubKey # vchSig # s \<Rightarrow>
       bindE (EvalChecksig vchSig vchPubKey env st) (\<lambda>(fSuccess, st1).
         if opcode = OP_CHECKSIGVERIFY then
           (if fSuccess then Inr (set_stack st1 s) else Inl SCRIPT_ERR_CHECKSIGVERIFY)
         else Inr (set_stack st1 (bool_vch fSuccess # s)))
   | _ \<Rightarrow> Inl SCRIPT_ERR_INVALID_STACK_OPERATION)"

definition op_checksigadd :: "EvalEnv \<Rightarrow> EvalState \<Rightarrow> ScriptError + EvalState" where
  "op_checksigadd env st =
    (if env_sigversion env = BASE \<or> env_sigversion env = WITNESS_V0 then Inl SCRIPT_ERR_BAD_OPCODE
     else case st_stack st of
       pubkey # num # sig # s \<Rightarrow>
         bindE (read_num env nDefaultMaxNumSize num) (\<lambda>n.
           bindE (EvalChecksig sig pubkey env st) (\<lambda>(success, st1).
             Inr (set_stack st1 (serialize (n + (if success then 1 else 0)) # s))))
     | _ \<Rightarrow> Inl SCRIPT_ERR_INVALID_STACK_OPERATION)"

text \<open>
  \<open>OP_CHECKMULTISIG\<close>: the deletion of the signatures from the script code, the matching
  loop over the remaining signatures and keys, and the clean-up of the arguments.  The code never
  runs out of keys while signatures are left, because it stops when there are more signatures than
  keys.
\<close>

primrec multisig_delete :: "EvalEnv \<Rightarrow> valtype list \<Rightarrow> CScript \<Rightarrow> ScriptError + CScript" where
  "multisig_delete env [] scriptCode = Inr scriptCode"
| "multisig_delete env (vchSig # sigs) scriptCode =
    (if env_sigversion env = BASE then
       (case FindAndDelete scriptCode (push_data vchSig) of
          (found, scriptCode') \<Rightarrow>
            if found > 0 \<and> has_flag (env_flags env) SCRIPT_VERIFY_CONST_SCRIPTCODE
            then Inl SCRIPT_ERR_SIG_FINDANDDELETE
            else multisig_delete env sigs scriptCode')
     else multisig_delete env sigs scriptCode)"

fun multisig_match :: "EvalEnv \<Rightarrow> CScript \<Rightarrow> valtype list \<Rightarrow> valtype list \<Rightarrow> ScriptError + bool" where
  "multisig_match env scriptCode [] keys = Inr True"
| "multisig_match env scriptCode (sig # sigs) [] = Inl ASSERT_FAIL"
| "multisig_match env scriptCode (sig # sigs) (key # keys) =
    bindE (CheckSignatureEncoding (env_CheckLowS env) sig (env_flags env)) (\<lambda>_.
      bindE (CheckPubKeyEncoding key (env_flags env) (env_sigversion env)) (\<lambda>_.
        bindE (CheckECDSASignature (env_checker env) sig key scriptCode (env_sigversion env)) (\<lambda>fOk.
          let sigs' = (if fOk then sigs else sig # sigs) in
          if length sigs' > length keys then Inr False
          else multisig_match env scriptCode sigs' keys)))"

primrec multisig_cleanup :: "EvalEnv \<Rightarrow> bool \<Rightarrow> nat \<Rightarrow> nat \<Rightarrow> valtype list \<Rightarrow> ScriptError + valtype list" where
  "multisig_cleanup env fSuccess 0 ikey2 stack = Inr stack"
| "multisig_cleanup env fSuccess (Suc i) ikey2 stack = (case stack of
     [] \<Rightarrow> Inl SCRIPT_ERR_UNKNOWN_ERROR
   | x # s \<Rightarrow>
       if \<not> fSuccess \<and> has_flag (env_flags env) SCRIPT_VERIFY_NULLFAIL \<and> ikey2 = 0 \<and> length x > 0
       then Inl SCRIPT_ERR_SIG_NULLFAIL
       else multisig_cleanup env fSuccess i (ikey2 - 1) s)"

definition op_checkmultisig :: "EvalEnv \<Rightarrow> opcodetype \<Rightarrow> EvalState \<Rightarrow> ScriptError + EvalState" where
  "op_checkmultisig env opcode st =
    (let stack = st_stack st in
     if env_sigversion env = TAPSCRIPT then Inl SCRIPT_ERR_TAPSCRIPT_CHECKMULTISIG
     else if length stack < 1 then Inl SCRIPT_ERR_INVALID_STACK_OPERATION
     else bindE (read_num env nDefaultMaxNumSize (stack ! 0)) (\<lambda>bnKeys.
       let keysCount = getint bnKeys in
       if keysCount < 0 \<or> keysCount > int MAX_PUBKEYS_PER_MULTISIG then Inl SCRIPT_ERR_PUBKEY_COUNT
       else let nKeysCount = nat keysCount; nOpCount = st_nOpCount st + nKeysCount in
         if nOpCount > MAX_OPS_PER_SCRIPT then Inl SCRIPT_ERR_OP_COUNT
         else if length stack < 2 + nKeysCount then Inl SCRIPT_ERR_INVALID_STACK_OPERATION
         else bindE (read_num env nDefaultMaxNumSize (stack ! (1 + nKeysCount))) (\<lambda>bnSigs.
           let sigsCount = getint bnSigs in
           if sigsCount < 0 \<or> sigsCount > int nKeysCount then Inl SCRIPT_ERR_SIG_COUNT
           else let nSigsCount = nat sigsCount; i = 3 + nKeysCount + nSigsCount in
             if length stack < i then Inl SCRIPT_ERR_INVALID_STACK_OPERATION
             else
               let sigs = take nSigsCount (drop (2 + nKeysCount) stack);
                   keys = take nKeysCount (drop 1 stack) in
               bindE (multisig_delete env sigs (st_codehash st)) (\<lambda>scriptCode.
                 bindE (multisig_match env scriptCode sigs keys) (\<lambda>fSuccess.
                   bindE (multisig_cleanup env fSuccess (i - 1) (nKeysCount + 2) stack) (\<lambda>stack'.
                     case stack' of
                       [] \<Rightarrow> Inl SCRIPT_ERR_INVALID_STACK_OPERATION
                     | dummy # s \<Rightarrow>
                         if has_flag (env_flags env) SCRIPT_VERIFY_NULLDUMMY \<and> length dummy > 0
                         then Inl SCRIPT_ERR_SIG_NULLDUMMY
                         else if opcode = OP_CHECKMULTISIGVERIFY then
                           (if fSuccess then Inr (st\<lparr>st_stack := s, st_nOpCount := nOpCount\<rparr>)
                            else Inl SCRIPT_ERR_CHECKMULTISIGVERIFY)
                         else Inr (st\<lparr>st_stack := bool_vch fSuccess # s, st_nOpCount := nOpCount\<rparr>)))))))"


lemmas [op_defs] =
  op_push_number_def op_checklocktimeverify_def op_checksequenceverify_def op_nop_def op_checksig_ex_def
  op_if_def op_else_def op_endif_def op_verify_def op_toaltstack_def op_fromaltstack_def op_stack_def
  stack_op_pairs_def stack_op_single_def op_pick_roll_def op_equal_def op_unary_def op_binary_def
  op_within_def op_hash_def op_codeseparator_def op_checksig_def op_checksigadd_def


section \<open>The switch and the loop\<close>

definition exec_opcode :: "EvalEnv \<Rightarrow> opcodetype \<Rightarrow> valtype \<Rightarrow> bool \<Rightarrow> EvalState \<Rightarrow> ScriptError + EvalState" where
  "exec_opcode env opcode pc fExec st =
    (if opcode = OP_1NEGATE \<or> OP_1 \<le> opcode \<and> opcode \<le> OP_16 then op_push_number opcode st
     else if opcode = OP_NOP then Inr st
     else if opcode = OP_CHECKLOCKTIMEVERIFY then op_checklocktimeverify env st
     else if opcode = OP_CHECKSEQUENCEVERIFY then op_checksequenceverify env st
     else if opcode = OP_NOP1 \<or> OP_NOP6 \<le> opcode \<and> opcode \<le> OP_NOP10 then op_nop env st
     else if opcode = OP_CHECKSIG_EX \<or> opcode = OP_CHECKSIGVERIFY_EX then op_checksig_ex env opcode st
     else if opcode = OP_IF \<or> opcode = OP_NOTIF then op_if env opcode fExec st
     else if opcode = OP_ELSE then op_else st
     else if opcode = OP_ENDIF then op_endif st
     else if opcode = OP_VERIFY then op_verify st
     else if opcode = OP_RETURN then Inl SCRIPT_ERR_OP_RETURN
     else if opcode = OP_TOALTSTACK then op_toaltstack st
     else if opcode = OP_FROMALTSTACK then op_fromaltstack st
     else if OP_2DROP \<le> opcode \<and> opcode \<le> OP_2SWAP then op_stack (stack_op_pairs opcode) st
     else if opcode = OP_PICK \<or> opcode = OP_ROLL then op_pick_roll env opcode st
     else if OP_IFDUP \<le> opcode \<and> opcode \<le> OP_TUCK \<or> opcode = OP_SIZE then op_stack (stack_op_single opcode) st
     else if opcode = OP_EQUAL \<or> opcode = OP_EQUALVERIFY then op_equal opcode st
     else if opcode = OP_1ADD \<or> opcode = OP_1SUB \<or> OP_NEGATE \<le> opcode \<and> opcode \<le> OP_0NOTEQUAL
       then op_unary env opcode st
     else if opcode = OP_ADD \<or> opcode = OP_SUB \<or> OP_BOOLAND \<le> opcode \<and> opcode \<le> OP_MAX
       then op_binary env opcode st
     else if opcode = OP_WITHIN then op_within env st
     else if OP_RIPEMD160 \<le> opcode \<and> opcode \<le> OP_HASH256 then op_hash env opcode st
     else if opcode = OP_CODESEPARATOR then op_codeseparator pc st
     else if opcode = OP_CHECKSIG \<or> opcode = OP_CHECKSIGVERIFY then op_checksig env opcode st
     else if opcode = OP_CHECKSIGADD then op_checksigadd env st
     else if opcode = OP_CHECKMULTISIG \<or> opcode = OP_CHECKMULTISIGVERIFY then op_checkmultisig env opcode st
     else Inl SCRIPT_ERR_BAD_OPCODE)"

definition exec_instruction :: "EvalEnv \<Rightarrow> opcodetype \<Rightarrow> valtype \<Rightarrow> valtype \<Rightarrow> EvalState \<Rightarrow> ScriptError + EvalState" where
  "exec_instruction env opcode vchPushValue pc st =
    (let fExec = all_true (st_vfExec st) in
     if fExec \<and> opcode \<le> OP_PUSHDATA4 then
       (if fRequireMinimal env \<and> \<not> CheckMinimalPush vchPushValue opcode then Inl SCRIPT_ERR_MINIMALDATA
        else Inr (set_stack st (vchPushValue # st_stack st)))
     else if fExec \<or> (OP_IF \<le> opcode \<and> opcode \<le> OP_ENDIF) then exec_opcode env opcode pc fExec st
     else Inr st)"

text \<open>One round of the loop, after the instruction has been read; \<open>pc\<close> stands after it.\<close>

definition EvalScript_step :: "EvalEnv \<Rightarrow> opcodetype \<Rightarrow> valtype \<Rightarrow> valtype \<Rightarrow> EvalState \<Rightarrow> ScriptError + EvalState" where
  "EvalScript_step env opcode vchPushValue pc st =
    (let counted = ((env_sigversion env = BASE \<or> env_sigversion env = WITNESS_V0) \<and> opcode > OP_16);
         nOpCount = (if counted then st_nOpCount st + 1 else st_nOpCount st) in
     if \<not> push_size_ok env vchPushValue then Inl SCRIPT_ERR_PUSH_SIZE
     else if counted \<and> nOpCount > MAX_OPS_PER_SCRIPT then Inl SCRIPT_ERR_OP_COUNT
     else if disabled_opcode opcode then Inl SCRIPT_ERR_DISABLED_OPCODE
     else if opcode = OP_CODESEPARATOR \<and> env_sigversion env = BASE \<and>
             has_flag (env_flags env) SCRIPT_VERIFY_CONST_SCRIPTCODE then Inl SCRIPT_ERR_OP_CODESEPARATOR
     else bindE (exec_instruction env opcode vchPushValue pc (st\<lparr>st_nOpCount := nOpCount\<rparr>))
       (\<lambda>st. if length (st_stack st) + length (st_altstack st) > MAX_STACK_SIZE
             then Inl SCRIPT_ERR_STACK_SIZE else Inr st))"

function EvalScript_loop :: "EvalEnv \<Rightarrow> valtype \<Rightarrow> EvalState \<Rightarrow> ScriptError + EvalState" where
  "EvalScript_loop env pc st =
    (if pc = [] then Inr st
     else case GetOp pc of
       None \<Rightarrow> Inl SCRIPT_ERR_BAD_OPCODE
     | Some (opcode, vchPushValue, pc') \<Rightarrow>
         bindE (EvalScript_step env opcode vchPushValue pc' st)
           (\<lambda>st. EvalScript_loop env pc' (st\<lparr>st_opcode_pos := st_opcode_pos st + 1\<rparr>)))"
  by auto
termination
  by (relation "measure (\<lambda>(_, pc, _). length pc)") (auto dest: GetOp_length)

declare EvalScript_loop.simps [simp del]

definition init_state :: "valtype list \<Rightarrow> CScript \<Rightarrow> ScriptExecutionData \<Rightarrow> EvalState" where
  "init_state stack script execdata =
    \<lparr>st_codehash = script, st_stack = stack, st_altstack = [], st_vfExec = cs_init, st_nOpCount = 0,
     st_opcode_pos = 0, st_execdata = execdata\<lparr>m_codeseparator_pos := Some 0xffffffff\<rparr>\<rparr>"

definition EvalScript :: "EvalEnv \<Rightarrow> valtype list \<Rightarrow> CScript \<Rightarrow> ScriptExecutionData \<Rightarrow>
    ScriptError + (valtype list \<times> ScriptExecutionData)" where
  "EvalScript env stack script execdata =
    (if env_sigversion env = TAPROOT then Inl ASSERT_FAIL
     else if (env_sigversion env = BASE \<or> env_sigversion env = WITNESS_V0) \<and> length script > MAX_SCRIPT_SIZE
     then Inl SCRIPT_ERR_SCRIPT_SIZE
     else bindE (EvalScript_loop env script (init_state stack script execdata)) (\<lambda>st.
       if \<not> cs_empty (st_vfExec st) then Inl SCRIPT_ERR_UNBALANCED_CONDITIONAL
       else Inr (st_stack st, st_execdata st)))"

definition EvalScript_stack :: "EvalEnv \<Rightarrow> valtype list \<Rightarrow> CScript \<Rightarrow> ScriptError + valtype list" where
  "EvalScript_stack env stack script =
    bindE (EvalScript env stack script empty_execdata) (\<lambda>(stack', _). Inr stack')"

end
