(* ===== verification/Sighash.thy ===== *)
theory Sighash
  imports Interpreter Transaction
begin

text \<open>
  The digests that signatures sign (\<open>src/script/interpreter.cpp\<close>, lines 1412--1803):
  the legacy serialization of a transaction with its modifications, the version 0 witness digest
  and the Taproot digest, with the precomputed hashes they share.
\<close>

section \<open>Hash writers\<close>

text \<open>
  A \<open>HashWriter\<close> is the list of bytes written to it; \<open>GetHash\<close> is
  \<^term>\<open>Hash256\<close> and \<open>GetSHA256\<close> is \<^term>\<open>SHA256\<close> of that
  list.  \<open>TaggedHash\<close> starts a writer with the hash of the tag, twice.
\<close>

definition TaggedHash :: "Hashes \<Rightarrow> string \<Rightarrow> valtype" where
  "TaggedHash hs tag = (let taghash = SHA256 hs (map (\<lambda>c. of_char c) tag) in taghash @ taghash)"

definition uint256_ZERO :: uint256 where "uint256_ZERO = replicate 32 0"
definition uint256_ONE :: uint256 where "uint256_ONE = 1 # replicate 31 0"

definition null_txout :: CTxOut where
  "null_txout = \<lparr>txout_nValue = -1, txout_scriptPubKey = []\<rparr>"

abbreviation nHashType_ANYONECANPAY :: "32 word \<Rightarrow> bool" where
  "nHashType_ANYONECANPAY t \<equiv> t AND 0x80 \<noteq> 0"

abbreviation nHashType_SINGLE :: "32 word \<Rightarrow> bool" where
  "nHashType_SINGLE t \<equiv> t AND 0x1f = 3"

abbreviation nHashType_NONE :: "32 word \<Rightarrow> bool" where
  "nHashType_NONE t \<equiv> t AND 0x1f = 2"


section \<open>The legacy digest\<close>

text \<open>
  \<open>SerializeScriptCode\<close>.  Iterators are suffixes of the script code; when an instruction
  cannot be read the iterator is left inside it, and the bytes up to there are written.
\<close>

function count_separators :: "nat \<Rightarrow> valtype \<Rightarrow> nat" where
  "count_separators n it = (case GetOp it of
     None \<Rightarrow> n
   | Some (opcode, _, it') \<Rightarrow> count_separators (if opcode = OP_CODESEPARATOR then n + 1 else n) it')"
  by auto
termination
  by (relation "measure (\<lambda>(_, it). length it)") (auto dest: GetOp_length)

function write_without_separators :: "valtype \<Rightarrow> valtype \<Rightarrow> valtype" where
  "write_without_separators itBegin it = (case GetOp it of
     None \<Rightarrow>
       (case GetScriptOp it of (_, it', _) \<Rightarrow>
          if itBegin \<noteq> [] then take (length itBegin - length it') itBegin else [])
   | Some (opcode, _, it') \<Rightarrow>
       if opcode = OP_CODESEPARATOR
       then take (length itBegin - length it' - 1) itBegin @ write_without_separators it' it'
       else write_without_separators itBegin it')"
  by auto
termination
  by (relation "measure (\<lambda>(_, it). length it)") (auto dest: GetOp_length)

declare count_separators.simps [simp del] write_without_separators.simps [simp del]

definition SerializeScriptCode :: "CScript \<Rightarrow> valtype" where
  "SerializeScriptCode scriptCode =
    WriteCompactSize (length scriptCode - count_separators 0 scriptCode) @
    write_without_separators scriptCode scriptCode"

definition SerializeInput :: "CTransaction \<Rightarrow> CScript \<Rightarrow> nat \<Rightarrow> 32 word \<Rightarrow> nat \<Rightarrow> valtype" where
  "SerializeInput txTo scriptCode nIn nHashType nInput =
    (let nInput = (if nHashType_ANYONECANPAY nHashType then nIn else nInput);
         txin = tx_vin txTo ! nInput in
     ser_outpoint (txin_prevout txin) @
     (if nInput \<noteq> nIn then Serialize_bytes [] else SerializeScriptCode scriptCode) @
     (if nInput \<noteq> nIn \<and> (nHashType_SINGLE nHashType \<or> nHashType_NONE nHashType) then ser_uint32 0
      else ser_uint32 (txin_nSequence txin)))"

definition SerializeOutput :: "CTransaction \<Rightarrow> nat \<Rightarrow> 32 word \<Rightarrow> nat \<Rightarrow> valtype" where
  "SerializeOutput txTo nIn nHashType nOutput =
    (if nHashType_SINGLE nHashType \<and> nOutput \<noteq> nIn then ser_txout null_txout
     else ser_txout (tx_vout txTo ! nOutput))"

definition SignatureSerializer :: "CTransaction \<Rightarrow> CScript \<Rightarrow> nat \<Rightarrow> 32 word \<Rightarrow> valtype" where
  "SignatureSerializer txTo scriptCode nIn nHashType =
    (let nInputs = (if nHashType_ANYONECANPAY nHashType then 1 else length (tx_vin txTo));
         nOutputs = (if nHashType_NONE nHashType then 0
                     else if nHashType_SINGLE nHashType then nIn + 1 else length (tx_vout txTo)) in
     ser_uint32 (tx_version txTo) @
     WriteCompactSize nInputs @ concat (map (SerializeInput txTo scriptCode nIn nHashType) [0..<nInputs]) @
     WriteCompactSize nOutputs @ concat (map (SerializeOutput txTo nIn nHashType) [0..<nOutputs]) @
     ser_uint32 (tx_nLockTime txTo))"


section \<open>Precomputed data\<close>

definition GetPrevoutsSHA256 :: "Hashes \<Rightarrow> CTransaction \<Rightarrow> uint256" where
  "GetPrevoutsSHA256 hs txTo = SHA256 hs (concat (map (\<lambda>txin. ser_outpoint (txin_prevout txin)) (tx_vin txTo)))"

definition GetSequencesSHA256 :: "Hashes \<Rightarrow> CTransaction \<Rightarrow> uint256" where
  "GetSequencesSHA256 hs txTo = SHA256 hs (concat (map (\<lambda>txin. ser_uint32 (txin_nSequence txin)) (tx_vin txTo)))"

definition GetOutputsSHA256 :: "Hashes \<Rightarrow> CTransaction \<Rightarrow> uint256" where
  "GetOutputsSHA256 hs txTo = SHA256 hs (concat (map ser_txout (tx_vout txTo)))"

definition GetSpentAmountsSHA256 :: "Hashes \<Rightarrow> CTxOut list \<Rightarrow> uint256" where
  "GetSpentAmountsSHA256 hs outputs_spent = SHA256 hs (concat (map (\<lambda>txout. ser_int64 (txout_nValue txout)) outputs_spent))"

definition GetSpentScriptsSHA256 :: "Hashes \<Rightarrow> CTxOut list \<Rightarrow> uint256" where
  "GetSpentScriptsSHA256 hs outputs_spent =
    SHA256 hs (concat (map (\<lambda>txout. Serialize_bytes (txout_scriptPubKey txout)) outputs_spent))"

record PrecomputedTransactionData =
  m_prevouts_single_hash :: uint256
  m_sequences_single_hash :: uint256
  m_outputs_single_hash :: uint256
  m_spent_amounts_single_hash :: uint256
  m_spent_scripts_single_hash :: uint256
  m_bip341_taproot_ready :: bool
  pre_hashPrevouts :: uint256
  pre_hashSequence :: uint256
  pre_hashOutputs :: uint256
  m_bip143_segwit_ready :: bool
  m_spent_outputs :: "CTxOut list"
  m_spent_outputs_ready :: bool

definition empty_precomputed :: PrecomputedTransactionData where
  "empty_precomputed =
    \<lparr>m_prevouts_single_hash = uint256_ZERO, m_sequences_single_hash = uint256_ZERO, m_outputs_single_hash = uint256_ZERO,
     m_spent_amounts_single_hash = uint256_ZERO, m_spent_scripts_single_hash = uint256_ZERO, m_bip341_taproot_ready = False,
     pre_hashPrevouts = uint256_ZERO, pre_hashSequence = uint256_ZERO, pre_hashOutputs = uint256_ZERO,
     m_bip143_segwit_ready = False, m_spent_outputs = [], m_spent_outputs_ready = False\<rparr>"

text \<open>
  The scan of \<open>Init\<close> for the digests the inputs need; without spent outputs every
  witness counts as a version 0 spend.
\<close>

fun scan_inputs :: "bool \<Rightarrow> CTxOut list \<Rightarrow> CTxIn list \<Rightarrow> bool \<Rightarrow> bool \<Rightarrow> bool \<times> bool" where
  "scan_inputs ready spent [] segwit taproot = (segwit, taproot)"
| "scan_inputs ready spent (txin # vin) segwit taproot =
    (if segwit \<and> taproot then (segwit, taproot)
     else if txin_scriptWitness txin \<noteq> [] then
       (if ready \<and> length (txout_scriptPubKey (hd spent)) = 34 \<and> unat (txout_scriptPubKey (hd spent) ! 0) = OP_1
        then scan_inputs ready (tl spent) vin segwit True
        else scan_inputs ready (tl spent) vin True taproot)
     else scan_inputs ready (tl spent) vin segwit taproot)"

definition PrecomputedTransactionData_Init ::
  "Hashes \<Rightarrow> CTransaction \<Rightarrow> CTxOut list \<Rightarrow> bool \<Rightarrow> PrecomputedTransactionData \<Rightarrow> ScriptError + PrecomputedTransactionData" where
  "PrecomputedTransactionData_Init hs txTo spent_outputs force d =
    (if m_spent_outputs_ready d then Inl ASSERT_FAIL
     else if spent_outputs \<noteq> [] \<and> length spent_outputs \<noteq> length (tx_vin txTo) then Inl ASSERT_FAIL
     else
       let ready = (spent_outputs \<noteq> []);
           (segwit, taproot) = scan_inputs ready spent_outputs (tx_vin txTo) force force;
           d = d\<lparr>m_spent_outputs := spent_outputs, m_spent_outputs_ready := ready\<rparr>;
           d = (if segwit \<or> taproot then
                  d\<lparr>m_prevouts_single_hash := GetPrevoutsSHA256 hs txTo,
                    m_sequences_single_hash := GetSequencesSHA256 hs txTo,
                    m_outputs_single_hash := GetOutputsSHA256 hs txTo\<rparr> else d);
           d = (if segwit then
                  d\<lparr>pre_hashPrevouts := SHA256 hs (m_prevouts_single_hash d),
                    pre_hashSequence := SHA256 hs (m_sequences_single_hash d),
                    pre_hashOutputs := SHA256 hs (m_outputs_single_hash d),
                    m_bip143_segwit_ready := True\<rparr> else d);
           d = (if taproot \<and> ready then
                  d\<lparr>m_spent_amounts_single_hash := GetSpentAmountsSHA256 hs spent_outputs,
                    m_spent_scripts_single_hash := GetSpentScriptsSHA256 hs spent_outputs,
                    m_bip341_taproot_ready := True\<rparr> else d)
       in Inr d)"


section \<open>The witness digests\<close>

datatype MissingDataBehavior = MDB_ASSERT_FAIL | MDB_FAIL

primrec HandleMissingData :: "MissingDataBehavior \<Rightarrow> ScriptError + bool" where
  "HandleMissingData MDB_ASSERT_FAIL = Inl ASSERT_FAIL"
| "HandleMissingData MDB_FAIL = Inr False"

text \<open>What is hashed for a version 0 witness, from the three hashes over parts of the transaction.\<close>

definition segwit_preimage ::
  "CTransaction \<Rightarrow> uint256 \<Rightarrow> uint256 \<Rightarrow> CTxIn \<Rightarrow> CScript \<Rightarrow> CAmount \<Rightarrow> uint256 \<Rightarrow> 32 word \<Rightarrow> valtype" where
  "segwit_preimage txTo hashPrevouts hashSequence txin scriptCode amount hashOutputs nHashType =
    ser_uint32 (tx_version txTo) @ hashPrevouts @ hashSequence @
    ser_outpoint (txin_prevout txin) @ Serialize_bytes scriptCode @ ser_int64 amount @ ser_uint32 (txin_nSequence txin) @
    hashOutputs @ ser_uint32 (tx_nLockTime txTo) @ ser_uint32 nHashType"

definition SignatureHash ::
  "Hashes \<Rightarrow> CScript \<Rightarrow> CTransaction \<Rightarrow> nat \<Rightarrow> 32 word \<Rightarrow> CAmount \<Rightarrow> SigVersion \<Rightarrow> PrecomputedTransactionData option \<Rightarrow>
   ScriptError + uint256" where
  "SignatureHash hs scriptCode txTo nIn nHashType amount sigversion cache =
    (if nIn \<ge> length (tx_vin txTo) then Inl ASSERT_FAIL
     else if sigversion = WITNESS_V0 then
       let cacheready = (case cache of None \<Rightarrow> False | Some c \<Rightarrow> m_bip143_segwit_ready c);
           hashPrevouts =
             (if \<not> nHashType_ANYONECANPAY nHashType
              then if cacheready then pre_hashPrevouts (the cache) else SHA256 hs (GetPrevoutsSHA256 hs txTo)
              else uint256_ZERO);
           hashSequence =
             (if \<not> nHashType_ANYONECANPAY nHashType \<and> \<not> nHashType_SINGLE nHashType \<and> \<not> nHashType_NONE nHashType
              then if cacheready then pre_hashSequence (the cache) else SHA256 hs (GetSequencesSHA256 hs txTo)
              else uint256_ZERO);
           hashOutputs =
             (if \<not> nHashType_SINGLE nHashType \<and> \<not> nHashType_NONE nHashType
              then if cacheready then pre_hashOutputs (the cache) else SHA256 hs (GetOutputsSHA256 hs txTo)
              else if nHashType_SINGLE nHashType \<and> nIn < length (tx_vout txTo)
              then Hash256 hs (ser_txout (tx_vout txTo ! nIn))
              else uint256_ZERO) in
       Inr (Hash256 hs (segwit_preimage txTo hashPrevouts hashSequence (tx_vin txTo ! nIn) scriptCode amount hashOutputs nHashType))
     else if nHashType_SINGLE nHashType \<and> nIn \<ge> length (tx_vout txTo) then Inr uint256_ONE
     else Inr (Hash256 hs (SignatureSerializer txTo scriptCode nIn nHashType @ ser_uint32 nHashType)))"

text \<open>
  \<open>SignatureHashSchnorr\<close>: \<open>Inr None\<close> is the return value false, otherwise the
  digest and the execution data with the output hash it may have added.
\<close>

definition SignatureHashSchnorr ::
  "Hashes \<Rightarrow> ScriptExecutionData \<Rightarrow> CTransaction \<Rightarrow> nat \<Rightarrow> byte \<Rightarrow> SigVersion \<Rightarrow> PrecomputedTransactionData \<Rightarrow>
   MissingDataBehavior \<Rightarrow> ScriptError + (uint256 \<times> ScriptExecutionData) option" where
  "SignatureHashSchnorr hs execdata tx_to in_pos hash_type sigversion cache mdb =
    (if sigversion \<noteq> TAPROOT \<and> sigversion \<noteq> TAPSCRIPT then Inl ASSERT_FAIL
     else if in_pos \<ge> length (tx_vin tx_to) then Inl ASSERT_FAIL
     else if \<not> (m_bip341_taproot_ready cache \<and> m_spent_outputs_ready cache) then
       bindE (HandleMissingData mdb) (\<lambda>_. Inr None)
     else
       let ext_flag = (if sigversion = TAPROOT then 0 else 1 :: byte);
           output_type = (if hash_type = SIGHASH_DEFAULT then SIGHASH_ALL else hash_type AND SIGHASH_OUTPUT_MASK);
           input_type = hash_type AND SIGHASH_INPUT_MASK in
       if \<not> (hash_type \<le> 0x03 \<or> hash_type \<ge> 0x81 \<and> hash_type \<le> 0x83) then Inr None
       else case m_annex execdata of
         None \<Rightarrow> Inl ASSERT_FAIL
       | Some annex \<Rightarrow>
           let have_annex = (annex \<noteq> None);
               spend_type = push_bit 1 ext_flag + (if have_annex then 1 else 0);
               ss = TaggedHash hs ''TapSighash'' @ [0, hash_type] @
                 ser_uint32 (tx_version tx_to) @ ser_uint32 (tx_nLockTime tx_to) @
                 (if input_type \<noteq> SIGHASH_ANYONECANPAY
                  then m_prevouts_single_hash cache @ m_spent_amounts_single_hash cache @
                       m_spent_scripts_single_hash cache @ m_sequences_single_hash cache else []) @
                 (if output_type = SIGHASH_ALL then m_outputs_single_hash cache else []) @
                 [spend_type] @
                 (if input_type = SIGHASH_ANYONECANPAY
                  then ser_outpoint (txin_prevout (tx_vin tx_to ! in_pos)) @ ser_txout (m_spent_outputs cache ! in_pos) @
                       ser_uint32 (txin_nSequence (tx_vin tx_to ! in_pos))
                  else ser_uint32 (of_nat in_pos)) @
                 (case annex of Some h \<Rightarrow> h | None \<Rightarrow> []) in
           if output_type = SIGHASH_SINGLE \<and> in_pos \<ge> length (tx_vout tx_to) then Inr None
           else
             let execdata =
                   (if output_type = SIGHASH_SINGLE \<and> m_output_hash execdata = None
                    then execdata\<lparr>m_output_hash := Some (SHA256 hs (ser_txout (tx_vout tx_to ! in_pos)))\<rparr> else execdata);
                 ss = ss @ (if output_type = SIGHASH_SINGLE then the (m_output_hash execdata) else []) in
             if sigversion = TAPSCRIPT then
               (case (m_tapleaf_hash execdata, m_codeseparator_pos execdata) of
                  (Some tapleaf_hash, Some codeseparator_pos) \<Rightarrow>
                    Inr (Some (SHA256 hs (ss @ tapleaf_hash @ [0] @ ser_uint32 codeseparator_pos), execdata))
                | _ \<Rightarrow> Inl ASSERT_FAIL)
             else Inr (Some (SHA256 hs ss, execdata)))"


section \<open>Script code without separators\<close>

function strip_separators :: "valtype \<Rightarrow> valtype" where
  "strip_separators s = (case GetOp s of
     None \<Rightarrow> s
   | Some (opcode, _, s') \<Rightarrow>
       if opcode = OP_CODESEPARATOR then strip_separators s'
       else take (length s - length s') s @ strip_separators s')"
  by auto
termination
  by (relation "measure length") (auto dest: GetOp_length)

declare strip_separators.simps [simp del]

lemma GetOp_hd: "GetOp s = Some (opcode, vch, s') \<Longrightarrow> s \<noteq> [] \<and> unat (hd s) = opcode"
  by (cases s) (auto simp: GetOp_def GetScriptOp_def Let_def split: if_splits option.splits prod.splits)

lemma GetOp_separator [simp]: "GetOp (0xab # s) = Some (OP_CODESEPARATOR, [], s)"
  using GetOp_opcode [of "0xab" s] by simp

lemma GetOp_is_separator: "GetOp s = Some (OP_CODESEPARATOR, vch, s') \<Longrightarrow> s = 0xab # s'"
  using GetOp_hd [of s OP_CODESEPARATOR vch s'] by (cases s) (auto dest!: byte_of_unat)

lemma no_op_separators:
  assumes "GetOp s = None"
  shows "strip_separators s = s" "count_separators n s = n"
  using assms by (subst strip_separators.simps, simp, subst count_separators.simps, simp)

lemma count_separators_step:
  "GetOp s = Some (opcode, vch, s') \<Longrightarrow>
   count_separators n s = count_separators (if opcode = OP_CODESEPARATOR then n + 1 else n) s'"
  by (subst count_separators.simps) simp

lemma strip_separators_step:
  "GetOp s = Some (opcode, vch, s') \<Longrightarrow>
   strip_separators s = (if opcode = OP_CODESEPARATOR then strip_separators s'
     else take (length s - length s') s @ strip_separators s')"
  by (subst strip_separators.simps) simp

lemma GetOp_induct [case_names stop step]:
  assumes "\<And>s. GetOp s = None \<Longrightarrow> P s"
    and "\<And>s opcode vch s'. GetOp s = Some (opcode, vch, s') \<Longrightarrow> P s' \<Longrightarrow> P s"
  shows "P s"
proof (induction "length s" arbitrary: s rule: less_induct)
  case (less s)
  show ?case
  proof (cases "GetOp s")
    case (Some r)
    then show ?thesis
      using assms(2) less GetOp_length by (cases r) blast
  qed (rule assms(1))
qed

lemma count_separators_add: "count_separators n s = n + count_separators 0 s"
proof (induction s arbitrary: n rule: GetOp_induct)
  case (step s opcode vch s')
  from step(2) [of n] step(2) [of "n + 1"] step(2) [of 1] show ?case
    by (simp add: count_separators_step [OF step(1)])
qed (simp add: no_op_separators)

lemma length_strip_separators: "length (strip_separators s) + count_separators 0 s = length s"
proof (induction s rule: GetOp_induct)
  case (step s opcode vch s')
  show ?case
  proof (cases "opcode = OP_CODESEPARATOR")
    case True
    then have "length s = Suc (length s')"
      using GetOp_is_separator [of s vch s'] step(1) by simp
    then show ?thesis
      using step True count_separators_add [of 1 s']
      by (simp add: count_separators_step [OF step(1)] strip_separators_step [OF step(1)])
  next
    case False
    then show ?thesis
      using step GetOp_length [OF step(1)]
      by (simp add: count_separators_step [OF step(1)] strip_separators_step [OF step(1)])
  qed
qed (simp add: no_op_separators)

lemma write_without_separators_step:
  "GetOp it = Some (opcode, vch, it') \<Longrightarrow>
   write_without_separators itBegin it =
     (if opcode = OP_CODESEPARATOR
      then take (length itBegin - length it' - 1) itBegin @ write_without_separators it' it'
      else write_without_separators itBegin it')"
  by (subst write_without_separators.simps) simp

lemma write_without_separators_eq:
  "script_parses it \<Longrightarrow> write_without_separators (u @ it) it = u @ strip_separators it"
proof (induction it arbitrary: u rule: GetOp_induct)
  case (stop it)
  then have "it = []"
    by (subst (asm) script_parses.simps) simp
  then show ?case
    by (subst write_without_separators.simps) (simp add: no_op_separators GetScriptOp_def)
next
  case (step it opcode vch it')
  have p: "script_parses it'"
    using step by (subst (asm) script_parses.simps) auto
  show ?case
  proof (cases "opcode = OP_CODESEPARATOR")
    case True
    then have "take (length (u @ it) - length it' - 1) (u @ it) = u"
      using GetOp_is_separator [of it vch it'] step(1) by simp
    then show ?thesis
      using True step(2) [OF p, of "[]"]
      by (simp add: write_without_separators_step [OF step(1)] strip_separators_step [OF step(1)])
  next
    case False
    have "u @ it = (u @ take (length it - length it') it) @ it'"
      using GetOp_suffix [OF step(1)] by simp
    then show ?thesis
      using False step(2) [OF p, of "u @ take (length it - length it') it"]
      by (simp add: write_without_separators_step [OF step(1)] strip_separators_step [OF step(1)])
  qed
qed

lemma SerializeScriptCode_eq:
  assumes "script_parses scriptCode"
  shows "SerializeScriptCode scriptCode = Serialize_bytes (strip_separators scriptCode)"
proof -
  have "length scriptCode - count_separators 0 scriptCode = length (strip_separators scriptCode)"
    using length_strip_separators [of scriptCode] by linarith
  then show ?thesis
    using write_without_separators_eq [OF assms, of "[]"] by (simp add: SerializeScriptCode_def Serialize_bytes_def)
qed


section \<open>The legacy digest as a transaction\<close>

text \<open>
  The transaction a legacy signature signs: the script code takes the place of the signature
  script of the input, the other signature scripts are empty, and the hash type blanks or removes
  inputs, sequence numbers and outputs.
\<close>

definition signed_input :: "CScript \<Rightarrow> 32 word \<Rightarrow> bool \<Rightarrow> CTxIn \<Rightarrow> CTxIn" where
  "signed_input scriptCode nHashType own txin =
    txin\<lparr>txin_scriptSig := (if own then strip_separators scriptCode else []),
         txin_nSequence := (if \<not> own \<and> (nHashType_SINGLE nHashType \<or> nHashType_NONE nHashType)
                            then 0 else txin_nSequence txin),
         txin_scriptWitness := []\<rparr>"

definition signed_transaction :: "CTransaction \<Rightarrow> CScript \<Rightarrow> nat \<Rightarrow> 32 word \<Rightarrow> CTransaction" where
  "signed_transaction txTo scriptCode nIn nHashType =
    txTo\<lparr>tx_vin := (if nHashType_ANYONECANPAY nHashType
                    then [signed_input scriptCode nHashType True (tx_vin txTo ! nIn)]
                    else map (\<lambda>(i, txin). signed_input scriptCode nHashType (i = nIn) txin) (enumerate 0 (tx_vin txTo))),
         tx_vout := (if nHashType_NONE nHashType then []
                     else if nHashType_SINGLE nHashType then replicate nIn null_txout @ [tx_vout txTo ! nIn]
                     else tx_vout txTo)\<rparr>"

lemma SerializeInput_eq:
  assumes "script_parses scriptCode"
  shows "SerializeInput txTo scriptCode nIn nHashType i =
    (let j = (if nHashType_ANYONECANPAY nHashType then nIn else i) in
     ser_txin (signed_input scriptCode nHashType (j = nIn) (tx_vin txTo ! j)))"
  using SerializeScriptCode_eq [OF assms] by (auto simp: SerializeInput_def signed_input_def ser_txin_def Let_def)

lemma signed_no_witness: "\<not> HasWitness (signed_transaction txTo scriptCode nIn nHashType)"
  by (auto simp: HasWitness_def list_ex_iff signed_transaction_def signed_input_def)

lemma serialized_inputs:
  assumes "script_parses scriptCode"
  shows "WriteCompactSize (if nHashType_ANYONECANPAY nHashType then 1 else length (tx_vin txTo)) @
    concat (map (SerializeInput txTo scriptCode nIn nHashType)
      [0..<(if nHashType_ANYONECANPAY nHashType then 1 else length (tx_vin txTo))]) =
    ser_vector ser_txin (tx_vin (signed_transaction txTo scriptCode nIn nHashType))"
proof (cases "nHashType_ANYONECANPAY nHashType")
  case True
  then show ?thesis
    by (simp add: ser_vector_def signed_transaction_def SerializeInput_eq [OF assms])
next
  case False
  have "map (SerializeInput txTo scriptCode nIn nHashType) [0..<length (tx_vin txTo)] =
    map ser_txin (map (\<lambda>(i, txin). signed_input scriptCode nHashType (i = nIn) txin) (enumerate 0 (tx_vin txTo)))"
    using False by (intro nth_equalityI) (auto simp: SerializeInput_eq [OF assms] nth_enumerate_eq)
  then show ?thesis
    using False by (simp add: ser_vector_def signed_transaction_def)
qed

lemma serialized_outputs:
  assumes "nHashType_SINGLE nHashType \<Longrightarrow> nIn < length (tx_vout txTo)"
  shows "(let n = (if nHashType_NONE nHashType then 0 else if nHashType_SINGLE nHashType then nIn + 1 else length (tx_vout txTo)) in
     WriteCompactSize n @ concat (map (SerializeOutput txTo nIn nHashType) [0..<n])) =
    ser_vector ser_txout (tx_vout (signed_transaction txTo scriptCode nIn nHashType))"
proof -
  have s: "map (SerializeOutput txTo nIn nHashType) [0..<nIn] = replicate nIn (ser_txout null_txout)"
    if "nHashType_SINGLE nHashType"
    using that by (intro nth_equalityI) (auto simp: SerializeOutput_def)
  have a: "map (SerializeOutput txTo nIn nHashType) [0..<length (tx_vout txTo)] = map ser_txout (tx_vout txTo)"
    if "\<not> nHashType_SINGLE nHashType"
    using that by (intro nth_equalityI) (auto simp: SerializeOutput_def)
  show ?thesis
    using s a by (auto simp: ser_vector_def signed_transaction_def SerializeOutput_def)
qed

text \<open>
  C28.  What a legacy signature signs is a transaction: for a script code of whole instructions
  and an input and output that exist, the bytes the signature serializer writes are the
  serialization, without witnesses, of the transaction with the script code in place of the
  signature script and the parts blanked that the hash type leaves out.
\<close>
theorem SignatureSerializer_is_transaction:
  assumes "script_parses scriptCode" and "nIn < length (tx_vin txTo)"
    and "nHashType_SINGLE nHashType \<Longrightarrow> nIn < length (tx_vout txTo)"
  shows "SignatureSerializer txTo scriptCode nIn nHashType =
    SerializeTransaction False (signed_transaction txTo scriptCode nIn nHashType)"
proof -
  have "tx_version (signed_transaction txTo scriptCode nIn nHashType) = tx_version txTo"
    "tx_nLockTime (signed_transaction txTo scriptCode nIn nHashType) = tx_nLockTime txTo"
    by (simp_all add: signed_transaction_def)
  then have "SerializeTransaction False (signed_transaction txTo scriptCode nIn nHashType) =
    ser_uint32 (tx_version txTo) @
    ser_vector ser_txin (tx_vin (signed_transaction txTo scriptCode nIn nHashType)) @
    ser_vector ser_txout (tx_vout (signed_transaction txTo scriptCode nIn nHashType)) @
    ser_uint32 (tx_nLockTime txTo)"
    by (simp add: SerializeTransaction_def)
  then show ?thesis
    by (simp only: SignatureSerializer_def Let_def append_assoc
        serialized_inputs [OF assms(1), symmetric] serialized_outputs [OF assms(3), symmetric])
qed

definition demo_outpoint :: "nat \<Rightarrow> COutPoint" where
  "demo_outpoint n = \<lparr>outpoint_hash = replicate 32 7, outpoint_n = of_nat n\<rparr>"

definition demo_tx :: CTransaction where
  "demo_tx = \<lparr>tx_version = 2,
    tx_vin = map (\<lambda>n. \<lparr>txin_prevout = demo_outpoint n, txin_scriptSig = [], txin_nSequence = 5, txin_scriptWitness = []\<rparr>) [0, 1],
    tx_vout = [\<lparr>txout_nValue = 1000, txout_scriptPubKey = [0x51]\<rparr>], tx_nLockTime = 0\<rparr>"

theorem SignatureSerializer_is_transaction_witness:
  "SignatureSerializer demo_tx [0x76, 0xab, 0xac] 0 3 =
    SerializeTransaction False (signed_transaction demo_tx [0x76, 0xab, 0xac] 0 3)"
proof (rule SignatureSerializer_is_transaction)
  show "script_parses [0x76, 0xab, 0xac]"
    by code_simp
qed (simp_all add: demo_tx_def)


section \<open>The cache\<close>

lemma Init_hashes:
  assumes "PrecomputedTransactionData_Init hs txTo spent force d = Inr d'" and "\<not> m_bip143_segwit_ready d"
    and "m_bip143_segwit_ready d'"
  shows "pre_hashPrevouts d' = SHA256 hs (GetPrevoutsSHA256 hs txTo) \<and>
    pre_hashSequence d' = SHA256 hs (GetSequencesSHA256 hs txTo) \<and>
    pre_hashOutputs d' = SHA256 hs (GetOutputsSHA256 hs txTo)"
  using assms by (auto simp: PrecomputedTransactionData_Init_def Let_def split: if_splits prod.splits)

text \<open>
  C29.  The cache is transparent: whatever outputs are known to be spent and whether or not the
  digests are forced, the digest computed from data that \<open>Init\<close> prepared for the same
  transaction is the digest computed without a cache, for every script code, input, hash type,
  amount and version.
\<close>
theorem SignatureHash_cache:
  assumes "PrecomputedTransactionData_Init hs txTo spent force empty_precomputed = Inr cache"
  shows "SignatureHash hs scriptCode txTo nIn nHashType amount sigversion (Some cache) =
    SignatureHash hs scriptCode txTo nIn nHashType amount sigversion None"
proof (cases "m_bip143_segwit_ready cache")
  case True
  then show ?thesis
    using Init_hashes [OF assms _ True] by (simp add: SignatureHash_def empty_precomputed_def)
qed (simp add: SignatureHash_def)

theorem SignatureHash_cache_witness:
  "(let hs = \<lparr>SHA256 = take 32, SHA1 = take 20, RIPEMD160 = take 20\<rparr> in
    \<exists>cache. PrecomputedTransactionData_Init hs demo_tx [] True empty_precomputed = Inr cache \<and>
      SignatureHash hs [0x51] demo_tx 1 1 7 WITNESS_V0 (Some cache) = SignatureHash hs [0x51] demo_tx 1 1 7 WITNESS_V0 None)"
proof -
  have "\<exists>cache. PrecomputedTransactionData_Init hs demo_tx [] True empty_precomputed = Inr cache" for hs
    by (simp add: PrecomputedTransactionData_Init_def demo_tx_def empty_precomputed_def Let_def)
  then show ?thesis
    using SignatureHash_cache [of _ demo_tx "[]" True] by (metis (no_types, lifting))
qed


section \<open>What a version 0 signature commits to\<close>

definition other_inputs :: "32 word \<Rightarrow> bool" where
  "other_inputs nHashType = (\<not> nHashType_ANYONECANPAY nHashType)"

definition other_sequences :: "32 word \<Rightarrow> bool" where
  "other_sequences nHashType =
    (\<not> nHashType_ANYONECANPAY nHashType \<and> \<not> nHashType_SINGLE nHashType \<and> \<not> nHashType_NONE nHashType)"

definition signed_outputs :: "CTransaction \<Rightarrow> nat \<Rightarrow> 32 word \<Rightarrow> CTxOut list" where
  "signed_outputs txTo nIn nHashType =
    (if nHashType_SINGLE nHashType then if nIn < length (tx_vout txTo) then [tx_vout txTo ! nIn] else []
     else if nHashType_NONE nHashType then [] else tx_vout txTo)"

text \<open>The parts of the transaction that the digest covers, and the messages it hashes.\<close>

definition signed_view :: "CTransaction \<Rightarrow> nat \<Rightarrow> CScript \<Rightarrow> CAmount \<Rightarrow> 32 word \<Rightarrow>
    32 word \<times> COutPoint list option \<times> 32 word list option \<times> COutPoint \<times> CScript \<times> CAmount \<times> 32 word \<times>
    CTxOut list \<times> 32 word \<times> 32 word" where
  "signed_view txTo nIn scriptCode amount nHashType =
    (tx_version txTo, (if other_inputs nHashType then Some (map txin_prevout (tx_vin txTo)) else None),
     (if other_sequences nHashType then Some (map txin_nSequence (tx_vin txTo)) else None),
     txin_prevout (tx_vin txTo ! nIn), scriptCode, amount, txin_nSequence (tx_vin txTo ! nIn),
     signed_outputs txTo nIn nHashType, tx_nLockTime txTo, nHashType)"

definition part_messages :: "CTransaction \<Rightarrow> nat \<Rightarrow> 32 word \<Rightarrow> valtype list" where
  "part_messages txTo nIn nHashType =
    [concat (map ser_outpoint (map txin_prevout (tx_vin txTo))),
     concat (map ser_uint32 (map txin_nSequence (tx_vin txTo))),
     concat (map ser_txout (signed_outputs txTo nIn nHashType))]"

definition part_hashes :: "Hashes \<Rightarrow> CTransaction \<Rightarrow> nat \<Rightarrow> 32 word \<Rightarrow> uint256 list" where
  "part_hashes hs txTo nIn nHashType =
    map (\<lambda>(used, m). if used then Hash256 hs m else uint256_ZERO)
      (zip [other_inputs nHashType, other_sequences nHashType,
            (\<not> nHashType_SINGLE nHashType \<and> \<not> nHashType_NONE nHashType) \<or>
            (nHashType_SINGLE nHashType \<and> nIn < length (tx_vout txTo))]
         (part_messages txTo nIn nHashType))"

definition v0_preimage :: "Hashes \<Rightarrow> CScript \<Rightarrow> CTransaction \<Rightarrow> nat \<Rightarrow> 32 word \<Rightarrow> CAmount \<Rightarrow> valtype" where
  "v0_preimage hs scriptCode txTo nIn nHashType amount =
    (let h = part_hashes hs txTo nIn nHashType in
     segwit_preimage txTo (h ! 0) (h ! 1) (tx_vin txTo ! nIn) scriptCode amount (h ! 2) nHashType)"

definition v0_messages :: "Hashes \<Rightarrow> CScript \<Rightarrow> CTransaction \<Rightarrow> nat \<Rightarrow> 32 word \<Rightarrow> CAmount \<Rightarrow> valtype set" where
  "v0_messages hs scriptCode txTo nIn nHashType amount =
    (let ms = set (v0_preimage hs scriptCode txTo nIn nHashType amount # part_messages txTo nIn nHashType) in
     ms \<union> SHA256 hs ` ms)"

definition hash_clash :: "Hashes \<Rightarrow> valtype set \<Rightarrow> valtype set \<Rightarrow> bool" where
  "hash_clash hs ms ms' =
    ((\<exists>x\<in>ms. \<exists>y\<in>ms'. x \<noteq> y \<and> SHA256 hs x = SHA256 hs y) \<or> (\<exists>x\<in>ms \<union> ms'. SHA256 hs x = uint256_ZERO))"

definition signable :: "CTransaction \<Rightarrow> nat \<Rightarrow> CScript \<Rightarrow> bool" where
  "signable txTo nIn scriptCode =
    (nIn < length (tx_vin txTo) \<and> list_all (outpoint_ok \<circ> txin_prevout) (tx_vin txTo) \<and>
     list_all txout_ok (tx_vout txTo) \<and> length scriptCode \<le> MAX_SIZE)"

lemma SignatureHash_v0:
  "nIn < length (tx_vin txTo) \<Longrightarrow>
   SignatureHash hs scriptCode txTo nIn nHashType amount WITNESS_V0 None =
     Inr (Hash256 hs (v0_preimage hs scriptCode txTo nIn nHashType amount))"
  by (simp add: SignatureHash_def v0_preimage_def part_hashes_def part_messages_def other_inputs_def other_sequences_def
      signed_outputs_def GetPrevoutsSHA256_def GetSequencesSHA256_def GetOutputsSHA256_def Hash256_def comp_def Let_def)

lemma hash_clash_SHA256:
  "x \<in> ms \<Longrightarrow> y \<in> ms' \<Longrightarrow> SHA256 hs x = SHA256 hs y \<Longrightarrow> x = y \<or> hash_clash hs ms ms'"
  by (auto simp: hash_clash_def)

lemma hash_clash_Hash256:
  "{x, SHA256 hs x} \<subseteq> ms \<Longrightarrow> {y, SHA256 hs y} \<subseteq> ms' \<Longrightarrow> Hash256 hs x = Hash256 hs y \<Longrightarrow>
   x = y \<or> hash_clash hs ms ms'"
  unfolding Hash256_def
  using hash_clash_SHA256 [of "SHA256 hs x" ms "SHA256 hs y" ms' hs] hash_clash_SHA256 [of x ms y ms' hs] by auto

lemma hash_clash_ZERO:
  "SHA256 hs x \<in> ms \<union> ms' \<Longrightarrow> Hash256 hs x = uint256_ZERO \<Longrightarrow> hash_clash hs ms ms'"
  by (auto simp: hash_clash_def Hash256_def)

lemma part_messages_in:
  assumes "m \<in> set (part_messages txTo nIn nHashType)"
  shows "{m, SHA256 hs m} \<subseteq> v0_messages hs scriptCode txTo nIn nHashType amount"
  using assms by (auto simp: v0_messages_def)

lemma v0_preimage_in:
  "{v0_preimage hs scriptCode txTo nIn nHashType amount, SHA256 hs (v0_preimage hs scriptCode txTo nIn nHashType amount)}
     \<subseteq> v0_messages hs scriptCode txTo nIn nHashType amount"
  by (auto simp: v0_messages_def)

lemma segwit_preimage_inject:
  assumes "segwit_preimage tx p q i sc a r t = segwit_preimage tx' p' q' i' sc' a' r' t'"
    and "length p = 32" "length p' = 32" "length q = 32" "length q' = 32" "length r = 32" "length r' = 32"
    and "outpoint_ok (txin_prevout i)" "outpoint_ok (txin_prevout i')"
    and "length sc \<le> MAX_SIZE" "length sc' \<le> MAX_SIZE"
  shows "tx_version tx = tx_version tx' \<and> p = p' \<and> q = q' \<and> txin_prevout i = txin_prevout i' \<and> sc = sc' \<and> a = a' \<and>
    txin_nSequence i = txin_nSequence i' \<and> r = r' \<and> tx_nLockTime tx = tx_nLockTime tx' \<and> t = t'"
proof -
  note u = uint32.enc_prefix_free [OF TrueI TrueI] int64.enc_prefix_free [OF TrueI TrueI]
  note e = assms(1) [unfolded segwit_preimage_def]
  have 1: "tx_version tx = tx_version tx'"
    and e1: "p @ q @ ser_outpoint (txin_prevout i) @ Serialize_bytes sc @ ser_int64 a @ ser_uint32 (txin_nSequence i) @
      r @ ser_uint32 (tx_nLockTime tx) @ ser_uint32 t =
      p' @ q' @ ser_outpoint (txin_prevout i') @ Serialize_bytes sc' @ ser_int64 a' @ ser_uint32 (txin_nSequence i') @
      r' @ ser_uint32 (tx_nLockTime tx') @ ser_uint32 t'"
    using u(1) [OF e] by blast+
  then have 2: "p = p'" "q = q'"
    and e2: "ser_outpoint (txin_prevout i) @ Serialize_bytes sc @ ser_int64 a @ ser_uint32 (txin_nSequence i) @
      r @ ser_uint32 (tx_nLockTime tx) @ ser_uint32 t =
      ser_outpoint (txin_prevout i') @ Serialize_bytes sc' @ ser_int64 a' @ ser_uint32 (txin_nSequence i') @
      r' @ ser_uint32 (tx_nLockTime tx') @ ser_uint32 t'"
    using assms by auto
  note o = outpoint.enc_prefix_free [OF assms(8,9) e2]
  note b = byte_vector.enc_prefix_free [OF assms(10,11) o [THEN conjunct2]]
  note a = u(2) [OF b [THEN conjunct2]]
  note n = u(1) [OF a [THEN conjunct2]]
  then have r: "r = r'" and e3: "ser_uint32 (tx_nLockTime tx) @ ser_uint32 t = ser_uint32 (tx_nLockTime tx') @ ser_uint32 t'"
    using assms by auto
  have "t = t'"
    using u(1) [OF e3] uint32.enc_inject [of t t'] by simp
  then show ?thesis
    using 1 2 o b a n r u(1) [OF e3] by blast
qed

lemma ser_nonempty: "ser_uint32 x \<noteq> []" "ser_outpoint q \<noteq> []" "ser_txout t \<noteq> []"
  by (auto simp: ser_uint32_def ser_outpoint_def ser_txout_def ser_int64_def ser_defs simp flip: length_0_conv)

lemma part_messages_inject:
  assumes "signable txTo nIn sc" and "signable txTo' nIn' sc'"
  shows "part_messages txTo nIn t ! 0 = part_messages txTo' nIn' t ! 0 \<Longrightarrow>
      map txin_prevout (tx_vin txTo) = map txin_prevout (tx_vin txTo')"
    and "part_messages txTo nIn t ! 1 = part_messages txTo' nIn' t ! 1 \<Longrightarrow>
      map txin_nSequence (tx_vin txTo) = map txin_nSequence (tx_vin txTo')"
    and "part_messages txTo nIn t ! 2 = part_messages txTo' nIn' t ! 2 \<Longrightarrow>
      signed_outputs txTo nIn t = signed_outputs txTo' nIn' t"
proof -
  have "list_all outpoint_ok (map txin_prevout (tx_vin txTo))" "list_all outpoint_ok (map txin_prevout (tx_vin txTo'))"
    using assms by (simp_all add: signable_def list_all_iff)
  then show "part_messages txTo nIn t ! 0 = part_messages txTo' nIn' t ! 0 \<Longrightarrow>
      map txin_prevout (tx_vin txTo) = map txin_prevout (tx_vin txTo')"
    using outpoint.concat_enc_inject [OF ser_nonempty(2)] by (simp add: part_messages_def)
  show "part_messages txTo nIn t ! 1 = part_messages txTo' nIn' t ! 1 \<Longrightarrow>
      map txin_nSequence (tx_vin txTo) = map txin_nSequence (tx_vin txTo')"
    using uint32.concat_enc_inject [OF ser_nonempty(1)] by (simp add: part_messages_def list_all_iff)
  have "list_all txout_ok (signed_outputs txTo nIn t)" "list_all txout_ok (signed_outputs txTo' nIn' t)"
    using assms by (auto simp: signable_def list_all_iff signed_outputs_def)
  then show "part_messages txTo nIn t ! 2 = part_messages txTo' nIn' t ! 2 \<Longrightarrow>
      signed_outputs txTo nIn t = signed_outputs txTo' nIn' t"
    using txout.concat_enc_inject [OF ser_nonempty(3)] by (simp add: part_messages_def)
qed

lemma part_messages_mem: "k < 3 \<Longrightarrow> part_messages txTo nIn t ! k \<in> set (part_messages txTo nIn t)"
  by (rule nth_mem) (simp add: part_messages_def)

lemma part_hashes_nth:
  "part_hashes hs txTo nIn t ! 0 = (if other_inputs t then Hash256 hs (part_messages txTo nIn t ! 0) else uint256_ZERO)"
  "part_hashes hs txTo nIn t ! 1 = (if other_sequences t then Hash256 hs (part_messages txTo nIn t ! 1) else uint256_ZERO)"
  "part_hashes hs txTo nIn t ! 2 =
    (if \<not> nHashType_SINGLE t \<and> \<not> nHashType_NONE t \<or> nHashType_SINGLE t \<and> nIn < length (tx_vout txTo)
     then Hash256 hs (part_messages txTo nIn t ! 2) else uint256_ZERO)"
  by (simp_all add: part_hashes_def part_messages_def)

lemma length_part_hashes:
  assumes "\<And>x. length (SHA256 hs x) = 32"
  shows "length (part_hashes hs txTo nIn t ! 0) = 32" "length (part_hashes hs txTo nIn t ! 1) = 32"
    "length (part_hashes hs txTo nIn t ! 2) = 32"
  unfolding part_hashes_nth using assms by (simp_all add: uint256_ZERO_def Hash256_def)

text \<open>
  C4.  A version 0 signature binds what its hash type covers.  If two digests agree, for any two
  transactions, inputs, script codes, amounts and hash types, then so do the version, the lock
  time, the outpoint and sequence number of the input, the script code, the amount, the hash type,
  and, as far as the hash type covers them, all outpoints, all sequence numbers and the outputs;
  or else the messages hashed on the way contain a collision of SHA-256 or a message that hashes
  to zero.
\<close>
theorem SignatureHash_v0_binding:
  assumes size: "\<And>x. length (SHA256 hs x) = 32"
    and ok: "signable tx nIn sc" and ok': "signable tx' nIn' sc'"
    and eq: "SignatureHash hs sc tx nIn t amount WITNESS_V0 None = SignatureHash hs sc' tx' nIn' t' amount' WITNESS_V0 None"
  shows "signed_view tx nIn sc amount t = signed_view tx' nIn' sc' amount' t' \<or>
    hash_clash hs (v0_messages hs sc tx nIn t amount) (v0_messages hs sc' tx' nIn' t' amount')"
proof (cases "hash_clash hs (v0_messages hs sc tx nIn t amount) (v0_messages hs sc' tx' nIn' t' amount')")
  case nc: False
  have n: "nIn < length (tx_vin tx)" "nIn' < length (tx_vin tx')"
    using ok ok' by (simp_all add: signable_def)
  have "Hash256 hs (v0_preimage hs sc tx nIn t amount) = Hash256 hs (v0_preimage hs sc' tx' nIn' t' amount')"
    using eq by (simp add: SignatureHash_v0 n)
  from hash_clash_Hash256 [OF v0_preimage_in v0_preimage_in this] nc
  have p: "v0_preimage hs sc tx nIn t amount = v0_preimage hs sc' tx' nIn' t' amount'"
    by blast
  have "outpoint_ok (txin_prevout (tx_vin tx ! nIn))" "outpoint_ok (txin_prevout (tx_vin tx' ! nIn'))"
    "length sc \<le> MAX_SIZE" "length sc' \<le> MAX_SIZE"
    using ok ok' by (auto simp: signable_def list_all_length)
  note c = segwit_preimage_inject [OF p [unfolded v0_preimage_def Let_def]
      length_part_hashes(1) [OF size] length_part_hashes(1) [OF size] length_part_hashes(2) [OF size]
      length_part_hashes(2) [OF size] length_part_hashes(3) [OF size] length_part_hashes(3) [OF size] this]
  have t: "t' = t"
    and h: "part_hashes hs tx nIn t ! 0 = part_hashes hs tx' nIn' t ! 0"
      "part_hashes hs tx nIn t ! 1 = part_hashes hs tx' nIn' t ! 1"
      "part_hashes hs tx nIn t ! 2 = part_hashes hs tx' nIn' t ! 2"
    using c by auto
  have m: "part_messages tx nIn t ! k = part_messages tx' nIn' t ! k"
    if "Hash256 hs (part_messages tx nIn t ! k) = Hash256 hs (part_messages tx' nIn' t ! k)" "k < 3" for k
    using hash_clash_Hash256 [OF part_messages_in part_messages_in] part_messages_mem that nc unfolding t by blast
  have "SHA256 hs (part_messages tx nIn t ! 2) \<in> v0_messages hs sc tx nIn t amount"
    "SHA256 hs (part_messages tx' nIn' t ! 2) \<in> v0_messages hs sc' tx' nIn' t amount'"
    using part_messages_in [OF part_messages_mem [of 2]] by simp_all
  then have z: "Hash256 hs (part_messages tx nIn t ! 2) \<noteq> uint256_ZERO" "Hash256 hs (part_messages tx' nIn' t ! 2) \<noteq> uint256_ZERO"
    using hash_clash_ZERO nc unfolding t by (metis UnI1, metis UnI2)
  have "signed_outputs tx nIn t = [] \<and> signed_outputs tx' nIn' t = [] \<or>
    part_messages tx nIn t ! 2 = part_messages tx' nIn' t ! 2"
    using h(3) m [of 2] z by (auto simp: part_hashes_nth signed_outputs_def split: if_splits)
  then have "signed_outputs tx nIn t = signed_outputs tx' nIn' t"
    using part_messages_inject(3) [OF ok ok'] by metis
  moreover have "other_inputs t \<Longrightarrow> map txin_prevout (tx_vin tx) = map txin_prevout (tx_vin tx')"
    using h(1) m [of 0] part_messages_inject(1) [OF ok ok'] unfolding part_hashes_nth by simp
  moreover have "other_sequences t \<Longrightarrow> map txin_nSequence (tx_vin tx) = map txin_nSequence (tx_vin tx')"
    using h(2) m [of 1] part_messages_inject(2) [OF ok ok'] unfolding part_hashes_nth by simp
  ultimately show ?thesis
    using c by (simp add: signed_view_def)
qed simp

definition padded_hashes :: Hashes where
  "padded_hashes = \<lparr>SHA256 = (\<lambda>x. take 32 (x @ replicate 32 1)), SHA1 = (\<lambda>x. take 20 (x @ replicate 20 1)),
    RIPEMD160 = (\<lambda>x. take 20 (x @ replicate 20 1))\<rparr>"

theorem SignatureHash_v0_binding_witness:
  "let tx' = demo_tx\<lparr>tx_vin := [hd (tx_vin demo_tx)]\<rparr> in
     signable demo_tx 0 [0x51] \<and> signable tx' 0 [0x51] \<and>
     SignatureHash padded_hashes [0x51] demo_tx 0 0x81 7 WITNESS_V0 None =
       SignatureHash padded_hashes [0x51] tx' 0 0x81 7 WITNESS_V0 None \<and>
     (signed_view demo_tx 0 [0x51] 7 0x81 = signed_view tx' 0 [0x51] 7 0x81 \<or>
      hash_clash padded_hashes (v0_messages padded_hashes [0x51] demo_tx 0 0x81 7) (v0_messages padded_hashes [0x51] tx' 0 0x81 7))"
proof -
  have size: "length (SHA256 padded_hashes x) = 32" for x
    by (simp add: padded_hashes_def)
  have ok: "signable demo_tx 0 [0x51]" "signable (demo_tx\<lparr>tx_vin := [hd (tx_vin demo_tx)]\<rparr>) 0 [0x51]"
    by (simp_all add: signable_def demo_tx_def demo_outpoint_def outpoint_ok_def txout_ok_def MAX_SIZE_def)
  have eq: "SignatureHash padded_hashes [0x51] demo_tx 0 0x81 7 WITNESS_V0 None =
    SignatureHash padded_hashes [0x51] (demo_tx\<lparr>tx_vin := [hd (tx_vin demo_tx)]\<rparr>) 0 0x81 7 WITNESS_V0 None"
    by (simp add: SignatureHash_def demo_tx_def segwit_preimage_def GetOutputsSHA256_def)
  show ?thesis
    using SignatureHash_v0_binding [OF size ok eq] ok eq by (simp only: Let_def simp_thms)
qed

end
