(* ===== verification/EvalInvariants.thy ===== *)
theory EvalInvariants
  imports Interpreter
begin

text \<open>
  Invariants of \<open>EvalScript\<close>: no \<open>assert\<close> of the interpreter fires, the limits on
  the number of operations, on the stacks and on the size of their elements hold in every state the
  loop reaches.  \<open>runs Q r\<close> is the verification condition of a step with outcome
  \<open>r\<close>: it is not a failed assertion, and a state it returns satisfies \<open>Q\<close>.
\<close>

section \<open>Verification conditions\<close>

definition runs :: "('a \<Rightarrow> bool) \<Rightarrow> ScriptError + 'a \<Rightarrow> bool" where
  "runs Q r = (case r of Inl e \<Rightarrow> e \<noteq> ASSERT_FAIL | Inr x \<Rightarrow> Q x)"

lemma runs_simps [simp]:
  "runs Q (Inl e) \<longleftrightarrow> e \<noteq> ASSERT_FAIL"
  "runs Q (Inr x) \<longleftrightarrow> Q x"
  "runs Q (bindE m f) \<longleftrightarrow> runs (\<lambda>x. runs Q (f x)) m"
  by (simp_all add: runs_def bindE_def split: sum.split)

lemma runs_mono: "runs P r \<Longrightarrow> (\<And>x. r = Inr x \<Longrightarrow> P x \<Longrightarrow> Q x) \<Longrightarrow> runs Q r"
  by (cases r) simp_all

lemma runs_case_list:
  "runs Q (case xs of [] \<Rightarrow> a | x # s \<Rightarrow> f x s) \<longleftrightarrow> (xs = [] \<longrightarrow> runs Q a) \<and> (\<forall>x s. xs = x # s \<longrightarrow> runs Q (f x s))"
  by (cases xs) simp_all

lemma runs_case_option:
  "runs Q (case z of None \<Rightarrow> a | Some x \<Rightarrow> f x) \<longleftrightarrow> (z = None \<longrightarrow> runs Q a) \<and> (\<forall>x. z = Some x \<longrightarrow> runs Q (f x))"
  by (cases z) simp_all

lemma runs_if: "runs Q (if b then x else y) \<longleftrightarrow> (b \<longrightarrow> runs Q x) \<and> (\<not> b \<longrightarrow> runs Q y)"
  by simp

lemma runs_let: "runs Q (let x = a in f x) \<longleftrightarrow> runs Q (f a)"
  by (simp add: Let_def)

lemmas runs_rules = runs_case_list runs_case_option runs_if runs_let

lemma read_num_range: "read_num env nDefaultMaxNumSize vch = Inr n \<Longrightarrow> \<bar>n\<bar> < 2 ^ 31"
  using CScriptNum_range [of vch "fRequireMinimal env" nDefaultMaxNumSize n]
  by (simp add: read_num_def nDefaultMaxNumSize_def split: sum.splits)

lemma runs_read_num [simp]: "runs Q (read_num env k vch) \<longleftrightarrow> (\<forall>n. read_num env k vch = Inr n \<longrightarrow> Q n)"
  by (auto simp: read_num_def split: sum.splits)


section \<open>The invariant\<close>

text \<open>
  The sizes of the elements are those the push rule admits: at most 520 bytes, or one of the
  quantum sizes when quantum signatures are enabled.  The hash functions return digests of their
  documented sizes.
\<close>

definition hash_sizes :: "Hashes \<Rightarrow> bool" where
  "hash_sizes hs \<longleftrightarrow>
    (\<forall>x. length (SHA256 hs x) = 32 \<and> length (SHA1 hs x) = 20 \<and> length (RIPEMD160 hs x) = 20)"

definition tapscript_ready :: "ScriptExecutionData \<Rightarrow> bool" where
  "tapscript_ready ed \<longleftrightarrow> m_codeseparator_pos ed \<noteq> None \<and> m_tapleaf_hash ed \<noteq> None \<and> m_annex ed \<noteq> None"

definition checker_ok :: "SigVersion \<Rightarrow> SignatureChecker \<Rightarrow> bool" where
  "checker_ok v c \<longleftrightarrow>
    (v = BASE \<or> v = WITNESS_V0 \<longrightarrow> (\<forall>sig key code. CheckECDSASignature c sig key code v \<noteq> Inl ASSERT_FAIL)) \<and>
    (v \<noteq> TAPROOT \<longrightarrow> (\<forall>sig key code i. CheckQuantumSignature c sig key code v i \<noteq> Inl ASSERT_FAIL)) \<and>
    (v = TAPSCRIPT \<longrightarrow> (\<forall>sig key ed. tapscript_ready ed \<and> length key = 32 \<longrightarrow>
       runs (\<lambda>ed'. \<exists>h. ed' = ed\<lparr>m_output_hash := h\<rparr>) (CheckSchnorrSignature c sig key TAPSCRIPT ed)))"

lemma tapscript_ready_simps [simp]:
  "tapscript_ready (ed\<lparr>m_validation_weight_left := w\<rparr>) = tapscript_ready ed"
  "tapscript_ready (ed\<lparr>m_output_hash := h\<rparr>) = tapscript_ready ed"
  "tapscript_ready ed \<Longrightarrow> tapscript_ready (ed\<lparr>m_codeseparator_pos := Some p\<rparr>)"
  by (simp_all add: tapscript_ready_def)

lemma checker_ok_Schnorr:
  "checker_ok TAPSCRIPT c \<Longrightarrow> tapscript_ready ed \<Longrightarrow> length key = 32 \<Longrightarrow>
   runs (\<lambda>ed'. \<exists>h. ed' = ed\<lparr>m_output_hash := h\<rparr>) (CheckSchnorrSignature c sig key TAPSCRIPT ed)"
  by (simp add: checker_ok_def)

definition execdata_ok :: "EvalEnv \<Rightarrow> ScriptExecutionData \<Rightarrow> bool" where
  "execdata_ok env ed \<longleftrightarrow> m_codeseparator_pos ed \<noteq> None \<and>
    (env_sigversion env = TAPSCRIPT \<longrightarrow> tapscript_ready ed \<and> (\<exists>w \<ge> 0. m_validation_weight_left ed = Some w))"

definition eval_inv :: "EvalEnv \<Rightarrow> EvalState \<Rightarrow> bool" where
  "eval_inv env st \<longleftrightarrow>
    list_all (push_size_ok env) (st_stack st) \<and> list_all (push_size_ok env) (st_altstack st) \<and>
    st_nOpCount st \<le> MAX_OPS_PER_SCRIPT \<and> execdata_ok env (st_execdata st)"

lemma length_serialize_9: "length (serialize v) \<le> 9"
proof -
  have "length (scriptnum_bytes w) \<le> 8" for w :: "64 word"
    using nat_bytes_length [of "unat w" 8] unat_word_less [of w] by (simp add: scriptnum_bytes_eq)
  then show ?thesis
    by (auto simp: serialize_def Let_def le_SucI intro: le_trans [OF diff_le_self] le_trans [of _ 8])
qed

lemma push_size_ok_small [simp]: "length x \<le> 520 \<Longrightarrow> push_size_ok env x"
  by (simp add: push_size_ok_def)

lemma push_size_ok_serialize [simp]: "push_size_ok env (serialize v)"
  using length_serialize_9 [of v] by simp

lemma push_size_ok_bool_vch [simp]: "push_size_ok env (bool_vch b)"
  by (simp add: bool_vch_def vchTrue_def vchFalse_def)

lemma eval_inv_set_stack [simp]:
  "eval_inv env (set_stack st s) \<longleftrightarrow> list_all (push_size_ok env) s \<and> eval_inv env (st\<lparr>st_stack := []\<rparr>)"
  by (simp add: eval_inv_def set_stack_def)

lemma eval_inv_stack:
  "eval_inv env st \<longleftrightarrow> list_all (push_size_ok env) (st_stack st) \<and> eval_inv env (st\<lparr>st_stack := []\<rparr>)"
  by (simp add: eval_inv_def)

lemma eval_inv_vfExec [simp]: "eval_inv env (st\<lparr>st_vfExec := v\<rparr>) \<longleftrightarrow> eval_inv env st"
  by (simp add: eval_inv_def)

lemma int64_range_31: "\<bar>n\<bar> < 2 ^ 31 \<Longrightarrow> int64_min < n - 1 \<and> n + 1 < int64_max \<and> int64_min < n"
  by (auto simp: int64_min_def int64_max_def)


section \<open>The opcodes keep the invariant\<close>

lemma cond_ops_defined:
  "toggle_top v = None \<longleftrightarrow> cs_empty v" "pop_back v = None \<longleftrightarrow> cs_empty v"
  by (simp_all add: toggle_top_def pop_back_def cs_empty_def Let_def word_gt_0)

lemma runs_control_ops:
  assumes "eval_inv env st"
  shows "runs (eval_inv env) (op_push_number opcode st)"
    "runs (eval_inv env) (op_checklocktimeverify env st)"
    "runs (eval_inv env) (op_checksequenceverify env st)"
    "runs (eval_inv env) (op_nop env st)"
    "runs (eval_inv env) (op_if env opcode fExec st)"
    "runs (eval_inv env) (op_else st)"
    "runs (eval_inv env) (op_endif st)"
    "runs (eval_inv env) (op_verify st)"
    "runs (eval_inv env) (op_codeseparator pc st)"
  using assms
  by (auto simp: op_defs eval_inv_def set_stack_def execdata_ok_def runs_rules cond_ops_defined
      split: list.split)

lemma runs_stack_ops:
  assumes "eval_inv env st"
  shows "runs (eval_inv env) (op_toaltstack st)"
    "runs (eval_inv env) (op_fromaltstack st)"
    "runs (eval_inv env) (op_equal opcode st)"
    "runs (eval_inv env) (op_stack (stack_op_pairs opcode) st)"
    "runs (eval_inv env) (op_stack (stack_op_single opcode) st)"
  using assms
  by (auto simp: op_defs eval_inv_def set_stack_def runs_rules split: list.splits if_splits)

lemma list_all_roll: "list_all P s \<Longrightarrow> n < length s \<Longrightarrow> P (s ! n) \<and> list_all P (take n s @ drop (n + 1) s)"
  by (auto simp: list_all_iff dest: in_set_takeD in_set_dropD)

lemma runs_pick_roll: "eval_inv env st \<Longrightarrow> runs (eval_inv env) (op_pick_roll env opcode st)"
  using list_all_roll [of "push_size_ok env"]
  by (fastforce simp: op_pick_roll_def eval_inv_def set_stack_def runs_rules nat_less_iff)

lemma unary_num_defined:
  "\<bar>n\<bar> < 2 ^ 31 \<Longrightarrow> opcode \<in> {OP_1ADD, OP_1SUB} \<union> {OP_NEGATE..OP_0NOTEQUAL} \<Longrightarrow> unary_num opcode n \<noteq> None"
  by (auto simp: unary_num_def scriptnum_add_def scriptnum_sub_def scriptnum_neg_def int64_min_def int64_max_def)

lemma binary_num_defined:
  "opcode \<in> {OP_ADD, OP_SUB} \<union> {OP_BOOLAND..OP_MAX} \<Longrightarrow> binary_num opcode n m \<noteq> None"
  by (simp add: binary_num_def) presburger

lemma runs_num_ops:
  assumes "eval_inv env st"
  shows "opcode \<in> {OP_1ADD, OP_1SUB} \<union> {OP_NEGATE..OP_0NOTEQUAL} \<Longrightarrow> runs (eval_inv env) (op_unary env opcode st)"
    "opcode \<in> {OP_ADD, OP_SUB} \<union> {OP_BOOLAND..OP_MAX} \<Longrightarrow> runs (eval_inv env) (op_binary env opcode st)"
    "runs (eval_inv env) (op_within env st)"
  using assms unary_num_defined [of _ opcode] binary_num_defined [of opcode]
  by (auto simp: op_unary_def op_binary_def op_within_def eval_inv_def set_stack_def runs_rules dest: read_num_range)

lemma runs_hash: "eval_inv env st \<Longrightarrow> hash_sizes (env_hashes env) \<Longrightarrow> runs (eval_inv env) (op_hash env opcode st)"
  by (auto simp: op_hash_def eval_inv_def set_stack_def runs_rules hash_sizes_def Hash160_def Hash256_def)

lemma CheckSignatureEncoding_no_assert [simp]: "CheckSignatureEncoding low sig flags \<noteq> Inl ASSERT_FAIL"
  by (auto simp: CheckSignatureEncoding_def IsLowDERSignature_def)

lemma CheckPubKeyEncoding_no_assert [simp]: "CheckPubKeyEncoding key flags v \<noteq> Inl ASSERT_FAIL"
  by (auto simp: CheckPubKeyEncoding_def)

lemma runs_no_assert: "r \<noteq> Inl ASSERT_FAIL \<Longrightarrow> runs Q r \<longleftrightarrow> (\<forall>x. r = Inr x \<longrightarrow> Q x)"
  by (cases r) auto

lemma EvalChecksigPreTapscript_no_assert:
  "checker_ok (env_sigversion env) (env_checker env) \<Longrightarrow> env_sigversion env = BASE \<or> env_sigversion env = WITNESS_V0 \<Longrightarrow>
   EvalChecksigPreTapscript sig key code env \<noteq> Inl ASSERT_FAIL"
  by (auto simp: EvalChecksigPreTapscript_def Let_def bindE_eq_Inl checker_ok_def split: prod.splits if_splits)

lemma EvalChecksigQuantum_no_assert:
  "checker_ok (env_sigversion env) (env_checker env) \<Longrightarrow> env_sigversion env \<noteq> TAPROOT \<Longrightarrow> EvalChecksigQuantum sig key code env \<noteq> Inl ASSERT_FAIL"
  by (auto simp: EvalChecksigQuantum_def checker_ok_def split: list.split)

lemma runs_EvalChecksigTapscript:
  assumes "env_sigversion env = TAPSCRIPT" "checker_ok (env_sigversion env) (env_checker env)" "execdata_ok env ed"
  shows "runs (\<lambda>(_, ed'). execdata_ok env ed') (EvalChecksigTapscript sig key ed env)"
  using assms
  by (auto simp: EvalChecksigTapscript_def execdata_ok_def runs_rules not_less
      intro!: runs_mono [OF checker_ok_Schnorr])

lemma runs_EvalChecksig:
  assumes "eval_inv env st" "checker_ok (env_sigversion env) (env_checker env)" "env_sigversion env \<noteq> TAPROOT"
  shows "runs (\<lambda>(_, st'). \<exists>ed. st' = st\<lparr>st_execdata := ed\<rparr> \<and> execdata_ok env ed) (EvalChecksig sig key env st)"
proof (cases "env_sigversion env")
  case TAPSCRIPT
  then show ?thesis
    using assms runs_EvalChecksigTapscript [of env "st_execdata st" sig key]
    by (auto simp: EvalChecksig_def eval_inv_def split_def elim!: runs_mono)
qed (use assms in \<open>auto simp: EvalChecksig_def eval_inv_def runs_no_assert EvalChecksigPreTapscript_no_assert
      intro!: exI [of _ "st_execdata st"]\<close>)

lemma runs_sig_ops:
  assumes "eval_inv env st" "checker_ok (env_sigversion env) (env_checker env)" "env_sigversion env \<noteq> TAPROOT"
  shows "runs (eval_inv env) (op_checksig_ex env opcode st)"
    "runs (eval_inv env) (op_checksig env opcode st)"
    "runs (eval_inv env) (op_checksigadd env st)"
proof -
  show "runs (eval_inv env) (op_checksig_ex env opcode st)"
    using assms EvalChecksigQuantum_no_assert [OF assms(2,3)]
    by (auto simp: op_checksig_ex_def eval_inv_def set_stack_def runs_rules runs_no_assert)
  show "runs (eval_inv env) (op_checksig env opcode st)" "runs (eval_inv env) (op_checksigadd env st)"
    using assms(1)
    by (auto simp: op_checksig_def op_checksigadd_def eval_inv_def set_stack_def runs_rules split_def
        intro!: runs_mono [OF runs_EvalChecksig [OF assms]])
qed

lemma multisig_delete_no_assert: "multisig_delete env sigs code \<noteq> Inl ASSERT_FAIL"
  by (induction sigs arbitrary: code) (auto split: prod.split)

lemma multisig_match_no_assert:
  "checker_ok (env_sigversion env) (env_checker env) \<Longrightarrow> env_sigversion env = BASE \<or> env_sigversion env = WITNESS_V0 \<Longrightarrow>
   length sigs \<le> length keys \<Longrightarrow> multisig_match env code sigs keys \<noteq> Inl ASSERT_FAIL"
proof (induction env code sigs keys rule: multisig_match.induct)
  case (3 env code sig sigs key keys)
  then have "CheckECDSASignature (env_checker env) sig key code (env_sigversion env) \<noteq> Inl ASSERT_FAIL"
    by (auto simp: checker_ok_def)
  then show ?case
    using 3 by (auto simp: bindE_eq_Inl Let_def split: if_splits)
qed simp_all

lemma runs_multisig_cleanup:
  "list_all P stack \<Longrightarrow> runs (list_all P) (multisig_cleanup env ok i k stack)"
  by (induction i arbitrary: k stack) (auto split: list.split)

lemma runs_checkmultisig:
  assumes "eval_inv env st" "checker_ok (env_sigversion env) (env_checker env)" "env_sigversion env \<noteq> TAPROOT"
  shows "runs (eval_inv env) (op_checkmultisig env opcode st)"
proof (cases "env_sigversion env = TAPSCRIPT")
  case False
  then have "env_sigversion env = BASE \<or> env_sigversion env = WITNESS_V0"
    using assms(3) by (cases "env_sigversion env") auto
  from multisig_match_no_assert [OF assms(2) this] show ?thesis
    using assms(1)
    by (auto simp: op_checkmultisig_def eval_inv_def runs_rules runs_no_assert multisig_delete_no_assert
        intro!: runs_mono [OF runs_multisig_cleanup])
qed (simp add: op_checkmultisig_def)

lemma runs_exec_opcode:
  assumes "eval_inv env st" "checker_ok (env_sigversion env) (env_checker env)" "env_sigversion env \<noteq> TAPROOT" "hash_sizes (env_hashes env)"
  shows "runs (eval_inv env) (exec_opcode env opcode pc fExec st)"
  unfolding exec_opcode_def
  by (simp add: assms runs_if runs_control_ops runs_stack_ops runs_pick_roll runs_num_ops runs_hash runs_sig_ops runs_checkmultisig)


section \<open>The loop\<close>

lemma runs_exec_instruction:
  assumes "eval_inv env st" "checker_ok (env_sigversion env) (env_checker env)" "env_sigversion env \<noteq> TAPROOT" "hash_sizes (env_hashes env)"
    "push_size_ok env vch"
  shows "runs (eval_inv env) (exec_instruction env opcode vch pc st)"
  using assms
  by (simp add: exec_instruction_def Let_def runs_rules runs_exec_opcode) (simp add: eval_inv_def)

lemma runs_EvalScript_step:
  assumes "eval_inv env st" "checker_ok (env_sigversion env) (env_checker env)" "env_sigversion env \<noteq> TAPROOT" "hash_sizes (env_hashes env)"
  shows "runs (\<lambda>st'. eval_inv env st' \<and> length (st_stack st') + length (st_altstack st') \<le> MAX_STACK_SIZE)
           (EvalScript_step env opcode vch pc st)"
proof -
  have "eval_inv env (st\<lparr>st_nOpCount := n\<rparr>)" if "n \<le> MAX_OPS_PER_SCRIPT" for n
    using assms(1) that by (simp add: eval_inv_def)
  moreover have "st_nOpCount st \<le> MAX_OPS_PER_SCRIPT"
    using assms(1) by (simp add: eval_inv_def)
  ultimately show ?thesis
    using assms(1) unfolding EvalScript_step_def Let_def
    by (simp add: runs_rules not_less) (auto intro!: runs_mono [OF runs_exec_instruction [OF _ assms(2-4)]])
qed

inductive eval_reaches :: "EvalEnv \<Rightarrow> valtype \<Rightarrow> EvalState \<Rightarrow> valtype \<Rightarrow> EvalState \<Rightarrow> bool" for env where
  reaches_refl: "eval_reaches env pc st pc st"
| reaches_step: "eval_reaches env pc0 st0 pc st \<Longrightarrow> pc \<noteq> [] \<Longrightarrow> GetOp pc = Some (opcode, vch, pc') \<Longrightarrow>
    EvalScript_step env opcode vch pc' st = Inr st' \<Longrightarrow>
    eval_reaches env pc0 st0 pc' (st'\<lparr>st_opcode_pos := st_opcode_pos st' + 1\<rparr>)"

text \<open>The loop runs through the reachable states to the end of the script, or stops in one of them with an error.\<close>

lemma eval_reaches_trans:
  "eval_reaches env pc1 st1 pc2 st2 \<Longrightarrow> eval_reaches env pc0 st0 pc1 st1 \<Longrightarrow> eval_reaches env pc0 st0 pc2 st2"
  by (induction rule: eval_reaches.induct) (auto intro: eval_reaches.intros)

lemma EvalScript_loop_reaches:
  "EvalScript_loop env pc st = Inr st' \<Longrightarrow> eval_reaches env pc st [] st'"
proof (induction env pc st rule: EvalScript_loop.induct)
  case (1 env pc st)
  show ?case
  proof (cases "pc = []")
    case True
    then show ?thesis
      using "1.prems" by (simp add: EvalScript_loop.simps reaches_refl)
  next
    case False
    then obtain opcode vch pc' st1 where
      g: "GetOp pc = Some (opcode, vch, pc')" "EvalScript_step env opcode vch pc' st = Inr st1"
      "EvalScript_loop env pc' (st1\<lparr>st_opcode_pos := st_opcode_pos st1 + 1\<rparr>) = Inr st'"
      using "1.prems" by (subst (asm) EvalScript_loop.simps) (auto simp: bindE_eq_Inr split: option.splits)
    then show ?thesis
      using "1.IH" [OF False g(1) refl refl g(2,3)] False
      by (blast intro: eval_reaches_trans reaches_step reaches_refl)
  qed
qed

definition stack_limits :: "EvalState \<Rightarrow> bool" where
  "stack_limits st \<longleftrightarrow> length (st_stack st) + length (st_altstack st) \<le> MAX_STACK_SIZE"

lemma eval_inv_pos [simp]: "eval_inv env (st\<lparr>st_opcode_pos := n\<rparr>) \<longleftrightarrow> eval_inv env st"
  by (simp add: eval_inv_def)

lemma eval_reaches_inv:
  assumes "eval_reaches env pc0 st0 pc st" "checker_ok (env_sigversion env) (env_checker env)" "env_sigversion env \<noteq> TAPROOT"
    "hash_sizes (env_hashes env)" "eval_inv env st0" "stack_limits st0"
  shows "eval_inv env st \<and> stack_limits st"
  using assms
proof (induction rule: eval_reaches.induct)
  case (reaches_step pc0 st0 pc st opcode vch pc' st')
  then show ?case
    using runs_EvalScript_step [of env st opcode vch pc'] by (simp add: stack_limits_def)
qed simp

lemma EvalScript_loop_no_assert:
  assumes "checker_ok (env_sigversion env) (env_checker env)" "env_sigversion env \<noteq> TAPROOT" "hash_sizes (env_hashes env)" "eval_inv env st"
  shows "EvalScript_loop env pc st \<noteq> Inl ASSERT_FAIL"
  using assms
proof (induction env pc st rule: EvalScript_loop.induct)
  case (1 env pc st)
  have "bindE (EvalScript_step env opcode vch pc' st)
      (\<lambda>st. EvalScript_loop env pc' (st\<lparr>st_opcode_pos := st_opcode_pos st + 1\<rparr>)) \<noteq> Inl ASSERT_FAIL"
    if "pc \<noteq> []" "GetOp pc = Some (opcode, vch, pc')" for opcode vch pc'
    using 1(1) [OF that refl refl] 1(2-5) runs_EvalScript_step [of env st opcode vch pc']
    by (cases "EvalScript_step env opcode vch pc' st") auto
  then show ?case
    by (subst EvalScript_loop.simps) (auto split: option.split)
qed

lemma init_state_ok:
  assumes "env_sigversion env = TAPSCRIPT \<longrightarrow>
      m_tapleaf_hash ed \<noteq> None \<and> m_annex ed \<noteq> None \<and> (\<exists>w \<ge> 0. m_validation_weight_left ed = Some w)"
    "list_all (push_size_ok env) stack"
  shows "eval_inv env (init_state stack script ed)"
  using assms by (auto simp: eval_inv_def init_state_def execdata_ok_def tapscript_ready_def)


section \<open>Properties\<close>

definition eval_pre :: "EvalEnv \<Rightarrow> valtype list \<Rightarrow> ScriptExecutionData \<Rightarrow> bool" where
  "eval_pre env stack ed \<longleftrightarrow>
    checker_ok (env_sigversion env) (env_checker env) \<and> hash_sizes (env_hashes env) \<and> env_sigversion env \<noteq> TAPROOT \<and>
    (env_sigversion env = TAPSCRIPT \<longrightarrow>
       m_tapleaf_hash ed \<noteq> None \<and> m_annex ed \<noteq> None \<and> (\<exists>w \<ge> 0. m_validation_weight_left ed = Some w)) \<and>
    list_all (push_size_ok env) stack \<and> length stack \<le> MAX_STACK_SIZE"


text \<open>A script that duplicates and hashes its argument, run with a checker that rejects all.\<close>

definition demo_hashes :: Hashes where
  "demo_hashes = \<lparr>SHA256 = (\<lambda>x. replicate 32 0), SHA1 = (\<lambda>x. replicate 20 0), RIPEMD160 = (\<lambda>x. replicate 20 0)\<rparr>"

definition demo_env :: "script_flags \<Rightarrow> SigVersion \<Rightarrow> EvalEnv" where
  "demo_env flags sigversion = \<lparr>env_flags = flags, env_checker = BaseSignatureChecker, env_sigversion = sigversion,
     env_hashes = demo_hashes, env_CheckLowS = (\<lambda>_. True)\<rparr>"

lemma demo_eval_pre: "length x \<le> 520 \<Longrightarrow> sigversion \<in> {BASE, WITNESS_V0} \<Longrightarrow> eval_pre (demo_env flags sigversion) [x] ed"
  by (auto simp: eval_pre_def demo_env_def checker_ok_def hash_sizes_def demo_hashes_def BaseSignatureChecker_def)

lemma demo_reaches:
  "eval_reaches (demo_env 0 BASE) [118, 168] (init_state [[5]] [118, 168] empty_execdata) [168]
     ((init_state [[5], [5]] [118, 168] empty_execdata)\<lparr>st_nOpCount := 1, st_opcode_pos := 1\<rparr>)"
  using reaches_step [OF reaches_refl, of "[118, 168]" OP_DUP "[]" "[168]" "demo_env 0 BASE" "init_state [[5]] [118, 168] empty_execdata"
      "(init_state [[5], [5]] [118, 168] empty_execdata)\<lparr>st_nOpCount := 1\<rparr>"]
  by (simp add: GetOp_def GetScriptOp_def EvalScript_step_def Let_def push_size_ok_def disabled_opcode_def exec_instruction_def
      exec_opcode_def op_stack_def stack_op_single_def set_stack_def init_state_def all_true_def cs_init_def demo_env_def)




end
