(* ===== verification/Checker.thy ===== *)
theory Checker
  imports Sighash QuantumKey EvalInvariants
begin

text \<open>
  The checker that verifies the signatures and lock times of one input of a transaction:
  \<open>GenericTransactionSignatureChecker\<close> (\<open>src/script/interpreter.h\<close>, lines 298--320;
  \<open>src/script/interpreter.cpp\<close>, lines 1805--2021).  libsecp256k1 and liboqs enter through
  \<open>crypto\<close> and \<open>XOnlyPubKey_ops\<close>.
\<close>

section \<open>The checker\<close>

record XOnlyPubKey_ops =
  VerifySchnorr :: "valtype \<Rightarrow> uint256 \<Rightarrow> valtype \<Rightarrow> bool"
  CheckTapTweak :: "valtype \<Rightarrow> valtype \<Rightarrow> uint256 \<Rightarrow> bool \<Rightarrow> bool"

record TransactionChecker =
  ck_txTo :: CTransaction
  ck_mdb :: MissingDataBehavior
  ck_nIn :: nat
  ck_amount :: CAmount
  ck_txdata :: "PrecomputedTransactionData option"

record verify_ops =
  vo_crypto :: crypto
  vo_xonly :: XOnlyPubKey_ops
  vo_hashes :: Hashes
  vo_CheckLowS :: "valtype \<Rightarrow> bool"

definition missing_amount :: "TransactionChecker \<Rightarrow> SigVersion \<Rightarrow> bool" where
  "missing_amount ck sigversion = (sigversion = WITNESS_V0 \<and> sint (ck_amount ck) < 0)"

definition ck_SignatureHash :: "verify_ops \<Rightarrow> TransactionChecker \<Rightarrow> CScript \<Rightarrow> byte \<Rightarrow> SigVersion \<Rightarrow> ScriptError + uint256" where
  "ck_SignatureHash ops ck scriptCode nHashType sigversion =
    SignatureHash (vo_hashes ops) scriptCode (ck_txTo ck) (ck_nIn ck) (ucast nHashType) (ck_amount ck) sigversion (ck_txdata ck)"

definition Generic_CheckECDSASignature ::
  "verify_ops \<Rightarrow> TransactionChecker \<Rightarrow> valtype \<Rightarrow> valtype \<Rightarrow> CScript \<Rightarrow> SigVersion \<Rightarrow> ScriptError + bool" where
  "Generic_CheckECDSASignature ops ck vchSigIn vchPubKey scriptCode sigversion =
    (let pubkey = CPubKey_Set vchPubKey in
     if \<not> CPubKey_IsValid pubkey then Inr False
     else if vchSigIn = [] then Inr False
     else let nHashType = last vchSigIn; vchSig = butlast vchSigIn in
       if missing_amount ck sigversion then HandleMissingData (ck_mdb ck)
       else bindE (ck_SignatureHash ops ck scriptCode nHashType sigversion) (\<lambda>sighash.
         Inr (CPubKey_Verify (cr_ecdsa (vo_crypto ops)) pubkey sighash vchSig)))"

text \<open>
  When data is missing and that is not an assertion, the check returns false without setting an
  error; the caller has set \<open>SCRIPT_ERR_UNKNOWN_ERROR\<close> before.
\<close>

definition Generic_CheckSchnorrSignature ::
  "verify_ops \<Rightarrow> TransactionChecker \<Rightarrow> valtype \<Rightarrow> valtype \<Rightarrow> SigVersion \<Rightarrow> ScriptExecutionData \<Rightarrow> ScriptError + ScriptExecutionData" where
  "Generic_CheckSchnorrSignature ops ck sig pubkey_in sigversion execdata =
    (if \<not> (sigversion = TAPROOT \<or> sigversion = TAPSCRIPT) then Inl ASSERT_FAIL
     else if length pubkey_in \<noteq> 32 then Inl ASSERT_FAIL
     else if length sig \<noteq> 64 \<and> length sig \<noteq> 65 then Inl SCRIPT_ERR_SCHNORR_SIG_SIZE
     else if length sig = 65 \<and> last sig = SIGHASH_DEFAULT then Inl SCRIPT_ERR_SCHNORR_SIG_HASHTYPE
     else
       let hashtype = (if length sig = 65 then last sig else SIGHASH_DEFAULT);
           sig = (if length sig = 65 then butlast sig else sig) in
       case ck_txdata ck of
         None \<Rightarrow> bindE (HandleMissingData (ck_mdb ck)) (\<lambda>_. Inl SCRIPT_ERR_UNKNOWN_ERROR)
       | Some txdata \<Rightarrow>
           bindE (SignatureHashSchnorr (vo_hashes ops) execdata (ck_txTo ck) (ck_nIn ck) hashtype sigversion txdata (ck_mdb ck))
             (\<lambda>r. case r of
                None \<Rightarrow> Inl SCRIPT_ERR_SCHNORR_SIG_HASHTYPE
              | Some (sighash, execdata) \<Rightarrow>
                  if \<not> VerifySchnorr (vo_xonly ops) pubkey_in sighash sig then Inl SCRIPT_ERR_SCHNORR_SIG
                  else Inr execdata))"

definition Generic_CheckQuantumSignature ::
  "verify_ops \<Rightarrow> TransactionChecker \<Rightarrow> valtype \<Rightarrow> valtype \<Rightarrow> CScript \<Rightarrow> SigVersion \<Rightarrow> byte \<Rightarrow> ScriptError + bool" where
  "Generic_CheckQuantumSignature ops ck vchSig vchPubKey scriptCode sigversion scheme =
    (case (if scheme = SCHEME_ML_DSA_65 then Some ML_DSA_65
           else if scheme = SCHEME_SLH_DSA_192F then Some SLH_DSA_192F
           else None) of
       None \<Rightarrow> Inr False
     | Some keyType \<Rightarrow>
         let pubkey = \<lparr>pk_type = keyType, pk_data = vchPubKey\<rparr> in
         if \<not> CQuantumPubKey_IsValid pubkey then Inr False
         else if vchSig = [] then Inr False
         else
           let vchSigNoAlgoId = (if hd vchSig = scheme then tl vchSig else vchSig);
               nHashType = (if vchSigNoAlgoId \<noteq> [] then last vchSigNoAlgoId else SIGHASH_ALL);
               vchSigNoHashType = butlast vchSigNoAlgoId in
           if missing_amount ck sigversion then HandleMissingData (ck_mdb ck)
           else bindE (ck_SignatureHash ops ck scriptCode nHashType sigversion) (\<lambda>sighash.
             Inr (key_Verify (vo_crypto ops) sighash vchSigNoHashType pubkey)))"

definition LOCKTIME_THRESHOLD :: int where
  "LOCKTIME_THRESHOLD = 500000000"

definition Generic_CheckLockTime :: "TransactionChecker \<Rightarrow> int \<Rightarrow> bool" where
  "Generic_CheckLockTime ck nLockTime =
    (let txLockTime = uint (tx_nLockTime (ck_txTo ck)) in
     if \<not> (txLockTime < LOCKTIME_THRESHOLD \<and> nLockTime < LOCKTIME_THRESHOLD \<or>
           txLockTime \<ge> LOCKTIME_THRESHOLD \<and> nLockTime \<ge> LOCKTIME_THRESHOLD) then False
     else if nLockTime > txLockTime then False
     else if SEQUENCE_FINAL = txin_nSequence (tx_vin (ck_txTo ck) ! ck_nIn ck) then False
     else True)"

definition Generic_CheckSequence :: "TransactionChecker \<Rightarrow> int \<Rightarrow> bool" where
  "Generic_CheckSequence ck nSequence =
    (let txToSequence = uint (txin_nSequence (tx_vin (ck_txTo ck) ! ck_nIn ck)) in
     if tx_version (ck_txTo ck) < 2 then False
     else if txToSequence AND uint SEQUENCE_LOCKTIME_DISABLE_FLAG \<noteq> 0 then False
     else
       let nLockTimeMask = uint (SEQUENCE_LOCKTIME_TYPE_FLAG OR SEQUENCE_LOCKTIME_MASK);
           txToSequenceMasked = txToSequence AND nLockTimeMask;
           nSequenceMasked = nSequence AND nLockTimeMask in
       if \<not> (txToSequenceMasked < uint SEQUENCE_LOCKTIME_TYPE_FLAG \<and> nSequenceMasked < uint SEQUENCE_LOCKTIME_TYPE_FLAG \<or>
             txToSequenceMasked \<ge> uint SEQUENCE_LOCKTIME_TYPE_FLAG \<and> nSequenceMasked \<ge> uint SEQUENCE_LOCKTIME_TYPE_FLAG)
       then False
       else if nSequenceMasked > txToSequenceMasked then False
       else True)"

definition GenericTransactionSignatureChecker :: "verify_ops \<Rightarrow> TransactionChecker \<Rightarrow> SignatureChecker" where
  "GenericTransactionSignatureChecker ops ck =
    \<lparr>CheckECDSASignature = Generic_CheckECDSASignature ops ck,
     CheckSchnorrSignature = Generic_CheckSchnorrSignature ops ck,
     CheckLockTime = Generic_CheckLockTime ck,
     CheckSequence = Generic_CheckSequence ck,
     CheckQuantumSignature = Generic_CheckQuantumSignature ops ck\<rparr>"


section \<open>No assertion of the checker fires\<close>

text \<open>
  The data the checker needs: the input exists, and unless missing data is merely a failure, the
  amount is known and, for Schnorr signatures, the hashes over the spent outputs are prepared.
\<close>

definition amount_known :: "TransactionChecker \<Rightarrow> bool" where
  "amount_known ck = (ck_nIn ck < length (tx_vin (ck_txTo ck)) \<and> (ck_mdb ck = MDB_FAIL \<or> sint (ck_amount ck) \<ge> 0))"

definition spent_outputs_known :: "TransactionChecker \<Rightarrow> bool" where
  "spent_outputs_known ck = (ck_mdb ck = MDB_FAIL \<or>
    (\<exists>d. ck_txdata ck = Some d \<and> m_bip341_taproot_ready d \<and> m_spent_outputs_ready d))"

lemma SignatureHash_no_assert: "nIn < length (tx_vin tx) \<Longrightarrow> \<exists>h. SignatureHash hs sc tx nIn t amount v cache = Inr h"
  by (auto simp: SignatureHash_def Let_def)

lemma HandleMissingData_FAIL: "HandleMissingData m = Inl e \<Longrightarrow> m = MDB_ASSERT_FAIL"
  by (cases m) auto

lemma Generic_pre_tapscript_no_assert:
  assumes "amount_known ck"
  shows "Generic_CheckECDSASignature ops ck sig key code v \<noteq> Inl e"
    and "Generic_CheckQuantumSignature ops ck sig key code v i \<noteq> Inl e"
proof -
  have h: "ck_SignatureHash ops ck code t v \<noteq> Inl e" for t
    using assms SignatureHash_no_assert unfolding amount_known_def ck_SignatureHash_def by (metis Inr_not_Inl)
  have m: "missing_amount ck v \<Longrightarrow> HandleMissingData (ck_mdb ck) \<noteq> Inl e"
    using assms HandleMissingData_FAIL by (auto simp: amount_known_def missing_amount_def)
  show "Generic_CheckECDSASignature ops ck sig key code v \<noteq> Inl e"
    using m h by (simp add: Generic_CheckECDSASignature_def Let_def bindE_eq_Inl)
  show "Generic_CheckQuantumSignature ops ck sig key code v i \<noteq> Inl e"
    using m h by (simp add: Generic_CheckQuantumSignature_def Let_def bindE_eq_Inl)
qed

lemma SignatureHashSchnorr_no_assert:
  assumes "nIn < length (tx_vin tx)" "m_annex ed \<noteq> None"
    "mdb = MDB_FAIL \<or> m_bip341_taproot_ready d \<and> m_spent_outputs_ready d"
    "v = TAPROOT \<or> v = TAPSCRIPT \<and> tapscript_ready ed"
  shows "runs (\<lambda>r. \<forall>h ed'. r = Some (h, ed') \<longrightarrow> (\<exists>o'. ed' = ed\<lparr>m_output_hash := o'\<rparr>))
    (SignatureHashSchnorr hs ed tx nIn t v d mdb)"
proof -
  have "\<exists>o'. ed = ed\<lparr>m_output_hash := o'\<rparr>"
    by (rule exI [of _ "m_output_hash ed"]) simp
  then show ?thesis
    using assms
    by (auto simp: SignatureHashSchnorr_def Let_def runs_rules tapscript_ready_def split: option.splits)
qed

lemma runs_case_Some:
  assumes "runs (\<lambda>r. \<forall>h x. r = Some (h, x) \<longrightarrow> P x) m" and "e \<noteq> ASSERT_FAIL" "e' \<noteq> ASSERT_FAIL"
  shows "runs (\<lambda>r. runs P (case r of None \<Rightarrow> Inl e | Some (h, x) \<Rightarrow> if \<not> b h then Inl e' else Inr x)) m"
  using assms by (cases m) (auto split: option.split)

lemma Generic_Schnorr_no_assert:
  assumes "ck_nIn ck < length (tx_vin (ck_txTo ck))" "spent_outputs_known ck" "m_annex ed \<noteq> None" "length key = 32"
    "v = TAPROOT \<or> v = TAPSCRIPT \<and> tapscript_ready ed"
  shows "runs (\<lambda>ed'. \<exists>h. ed' = ed\<lparr>m_output_hash := h\<rparr>) (Generic_CheckSchnorrSignature ops ck sig key v ed)"
proof -
  have "runs (\<lambda>r. \<forall>h ed'. r = Some (h, ed') \<longrightarrow> (\<exists>o'. ed' = ed\<lparr>m_output_hash := o'\<rparr>))
      (SignatureHashSchnorr (vo_hashes ops) ed (ck_txTo ck) (ck_nIn ck) t v d (ck_mdb ck))" if "ck_txdata ck = Some d" for t d
    using assms that by (intro SignatureHashSchnorr_no_assert) (auto simp: spent_outputs_known_def)
  note schnorr = runs_case_Some [OF this]
  show ?thesis
  proof (cases "ck_txdata ck")
    case None
    then show ?thesis
      using assms by (auto simp: Generic_CheckSchnorrSignature_def Let_def runs_rules spent_outputs_known_def)
  next
    case (Some d)
    then show ?thesis
      using assms schnorr [OF Some, of SCRIPT_ERR_SCHNORR_SIG_HASHTYPE SCRIPT_ERR_SCHNORR_SIG "\<lambda>h. VerifySchnorr (vo_xonly ops) key h sig" 0]
        schnorr [OF Some, of SCRIPT_ERR_SCHNORR_SIG_HASHTYPE SCRIPT_ERR_SCHNORR_SIG "\<lambda>h. VerifySchnorr (vo_xonly ops) key h (butlast sig)" "last sig"]
      by (auto simp: Generic_CheckSchnorrSignature_def Let_def runs_rules)
  qed
qed

lemma Generic_checker_ok:
  assumes "amount_known ck" "v = TAPSCRIPT \<longrightarrow> spent_outputs_known ck"
  shows "checker_ok v (GenericTransactionSignatureChecker ops ck)"
  using assms Generic_Schnorr_no_assert [of ck] Generic_pre_tapscript_no_assert [OF assms(1)]
  by (auto simp: checker_ok_def GenericTransactionSignatureChecker_def amount_known_def tapscript_ready_def)

end
