(* ===== verification/Solver.thy ===== *)
theory Solver
  imports QuantumKey
begin

text \<open>
  The output script templates: \<open>src/script/solver.h\<close>, \<open>src/script/solver.cpp\<close>
  (\<open>Solver\<close> and its matchers) and the destinations of \<open>src/addresstype.h\<close>,
  \<open>src/addresstype.cpp\<close>.
\<close>

section \<open>Matching output scripts\<close>

datatype TxoutType =
  NONSTANDARD | ANCHOR | PUBKEY | PUBKEYHASH | SCRIPTHASH | MULTISIG | NULL_DATA
| WITNESS_V0_SCRIPTHASH | WITNESS_V0_KEYHASH | WITNESS_V1_TAPROOT | WITNESS_UNKNOWN

primrec GetTxnOutputType :: "TxoutType \<Rightarrow> string" where
  "GetTxnOutputType NONSTANDARD = ''nonstandard''"
| "GetTxnOutputType PUBKEY = ''pubkey''"
| "GetTxnOutputType PUBKEYHASH = ''pubkeyhash''"
| "GetTxnOutputType SCRIPTHASH = ''scripthash''"
| "GetTxnOutputType MULTISIG = ''multisig''"
| "GetTxnOutputType NULL_DATA = ''nulldata''"
| "GetTxnOutputType ANCHOR = ''anchor''"
| "GetTxnOutputType WITNESS_V0_KEYHASH = ''witness_v0_keyhash''"
| "GetTxnOutputType WITNESS_V0_SCRIPTHASH = ''witness_v0_scripthash''"
| "GetTxnOutputType WITNESS_V1_TAPROOT = ''witness_v1_taproot''"
| "GetTxnOutputType WITNESS_UNKNOWN = ''witness_unknown''"

abbreviation (input) WITNESS_V0_SCRIPTHASH_SIZE :: nat where "WITNESS_V0_SCRIPTHASH_SIZE \<equiv> 32"
abbreviation (input) WITNESS_V0_KEYHASH_SIZE :: nat where "WITNESS_V0_KEYHASH_SIZE \<equiv> 20"
abbreviation (input) WITNESS_V1_TAPROOT_SIZE :: nat where "WITNESS_V1_TAPROOT_SIZE \<equiv> 32"
abbreviation (input) MAX_PUBKEYS_PER_MULTI_A :: nat where "MAX_PUBKEYS_PER_MULTI_A \<equiv> 999"
abbreviation (input) CPubKey_SIZE :: nat where "CPubKey_SIZE \<equiv> 65"
abbreviation (input) CPubKey_COMPRESSED_SIZE :: nat where "CPubKey_COMPRESSED_SIZE \<equiv> 33"

definition IsPushdataOp :: "opcodetype \<Rightarrow> bool" where
  "IsPushdataOp opcode = (opcode > OP_0 \<and> opcode \<le> OP_PUSHDATA4)"

definition MatchPayToPubkey :: "valtype \<Rightarrow> valtype option" where
  "MatchPayToPubkey script =
    (if length script = CPubKey_SIZE + 2 \<and> unat (script ! 0) = CPubKey_SIZE \<and> unat (last script) = OP_CHECKSIG then
       (let pubkey = take CPubKey_SIZE (drop 1 script) in if CPubKey_ValidSize pubkey then Some pubkey else None)
     else if length script = CPubKey_COMPRESSED_SIZE + 2 \<and> unat (script ! 0) = CPubKey_COMPRESSED_SIZE \<and>
             unat (last script) = OP_CHECKSIG then
       (let pubkey = take CPubKey_COMPRESSED_SIZE (drop 1 script) in
        if CPubKey_ValidSize pubkey then Some pubkey else None)
     else None)"

definition MatchPayToPubkeyHash :: "valtype \<Rightarrow> valtype option" where
  "MatchPayToPubkeyHash script =
    (if length script = 25 \<and> unat (script ! 0) = OP_DUP \<and> unat (script ! 1) = OP_HASH160 \<and> script ! 2 = 20 \<and>
        unat (script ! 23) = OP_EQUALVERIFY \<and> unat (script ! 24) = OP_CHECKSIG
     then Some (take 20 (drop 3 script)) else None)"

definition IsSmallInteger :: "opcodetype \<Rightarrow> bool" where
  "IsSmallInteger opcode = (opcode \<ge> OP_1 \<and> opcode \<le> OP_16)"

definition GetScriptNumber :: "opcodetype \<Rightarrow> valtype \<Rightarrow> int \<Rightarrow> int \<Rightarrow> int option" where
  "GetScriptNumber opcode data mn mx =
    (case (if IsSmallInteger opcode then Some (int (DecodeOP_N opcode))
           else if IsPushdataOp opcode then
             (if \<not> CheckMinimalPush data opcode then None
              else case CScriptNum data True nDefaultMaxNumSize of Inl _ \<Rightarrow> None | Inr n \<Rightarrow> Some (getint n))
           else None) of
       None \<Rightarrow> None
     | Some count \<Rightarrow> if count < mn \<or> count > mx then None else Some count)"

text \<open>
  The loop of \<open>MatchMultisig\<close> over the keys; it ends with the first instruction that does
  not push a key.  When there is none, the opcode is \<open>OP_INVALIDOPCODE\<close> and the script
  does not match.
\<close>

function multisig_keys :: "valtype list \<Rightarrow> valtype \<Rightarrow> (opcodetype \<times> valtype \<times> valtype \<times> valtype list) option" where
  "multisig_keys pubkeys it = (case GetOp it of
     None \<Rightarrow> None
   | Some (opcode, data, it') \<Rightarrow>
       if CPubKey_ValidSize data then multisig_keys (pubkeys @ [data]) it' else Some (opcode, data, it', pubkeys))"
  by auto
termination
  by (relation "measure (\<lambda>(_, it). length it)") (auto dest: GetOp_length)

declare multisig_keys.simps [simp del]

definition MatchMultisig :: "valtype \<Rightarrow> (int \<times> valtype list) option" where
  "MatchMultisig script =
    (if length script < 1 \<or> unat (last script) \<noteq> OP_CHECKMULTISIG then None
     else case GetOp script of
       None \<Rightarrow> None
     | Some (opcode, data, it) \<Rightarrow>
         (case GetScriptNumber opcode data 1 (int MAX_PUBKEYS_PER_MULTISIG) of
            None \<Rightarrow> None
          | Some required_sigs \<Rightarrow>
              (case multisig_keys [] it of
                 None \<Rightarrow> None
               | Some (opcode, data, it, pubkeys) \<Rightarrow>
                   (case GetScriptNumber opcode data required_sigs (int MAX_PUBKEYS_PER_MULTISIG) of
                      None \<Rightarrow> None
                    | Some num_keys \<Rightarrow>
                        if int (length pubkeys) \<noteq> num_keys then None
                        else if length it = 1 then Some (required_sigs, pubkeys) else None))))"

fun multi_a_keys :: "valtype list \<Rightarrow> valtype \<Rightarrow> (valtype \<times> valtype list) option" where
  "multi_a_keys keyspans it =
    (if length it \<ge> 34 then
       (if it ! 0 \<noteq> 32 then None
        else let keyspans = keyspans @ [take 32 (drop 1 it)] in
          if unat (it ! 33) \<noteq> (if length keyspans = 1 then OP_CHECKSIG else OP_CHECKSIGADD) then None
          else multi_a_keys keyspans (drop 34 it))
     else Some (it, keyspans))"

declare multi_a_keys.simps [simp del]

definition MatchMultiA :: "valtype \<Rightarrow> (int \<times> valtype list) option" where
  "MatchMultiA script =
    (if length script = 0 \<or> script ! 0 \<noteq> 32 \<or> unat (last script) \<noteq> OP_NUMEQUAL then None
     else case multi_a_keys [] script of
       None \<Rightarrow> None
     | Some (it, keyspans) \<Rightarrow>
         if length keyspans = 0 \<or> length keyspans > MAX_PUBKEYS_PER_MULTI_A then None
         else case GetOp it of
           None \<Rightarrow> None
         | Some (opcode, data, it) \<Rightarrow>
             if it = [] then None
             else if unat (it ! 0) \<noteq> OP_NUMEQUAL then None
             else if drop 1 it \<noteq> [] then None
             else (case GetScriptNumber opcode data 1 (int (length keyspans)) of
               None \<Rightarrow> None
             | Some threshold \<Rightarrow> Some (threshold, keyspans)))"

definition Solver :: "valtype \<Rightarrow> TxoutType \<times> valtype list" where
  "Solver scriptPubKey =
    (if IsPayToScriptHash scriptPubKey then (SCRIPTHASH, [take 20 (drop 2 scriptPubKey)])
     else case IsWitnessProgram scriptPubKey of
       Some (witnessversion, witnessprogram) \<Rightarrow>
         if witnessversion = 0 \<and> length witnessprogram = WITNESS_V0_KEYHASH_SIZE
           then (WITNESS_V0_KEYHASH, [witnessprogram])
         else if witnessversion = 0 \<and> length witnessprogram = WITNESS_V0_SCRIPTHASH_SIZE
           then (WITNESS_V0_SCRIPTHASH, [witnessprogram])
         else if witnessversion = 1 \<and> length witnessprogram = WITNESS_V1_TAPROOT_SIZE
           then (WITNESS_V1_TAPROOT, [witnessprogram])
         else if IsPayToAnchor scriptPubKey then (ANCHOR, [])
         else if witnessversion \<noteq> 0 then (WITNESS_UNKNOWN, [[of_nat witnessversion], witnessprogram])
         else (NONSTANDARD, [])
     | None \<Rightarrow>
         if length scriptPubKey \<ge> 1 \<and> unat (scriptPubKey ! 0) = OP_RETURN \<and> IsPushOnly (drop 1 scriptPubKey)
           then (NULL_DATA, [])
         else case MatchPayToPubkey scriptPubKey of
           Some data \<Rightarrow> (PUBKEY, [data])
         | None \<Rightarrow>
             (case MatchPayToPubkeyHash scriptPubKey of
                Some data \<Rightarrow> (PUBKEYHASH, [data])
              | None \<Rightarrow>
                  (case MatchMultisig scriptPubKey of
                     Some (required, keys) \<Rightarrow>
                       (MULTISIG, [[word_of_int required]] @ keys @ [[of_nat (length keys)]])
                   | None \<Rightarrow> (NONSTANDARD, []))))"

definition GetScriptForRawPubKey :: "valtype \<Rightarrow> valtype" where
  "GetScriptForRawPubKey pubKey = push_data pubKey @ push_opcode OP_CHECKSIG"

definition GetScriptForMultisig :: "int \<Rightarrow> valtype list \<Rightarrow> valtype" where
  "GetScriptForMultisig nRequired keys =
    push_int64 nRequired @ concat (map push_data keys) @ push_int64 (int (length keys)) @ push_opcode OP_CHECKMULTISIG"


section \<open>Destinations\<close>

datatype CTxDestination =
  CNoDestination valtype
| PubKeyDestination valtype
| PKHash valtype
| ScriptHash valtype
| WitnessV0ScriptHash valtype
| WitnessV0KeyHash valtype
| WitnessV1Taproot valtype
| PayToAnchor
| WitnessUnknown nat valtype

definition ExtractDestination :: "valtype \<Rightarrow> bool \<times> CTxDestination" where
  "ExtractDestination scriptPubKey =
    (case Solver scriptPubKey of (whichType, vSolutions) \<Rightarrow>
      (case whichType of
         PUBKEY \<Rightarrow>
           (let pubKey = CPubKey_Set (vSolutions ! 0) in
            if \<not> CPubKey_IsValid pubKey then (False, CNoDestination scriptPubKey)
            else (False, PubKeyDestination pubKey))
       | PUBKEYHASH \<Rightarrow> (True, PKHash (vSolutions ! 0))
       | SCRIPTHASH \<Rightarrow> (True, ScriptHash (vSolutions ! 0))
       | WITNESS_V0_KEYHASH \<Rightarrow> (True, WitnessV0KeyHash (vSolutions ! 0))
       | WITNESS_V0_SCRIPTHASH \<Rightarrow> (True, WitnessV0ScriptHash (vSolutions ! 0))
       | WITNESS_V1_TAPROOT \<Rightarrow> (True, WitnessV1Taproot (vSolutions ! 0))
       | ANCHOR \<Rightarrow> (True, PayToAnchor)
       | WITNESS_UNKNOWN \<Rightarrow> (True, WitnessUnknown (unat (vSolutions ! 0 ! 0)) (vSolutions ! 1))
       | MULTISIG \<Rightarrow> (False, CNoDestination scriptPubKey)
       | NULL_DATA \<Rightarrow> (False, CNoDestination scriptPubKey)
       | NONSTANDARD \<Rightarrow> (False, CNoDestination scriptPubKey)))"

text \<open>\<open>PayToAnchor\<close> derives from \<open>WitnessUnknown\<close> with version 1 and the anchor program.\<close>

primrec GetScriptForDestination :: "CTxDestination \<Rightarrow> valtype" where
  "GetScriptForDestination (CNoDestination script) = script"
| "GetScriptForDestination (PubKeyDestination pubkey) = push_data pubkey @ push_opcode OP_CHECKSIG"
| "GetScriptForDestination (PKHash keyID) =
    push_opcode OP_DUP @ push_opcode OP_HASH160 @ push_data keyID @ push_opcode OP_EQUALVERIFY @ push_opcode OP_CHECKSIG"
| "GetScriptForDestination (ScriptHash scriptID) = push_opcode OP_HASH160 @ push_data scriptID @ push_opcode OP_EQUAL"
| "GetScriptForDestination (WitnessV0KeyHash h) = push_opcode OP_0 @ push_data h"
| "GetScriptForDestination (WitnessV0ScriptHash h) = push_opcode OP_0 @ push_data h"
| "GetScriptForDestination (WitnessV1Taproot tap) = push_opcode OP_1 @ push_data tap"
| "GetScriptForDestination PayToAnchor = push_opcode (EncodeOP_N 1) @ push_data [0x4e, 0x73]"
| "GetScriptForDestination (WitnessUnknown version program) = push_opcode (EncodeOP_N version) @ push_data program"

primrec IsValidDestination :: "CTxDestination \<Rightarrow> bool" where
  "IsValidDestination (CNoDestination script) = False"
| "IsValidDestination (PubKeyDestination pubkey) = False"
| "IsValidDestination (PKHash h) = True"
| "IsValidDestination (ScriptHash h) = True"
| "IsValidDestination (WitnessV0KeyHash h) = True"
| "IsValidDestination (WitnessV0ScriptHash h) = True"
| "IsValidDestination (WitnessV1Taproot tap) = True"
| "IsValidDestination PayToAnchor = True"
| "IsValidDestination (WitnessUnknown version program) = True"


section \<open>Templates and their scripts\<close>

lemma push_data_short: "length x < 76 \<Longrightarrow> push_data x = of_nat (length x) # x"
  by (simp add: push_data_def AppendDataSize_def)

lemma list_frame:
  assumes "length s = length p + n + length q" "\<forall>i<length p. s ! i = p ! i" "\<forall>i<length q. s ! (length p + n + i) = q ! i"
  shows "s = p @ take n (drop (length p) s) @ q"
proof (rule nth_equalityI)
  fix i assume i: "i < length s"
  consider "i < length p" | "length p \<le> i" "i < length p + n" | "length p + n \<le> i"
    by linarith
  then show "s ! i = (p @ take n (drop (length p) s) @ q) ! i"
  proof cases
    case 3
    then show ?thesis
      using assms(1,3) i by (auto simp: nth_append dest!: spec [of _ "i - (length p + n)"])
  qed (use assms in \<open>auto simp: nth_append\<close>)
qed (use assms in simp)

lemmas frame_simps = All_less_Suc2 numeral_2_eq_2 numeral_3_eq_3 push_opcode_def push_data_short

lemma IsPayToScriptHash_script:
  "IsPayToScriptHash s \<Longrightarrow> s = GetScriptForDestination (ScriptHash (take 20 (drop 2 s)))"
  using list_frame [of s "[of_nat OP_HASH160, 20]" 20 "[of_nat OP_EQUAL]"]
  by (auto simp: IsPayToScriptHash_def frame_simps dest!: byte_of_unat)

lemma MatchPayToPubkeyHash_script:
  "MatchPayToPubkeyHash s = Some h \<Longrightarrow> s = GetScriptForDestination (PKHash h)"
  using list_frame [of s "[of_nat OP_DUP, of_nat OP_HASH160, 20]" 20 "[of_nat OP_EQUALVERIFY, of_nat OP_CHECKSIG]"]
  by (auto simp: MatchPayToPubkeyHash_def frame_simps split: if_splits dest!: byte_of_unat)

lemma MatchPayToPubkey_script:
  "MatchPayToPubkey s = Some key \<Longrightarrow> s = GetScriptForDestination (PubKeyDestination key) \<and> CPubKey_ValidSize key"
  using list_frame [of s "[of_nat (length key)]" "length key" "[of_nat OP_CHECKSIG]"] last_conv_nth [of s]
  by (cases "s = []")
    (auto simp: MatchPayToPubkey_def frame_simps Let_def split: if_splits dest!: byte_of_unat)

lemma CPubKey_Set_ValidSize: "CPubKey_ValidSize key \<Longrightarrow> CPubKey_Set key = key \<and> CPubKey_IsValid key"
  by (auto simp: CPubKey_ValidSize_def CPubKey_Set_def CPubKey_IsValid_def)

lemma CPubKey_ValidSize_length: "CPubKey_ValidSize key \<Longrightarrow> length key = 33 \<or> length key = 65"
  unfolding CPubKey_ValidSize_def CPubKey_GetLen_def by presburger

lemma IsPayToAnchor_script: "IsPayToAnchor s \<Longrightarrow> s = GetScriptForDestination PayToAnchor"
  by (simp add: IsPayToAnchor_def frame_simps EncodeOP_N_def)

primrec dest_ok :: "CTxDestination \<Rightarrow> bool" where
  "dest_ok (CNoDestination script) = False"
| "dest_ok (PubKeyDestination pubkey) = CPubKey_ValidSize pubkey"
| "dest_ok (PKHash h) = (length h = 20)"
| "dest_ok (ScriptHash h) = (length h = 20)"
| "dest_ok (WitnessV0KeyHash h) = (length h = WITNESS_V0_KEYHASH_SIZE)"
| "dest_ok (WitnessV0ScriptHash h) = (length h = WITNESS_V0_SCRIPTHASH_SIZE)"
| "dest_ok (WitnessV1Taproot tap) = (length tap = WITNESS_V1_TAPROOT_SIZE)"
| "dest_ok PayToAnchor = True"
| "dest_ok (WitnessUnknown version program) =
    (1 \<le> version \<and> version \<le> 16 \<and> 2 \<le> length program \<and> length program \<le> 40 \<and>
     \<not> (version = 1 \<and> length program = WITNESS_V1_TAPROOT_SIZE) \<and> \<not> IsPayToAnchor_program version program)"

lemma not_P2SH_short: "length p \<le> 40 \<Longrightarrow> v \<le> 16 \<Longrightarrow> \<not> IsPayToScriptHash (push_opcode (EncodeOP_N v) @ push_data p)"
  by (auto simp: IsPayToScriptHash_def push_opcode_def push_data_short EncodeOP_N_def)

lemma Solver_witness:
  assumes "v \<le> 16" "2 \<le> length p" "length p \<le> 40"
  shows "Solver (push_opcode (EncodeOP_N v) @ push_data p) =
    (if v = 0 \<and> length p = 20 then (WITNESS_V0_KEYHASH, [p])
     else if v = 0 \<and> length p = 32 then (WITNESS_V0_SCRIPTHASH, [p])
     else if v = 1 \<and> length p = 32 then (WITNESS_V1_TAPROOT, [p])
     else if IsPayToAnchor_program v p then (ANCHOR, [])
     else if v \<noteq> 0 then (WITNESS_UNKNOWN, [[of_nat v], p])
     else (NONSTANDARD, []))"
proof -
  have w: "IsWitnessProgram (push_opcode (EncodeOP_N v) @ push_data p) = Some (v, p)"
    using assms by (simp add: IsWitnessProgram_iff)
  moreover have "IsWitnessProgram (GetScriptForDestination PayToAnchor) = Some (1, [0x4e, 0x73])"
    by (simp add: IsWitnessProgram_iff)
  then have "IsPayToAnchor_program v p" if "IsPayToAnchor (push_opcode (EncodeOP_N v) @ push_data p)"
    using w IsPayToAnchor_script [OF that] by (simp add: IsPayToAnchor_program_def del: GetScriptForDestination.simps)
  moreover have "IsPayToAnchor (push_opcode (EncodeOP_N v) @ push_data p)" if "IsPayToAnchor_program v p"
    using that by (simp add: IsPayToAnchor_program_def IsPayToAnchor_def push_opcode_def push_data_short EncodeOP_N_def)
  ultimately show ?thesis
    using not_P2SH_short [OF assms(3,1)] by (auto simp: Solver_def)
qed

text \<open>The small numbers of a multisig script, as \<open>GetScriptForMultisig\<close> appends them.\<close>

lemma serialize_17_20: "serialize 17 = [17]" "serialize 18 = [18]" "serialize 19 = [19]" "serialize 20 = [20]"
  by (simp_all add: serialize_def scriptnum_bytes.simps)

lemma push_int64_op_n: "1 \<le> n \<Longrightarrow> n \<le> 16 \<Longrightarrow> push_int64 n = [of_nat (80 + nat n)]"
  by (simp add: push_int64_def)

lemma push_int64_small:
  assumes "n \<in> {17, 18, 19, 20 :: int}"
  shows "push_int64 n = [1, word_of_int n]"
  using assms by (auto simp: push_int64_def serialize_17_20 push_data_short)

lemma multisig_number:
  assumes "1 \<le> n" "n \<le> 20"
  obtains opcode data where "GetOp (push_int64 n @ rest) = Some (opcode, data, rest)" "\<not> CPubKey_ValidSize data"
    "\<And>mn. mn \<le> n \<Longrightarrow> GetScriptNumber opcode data mn 20 = Some n"
proof (cases "n \<le> 16")
  case True
  have "unat (of_nat (80 + nat n) :: byte) = 80 + nat n"
    unfolding unat_of_nat_byte using True assms by simp
  then have "GetOp (push_int64 n @ rest) = Some (80 + nat n, [], rest)"
    using GetOp_opcode [of "of_nat (80 + nat n)" rest] unfolding push_int64_op_n [OF assms(1) True] by simp
  moreover have "IsSmallInteger (80 + nat n)" "int (DecodeOP_N (80 + nat n)) = n"
    using True assms by (auto simp: IsSmallInteger_def DecodeOP_N_def)
  ultimately show ?thesis
    using assms by (intro that [of "80 + nat n" "[]"]) (simp_all add: CPubKey_ValidSize_def GetScriptNumber_def)
next
  case False
  then have n: "n \<in> {17, 18, 19, 20}"
    using assms by auto
  then have "GetOp (push_int64 n @ rest) = Some (1, [word_of_int n], rest)"
    using GetOp_push_data [of "[word_of_int n]" rest] by (simp add: push_int64_small push_data_short push_op_def)
  moreover have "CScriptNum [word_of_int n] True nDefaultMaxNumSize = Inr n"
    using n CScriptNum_serialize [of n nDefaultMaxNumSize True]
    by (auto simp: serialize_17_20 int64_min_def int64_max_def nDefaultMaxNumSize_def)
  moreover have "CheckMinimalPush [word_of_int n] 1" "getint n = n"
    using n by (auto simp: CheckMinimalPush_def getint_def)
  moreover have "\<not> CPubKey_ValidSize [x]" for x
    by (simp add: CPubKey_ValidSize_def CPubKey_GetLen_def)
  ultimately show ?thesis
    using assms by (intro that [of 1 "[word_of_int n]"]) (simp_all add: GetScriptNumber_def IsSmallInteger_def IsPushdataOp_def)
qed

lemma multisig_keys_script:
  assumes "list_all CPubKey_ValidSize keys" "GetOp rest = Some (opcode, data, it)" "\<not> CPubKey_ValidSize data"
  shows "multisig_keys acc (concat (map push_data keys) @ rest) = Some (opcode, data, it, acc @ keys)"
  using assms(1)
proof (induction keys arbitrary: acc)
  case Nil
  then show ?case
    using assms(2,3) by (simp add: multisig_keys.simps)
next
  case (Cons key keys)
  then have "length key < 2 ^ 32"
    using CPubKey_ValidSize_length [of key] by auto
  then show ?case
    using Cons by (subst multisig_keys.simps) simp
qed

lemma MatchMultisig_script:
  assumes "1 \<le> m" "m \<le> int (length keys)" "length keys \<le> 20" "list_all CPubKey_ValidSize keys"
  shows "MatchMultisig (GetScriptForMultisig m keys) = Some (m, keys)"
proof -
  let ?n = "int (length keys)" and ?rest = "push_opcode OP_CHECKMULTISIG"
  have m: "1 \<le> m" "m \<le> 20" and n: "1 \<le> ?n" "?n \<le> 20"
    using assms by simp_all
  obtain op1 d1 where 1: "GetOp (GetScriptForMultisig m keys) = Some (op1, d1, concat (map push_data keys) @ push_int64 ?n @ ?rest)"
    "GetScriptNumber op1 d1 1 20 = Some m"
    unfolding GetScriptForMultisig_def using multisig_number [OF m] m(1) by metis
  obtain op2 d2 where 2: "GetOp (push_int64 ?n @ ?rest) = Some (op2, d2, ?rest)" "\<not> CPubKey_ValidSize d2"
    "GetScriptNumber op2 d2 m 20 = Some ?n"
    using multisig_number [OF n] assms(2) by metis
  have "last (GetScriptForMultisig m keys) = 174" "GetScriptForMultisig m keys \<noteq> []"
    by (simp_all add: GetScriptForMultisig_def push_opcode_def)
  then show ?thesis
    using 1 2 multisig_keys_script [OF assms(4) 2(1,2), of "[]"]
    by (simp add: MatchMultisig_def push_opcode_def)
qed

lemma push_int64_head:
  assumes "1 \<le> n" "n \<le> 20"
  shows "\<exists>b bs. push_int64 n = b # bs \<and> (unat b = 1 \<or> 81 \<le> unat b \<and> unat b \<le> 96)"
proof (cases "n \<le> 16")
  case True
  then have "unat (of_nat (80 + nat n) :: byte) = 80 + nat n"
    unfolding unat_of_nat_byte using assms by simp
  then show ?thesis
    using True assms by (auto simp: push_int64_op_n simp del: of_nat_add)
next
  case False
  then have "n \<in> {17, 18, 19, 20}"
    using assms by auto
  then show ?thesis
    by (simp add: push_int64_small)
qed

lemma length_push_keys: "list_all CPubKey_ValidSize keys \<Longrightarrow> 34 * length keys \<le> length (concat (map push_data keys))"
proof (induction keys)
  case (Cons key keys)
  then show ?case
    using CPubKey_ValidSize_length [of key] by (auto simp: push_data_short)
qed simp

lemma multisig_not_witness:
  assumes "1 \<le> m" "m \<le> int (length keys)" "list_all CPubKey_ValidSize keys"
  shows "IsWitnessProgram (GetScriptForMultisig m keys) = None" "37 \<le> length (GetScriptForMultisig m keys)"
proof -
  let ?S = "GetScriptForMultisig m keys"
  have push: "1 \<le> length (push_int64 n)" for n
    by (simp add: push_int64_def push_opcode_def push_data_def AppendDataSize_def)
  have len: "34 * length keys + 3 \<le> length ?S"
    using length_push_keys [OF assms(3)] push [of m] push [of "int (length keys)"]
    by (simp add: GetScriptForMultisig_def push_opcode_def)
  then show "37 \<le> length ?S"
    using assms(1,2) by simp
  show "IsWitnessProgram ?S = None"
  proof (cases "length keys = 1")
    case True
    then obtain key where k: "keys = [key]" "m = 1"
      using assms(1,2) by (auto simp: length_Suc_conv)
    then have "length key = 33 \<or> length key = 65"
      using assms(3) CPubKey_ValidSize_length [of key] by simp
    then show ?thesis
      by (auto simp: k GetScriptForMultisig_def push_int64_def push_opcode_def push_data_short IsWitnessProgram_def)
  next
    case False
    then have "71 \<le> length ?S"
      using len assms(1,2) by simp
    then show ?thesis
      by (simp add: IsWitnessProgram_def)
  qed
qed

text \<open>
  C33.  \<open>ExtractDestination\<close> loses nothing: whatever it returns, with or without an
  address, \<open>GetScriptForDestination\<close> gives back the script it was extracted from.
\<close>

theorem GetScriptForDestination_ExtractDestination:
  "GetScriptForDestination (snd (ExtractDestination scriptPubKey)) = scriptPubKey"
proof -
  have w: "GetScriptForDestination (WitnessV0KeyHash p) = scriptPubKey" if "IsWitnessProgram scriptPubKey = Some (0, p)" for p
    using that by (simp add: IsWitnessProgram_iff EncodeOP_N_def)
  have t: "GetScriptForDestination (WitnessV1Taproot p) = scriptPubKey" if "IsWitnessProgram scriptPubKey = Some (1, p)" for p
    using that unfolding IsWitnessProgram_iff by (simp add: EncodeOP_N_def)
  have u: "GetScriptForDestination (WitnessUnknown (unat (of_nat v :: byte)) p) = scriptPubKey"
    if "IsWitnessProgram scriptPubKey = Some (v, p)" for v p
    using that by (simp add: IsWitnessProgram_iff)
  show ?thesis
  proof (cases "IsPayToScriptHash scriptPubKey")
    case True
    then show ?thesis
      using IsPayToScriptHash_script [OF True] by (simp add: ExtractDestination_def Solver_def)
  next
    case no_sh: False
    show ?thesis
    proof (cases "IsWitnessProgram scriptPubKey")
      case None
      then show ?thesis
        using no_sh MatchPayToPubkey_script [of scriptPubKey] MatchPayToPubkeyHash_script [of scriptPubKey]
        by (simp add: ExtractDestination_def Solver_def Let_def CPubKey_Set_ValidSize del: GetScriptForDestination.simps(2-9)
            split: option.split)
    next
      case (Some vp)
      then show ?thesis
        using no_sh w t u IsPayToAnchor_script [of scriptPubKey]
        by (cases vp) (simp add: ExtractDestination_def Solver_def)
    qed
  qed
qed

text \<open>
  A multisig script built by \<open>GetScriptForMultisig\<close> for one to twenty keys of a
  valid size is recognised by \<open>Solver\<close> as \<open>MULTISIG\<close> with the same
  threshold and the same keys.
\<close>

lemma Solver_GetScriptForMultisig:
  assumes "1 \<le> m" "m \<le> int (length keys)" "length keys \<le> 20" "list_all CPubKey_ValidSize keys"
  shows "Solver (GetScriptForMultisig m keys) = (MULTISIG, [[word_of_int m]] @ keys @ [[of_nat (length keys)]])"
proof -
  let ?S = "GetScriptForMultisig m keys"
  obtain b bs where b: "push_int64 m = b # bs" "unat b = 1 \<or> 81 \<le> unat b \<and> unat b \<le> 96"
    using push_int64_head [of m] assms by auto
  then have "unat (?S ! 0) = unat b"
    by (simp add: GetScriptForMultisig_def)
  then show ?thesis
    using b(2) multisig_not_witness [OF assms(1,2,4)] MatchMultisig_script [OF assms]
    by (auto simp: Solver_def IsPayToScriptHash_def MatchPayToPubkey_def MatchPayToPubkeyHash_def)
qed

definition demo_key :: "byte \<Rightarrow> valtype" where
  "demo_key b = 2 # replicate 32 b"

text \<open>
  C34.  Conversely every destination with well-sized contents is recovered from its script, and
  \<open>ExtractDestination\<close> reports an address for it exactly when
  \<open>IsValidDestination\<close> does.
\<close>

theorem ExtractDestination_GetScriptForDestination:
  assumes "dest_ok d"
  shows "ExtractDestination (GetScriptForDestination d) = (IsValidDestination d, d)"
proof (cases d)
  case (PKHash h)
  then have h: "length h = 20"
    using assms by simp
  then have "Solver (GetScriptForDestination d) = (PUBKEYHASH, [h])"
    unfolding PKHash
    by (simp add: Solver_def IsPayToScriptHash_def IsWitnessProgram_def MatchPayToPubkey_def MatchPayToPubkeyHash_def
        push_opcode_def push_data_short nth_append)
  then show ?thesis
    using PKHash by (simp add: ExtractDestination_def)
next
  case (ScriptHash h)
  then have "length h = 20"
    using assms by simp
  then show ?thesis
    unfolding ScriptHash
    by (simp add: ExtractDestination_def Solver_def IsPayToScriptHash_def push_opcode_def push_data_short nth_append)
next
  case (PubKeyDestination key)
  then have k: "CPubKey_ValidSize key" "length key = 33 \<or> length key = 65"
    using assms CPubKey_ValidSize_length [of key] by simp_all
  from k(2) have "Solver (GetScriptForDestination d) = (PUBKEY, [key])"
  proof
    assume "length key = 33"
    then show ?thesis
      unfolding PubKeyDestination
      by (simp add: Solver_def IsPayToScriptHash_def IsWitnessProgram_def MatchPayToPubkey_def push_opcode_def push_data_short k(1))
  next
    assume "length key = 65"
    then show ?thesis
      unfolding PubKeyDestination
      by (simp add: Solver_def IsPayToScriptHash_def IsWitnessProgram_def MatchPayToPubkey_def push_opcode_def push_data_short k(1))
  qed
  then show ?thesis
    using k PubKeyDestination by (simp add: ExtractDestination_def CPubKey_Set_ValidSize)
next
  case (WitnessV0KeyHash h)
  then show ?thesis
    using assms Solver_witness [of 0 h] by (simp add: ExtractDestination_def EncodeOP_N_def IsPayToAnchor_program_def)
next
  case (WitnessV0ScriptHash h)
  then show ?thesis
    using assms Solver_witness [of 0 h] by (simp add: ExtractDestination_def EncodeOP_N_def IsPayToAnchor_program_def)
next
  case (WitnessV1Taproot h)
  then show ?thesis
    using assms Solver_witness [of 1 h] by (simp add: ExtractDestination_def EncodeOP_N_def IsPayToAnchor_program_def)
next
  case PayToAnchor
  then show ?thesis
    using Solver_witness [of 1 "[0x4e, 0x73]"] by (simp add: ExtractDestination_def IsPayToAnchor_program_def)
next
  case (WitnessUnknown v p)
  then show ?thesis
    using assms Solver_witness [of v p] by (simp add: ExtractDestination_def)
qed (use assms in simp)

theorem ExtractDestination_GetScriptForDestination_witness:
  "dest_ok (PKHash (replicate 20 7)) \<and>
   ExtractDestination (GetScriptForDestination (PKHash (replicate 20 7))) = (True, PKHash (replicate 20 7))"
  using ExtractDestination_GetScriptForDestination [of "PKHash (replicate 20 7)"] by simp

end
