(* ===== verification/QuantumWitness.thy ===== *)
theory QuantumWitness
  imports QuantumKey Solver
begin

text \<open>
  Quantum pay-to-witness-script-hash scripts: \<open>src/script/quantum_witness.h\<close> and
  \<open>.cpp\<close>.
\<close>

definition CreateQuantumWitnessScript :: "CQuantumPubKey \<Rightarrow> CScript" where
  "CreateQuantumWitnessScript pubkey = push_data (pk_data pubkey) @ push_opcode OP_CHECKSIG_EX"

definition CreateQuantumP2WSH :: "Hashes \<Rightarrow> CQuantumPubKey \<Rightarrow> CScript" where
  "CreateQuantumP2WSH hs pubkey =
    (let witnessScript = CreateQuantumWitnessScript pubkey in
     push_opcode OP_0 @ push_data (SHA256 hs witnessScript))"

definition ExtractQuantumPubKeyFromWitnessScript :: "CScript \<Rightarrow> CQuantumPubKey option" where
  "ExtractQuantumPubKeyFromWitnessScript witnessScript = (case GetOp witnessScript of
     None \<Rightarrow> None
   | Some (opcode, vchPubKey, pc) \<Rightarrow>
       if opcode > OP_PUSHDATA4 then None
       else (case pc of
           [] \<Rightarrow> None
         | b # _ \<Rightarrow>
             if unat b \<noteq> OP_CHECKSIG_EX then None
             else (case (if length vchPubKey = 1952 then Some ML_DSA_65
                         else if length vchPubKey = 48 then Some SLH_DSA_192F else None) of
                 None \<Rightarrow> None
               | Some keyType \<Rightarrow>
                   let pubkey = \<lparr>pk_type = keyType, pk_data = vchPubKey\<rparr> in
                   if CQuantumPubKey_IsValid pubkey then Some pubkey else None)))"

definition IsQuantumP2WSH :: "CScript \<Rightarrow> bool" where
  "IsQuantumP2WSH script =
    (if length script \<noteq> 34 then False
     else case GetOp script of
       None \<Rightarrow> False
     | Some (opcode, _, pc) \<Rightarrow>
         if opcode \<noteq> OP_0 then False
         else (case GetOp pc of
             None \<Rightarrow> False
           | Some (opcode, data, pc) \<Rightarrow> if length data \<noteq> 32 then False else pc = []))"

definition CreateQuantumWitnessStack :: "QuantumSignature \<Rightarrow> CScript \<Rightarrow> valtype list" where
  "CreateQuantumWitnessStack qsig witnessScript = [qs_Serialize qsig, witnessScript]"

definition ParseQuantumWitnessStack :: "valtype list \<Rightarrow> (QuantumSignature \<times> CScript) option" where
  "ParseQuantumWitnessStack stack =
    (if length stack \<noteq> 2 then None
     else case qs_Deserialize (stack ! 0) of
       None \<Rightarrow> None
     | Some qsig \<Rightarrow> Some (qsig, stack ! 1))"

definition GetQuantumSchemeFromWitnessScript :: "CScript \<Rightarrow> SignatureSchemeID" where
  "GetQuantumSchemeFromWitnessScript witnessScript = (case GetOp witnessScript of
     None \<Rightarrow> SCHEME_ECDSA
   | Some (opcode, vchPubKey, pc) \<Rightarrow>
       if length vchPubKey = 1952 then SCHEME_ML_DSA_65
       else if length vchPubKey = 48 then SCHEME_SLH_DSA_192F
       else SCHEME_ECDSA)"


section \<open>Properties\<close>

lemma CreateQuantumP2WSH_destination:
  "CreateQuantumP2WSH hs pk = GetScriptForDestination (WitnessV0ScriptHash (SHA256 hs (CreateQuantumWitnessScript pk)))"
  by (simp add: CreateQuantumP2WSH_def)

lemma quantum_pubkey_size:
  "CQuantumPubKey_IsValid pk \<Longrightarrow> pk_type pk = ML_DSA_65 \<or> pk_type pk = SLH_DSA_192F \<Longrightarrow>
   length (pk_data pk) = (if pk_type pk = ML_DSA_65 then 1952 else 48)"
  by (auto simp: CQuantumPubKey_IsValid_def)

lemma GetOp_witness_script:
  assumes "length (pk_data pk) < 2 ^ 32"
  shows "GetOp (CreateQuantumWitnessScript pk @ rest) =
    Some (push_op (length (pk_data pk)), pk_data pk, of_nat OP_CHECKSIG_EX # rest)"
  using GetOp_push_data [OF assms, of "of_nat OP_CHECKSIG_EX # rest"]
  by (simp add: CreateQuantumWitnessScript_def push_opcode_def)

text \<open>
  C40.  The public key of a quantum witness script is recovered from it, together with its scheme;
  the extraction also accepts every script that merely starts like one, whatever follows the
  signature opcode.
\<close>

theorem Extract_CreateQuantumWitnessScript:
  assumes "CQuantumPubKey_IsValid pk" "pk_type pk = ML_DSA_65 \<or> pk_type pk = SLH_DSA_192F"
  shows "ExtractQuantumPubKeyFromWitnessScript (CreateQuantumWitnessScript pk @ rest) = Some pk \<and>
    GetQuantumSchemeFromWitnessScript (CreateQuantumWitnessScript pk @ rest) =
      (if pk_type pk = ML_DSA_65 then SCHEME_ML_DSA_65 else SCHEME_SLH_DSA_192F)"
proof -
  have l: "length (pk_data pk) = (if pk_type pk = ML_DSA_65 then 1952 else 48)"
    by (rule quantum_pubkey_size [OF assms])
  then have "push_op (length (pk_data pk)) \<le> OP_PUSHDATA4" "length (pk_data pk) < 2 ^ 32"
    by (auto simp: push_op_def)
  moreover have "\<lparr>pk_type = pk_type pk, pk_data = pk_data pk\<rparr> = pk"
    by simp
  ultimately show ?thesis
    using assms l
    by (auto simp: ExtractQuantumPubKeyFromWitnessScript_def GetQuantumSchemeFromWitnessScript_def GetOp_witness_script Let_def
        CQuantumPubKey_IsValid_def)
qed

theorem Extract_CreateQuantumWitnessScript_witness:
  "CQuantumPubKey_IsValid \<lparr>pk_type = SLH_DSA_192F, pk_data = replicate 48 0\<rparr> \<and>
   ExtractQuantumPubKeyFromWitnessScript (CreateQuantumWitnessScript \<lparr>pk_type = SLH_DSA_192F, pk_data = replicate 48 0\<rparr> @ [0x6a]) =
     Some \<lparr>pk_type = SLH_DSA_192F, pk_data = replicate 48 0\<rparr>"
proof -
  have v: "CQuantumPubKey_IsValid \<lparr>pk_type = SLH_DSA_192F, pk_data = replicate 48 0\<rparr>"
    by (simp add: CQuantumPubKey_IsValid_def)
  then show ?thesis
    using Extract_CreateQuantumWitnessScript [OF v, of "[0x6a]"] by simp
qed

text \<open>
  \<open>IsQuantumP2WSH\<close> recognises exactly the pay-to-witness-script-hash scripts.
\<close>

lemma IsQuantumP2WSH_iff:
  "IsQuantumP2WSH script \<longleftrightarrow> IsPayToWitnessScriptHash script"
proof (cases "length script = 34")
  case True
  then obtain x y r where s: "script = x # y # r" "length r = 32"
    by (auto simp: length_Suc_conv numeral_eq_Suc)
  have "IsQuantumP2WSH script \<longleftrightarrow> unat x = 0 \<and> (\<exists>opcode data. GetOp (y # r) = Some (opcode, data, []) \<and> length data = 32)"
    using s by (auto simp: IsQuantumP2WSH_def GetOp_def GetScriptOp_def push_size_def Let_def split: option.splits list.splits if_splits prod.splits)
  also have "\<dots> \<longleftrightarrow> unat x = 0 \<and> unat y = 32"
    using s by (auto simp: GetOp_def GetScriptOp_def push_size_def Let_def split: option.splits list.splits if_splits prod.splits)
  finally show ?thesis
    using s by (auto simp: IsPayToWitnessScriptHash_def dest!: byte_of_unat)
qed (simp add: IsQuantumP2WSH_def IsPayToWitnessScriptHash_def)

text \<open>
  The witness stack made for a signature of a valid size parses back to the signature and the
  script, and only a stack made this way parses.
\<close>

lemma ParseQuantumWitnessStack_iff:
  "ParseQuantumWitnessStack stack = Some (qsig, script) \<longleftrightarrow>
    IsValidSize qsig \<and> stack = CreateQuantumWitnessStack qsig script"
  by (auto simp: ParseQuantumWitnessStack_def CreateQuantumWitnessStack_def qs_Deserialize_Serialize length_Suc_conv numeral_2_eq_2
      split: option.splits if_splits dest: qs_Deserialize_SomeD)

end
