(* ===== verification/Execution.thy ===== *)
theory Execution
  imports EvalInvariants QuantumWitness "HOL-Library.Sublist"
begin

text \<open>
  Symbolic execution of \<open>EvalScript\<close>: what one push and one opcode do at the head of a
  script, and from it what the script templates of the wallet do.
\<close>

named_theorems exec_simps "unfolding one instruction"

lemma EvalScript_loop_Nil [simp]: "EvalScript_loop env [] st = Inr st"
  by (simp add: EvalScript_loop.simps)

definition next_pos :: "EvalState \<Rightarrow> EvalState" where
  "next_pos st = st\<lparr>st_opcode_pos := st_opcode_pos st + 1\<rparr>"

lemma next_pos_fields [simp]:
  "st_stack (next_pos st) = st_stack st" "st_altstack (next_pos st) = st_altstack st"
  "st_vfExec (next_pos st) = st_vfExec st" "st_nOpCount (next_pos st) = st_nOpCount st"
  "st_codehash (next_pos st) = st_codehash st" "st_execdata (next_pos st) = st_execdata st"
  by (simp_all add: next_pos_def)

lemma set_stack_fields [simp]:
  "st_stack (set_stack st s) = s" "st_altstack (set_stack st s) = st_altstack st"
  "st_vfExec (set_stack st s) = st_vfExec st" "st_nOpCount (set_stack st s) = st_nOpCount st"
  "st_codehash (set_stack st s) = st_codehash st" "st_execdata (set_stack st s) = st_execdata st"
  by (simp_all add: set_stack_def)

lemma EvalScript_loop_GetOp:
  "GetOp pc = Some (opcode, vch, pc') \<Longrightarrow>
   EvalScript_loop env pc st = bindE (EvalScript_step env opcode vch pc' st) (\<lambda>st. EvalScript_loop env pc' (next_pos st))"
  by (subst EvalScript_loop.simps) (auto simp: next_pos_def)

lemma push_op_le [simp]: "push_op n \<le> OP_PUSHDATA4"
  by (simp add: push_op_def)

lemma EvalScript_step_push:
  assumes "all_true (st_vfExec st)" "opcode \<le> OP_PUSHDATA4" "push_size_ok env x"
    "fRequireMinimal env \<longrightarrow> CheckMinimalPush x opcode"
    "length (st_stack st) + length (st_altstack st) < MAX_STACK_SIZE"
  shows "EvalScript_step env opcode x pc st = Inr (set_stack st (x # st_stack st))"
  using assms
  by (simp add: EvalScript_step_def Let_def disabled_opcode_def exec_instruction_def set_stack_def not_less)

definition minimal_push :: "valtype \<Rightarrow> bool" where
  "minimal_push x \<longleftrightarrow> \<not> (length x = 1 \<and> (x ! 0 \<ge> 1 \<and> x ! 0 \<le> 16 \<or> x ! 0 = 0x81))"

lemma CheckMinimalPush_push_op: "CheckMinimalPush x (push_op (length x)) \<longleftrightarrow> minimal_push x"
  by (auto simp: CheckMinimalPush_def minimal_push_def push_op_def)

lemma EvalScript_loop_push [exec_simps]:
  assumes "all_true (st_vfExec st)" "push_size_ok env x" "fRequireMinimal env \<longrightarrow> minimal_push x"
    "length (st_stack st) + length (st_altstack st) < MAX_STACK_SIZE"
  shows "EvalScript_loop env (push_data x @ rest) st = EvalScript_loop env rest (next_pos (set_stack st (x # st_stack st)))"
proof -
  have "length x \<le> 35680"
    using assms(2) by (auto simp: push_size_ok_def quantum_push_allowed_def split: if_splits)
  then show ?thesis
    using assms by (simp add: EvalScript_loop_GetOp [OF GetOp_push_data] EvalScript_step_push CheckMinimalPush_push_op)
qed

lemma EvalScript_loop_op [exec_simps]:
  "OP_PUSHDATA4 < unat b \<Longrightarrow>
   EvalScript_loop env (b # rest) st = bindE (EvalScript_step env (unat b) [] rest st) (\<lambda>st. EvalScript_loop env rest (next_pos st))"
  by (rule EvalScript_loop_GetOp) (rule GetOp_opcode)

lemma push_size_ok_Nil [simp]: "push_size_ok env []"
  by simp

text \<open>An opcode that is executed, in a script whose limits are not reached.\<close>

lemma EvalScript_step_op:
  assumes "all_true (st_vfExec st)" "OP_16 < opcode" "\<not> disabled_opcode opcode" "st_nOpCount st < MAX_OPS_PER_SCRIPT"
    "opcode \<noteq> OP_CODESEPARATOR" "env_sigversion env = BASE \<or> env_sigversion env = WITNESS_V0"
  shows "EvalScript_step env opcode [] pc st =
    bindE (exec_opcode env opcode pc True (st\<lparr>st_nOpCount := st_nOpCount st + 1\<rparr>))
      (\<lambda>st. if length (st_stack st) + length (st_altstack st) > MAX_STACK_SIZE then Inl SCRIPT_ERR_STACK_SIZE else Inr st)"
  using assms by (auto simp: EvalScript_step_def Let_def exec_instruction_def)

lemma EvalScript_loop_exec:
  assumes "all_true (st_vfExec st)" "OP_16 < unat b" "\<not> disabled_opcode (unat b)" "st_nOpCount st < MAX_OPS_PER_SCRIPT"
    "unat b \<noteq> OP_CODESEPARATOR" "env_sigversion env = BASE \<or> env_sigversion env = WITNESS_V0"
  shows "EvalScript_loop env (b # rest) st =
    bindE (exec_opcode env (unat b) rest True (st\<lparr>st_nOpCount := st_nOpCount st + 1\<rparr>))
      (\<lambda>st. if length (st_stack st) + length (st_altstack st) > MAX_STACK_SIZE then Inl SCRIPT_ERR_STACK_SIZE
            else EvalScript_loop env rest (next_pos st))"
  using assms EvalScript_step_op [OF assms(1-4,5,6), of rest]
  by (cases "exec_opcode env (unat b) rest True (st\<lparr>st_nOpCount := st_nOpCount st + 1\<rparr>)") (auto simp: EvalScript_loop_op)

lemma all_true_init [simp]: "all_true cs_init" "cs_empty cs_init"
  by (simp_all add: all_true_def cs_init_def cs_empty_def)

lemma init_state_fields [simp]:
  "st_stack (init_state s c ed) = s" "st_altstack (init_state s c ed) = []" "st_vfExec (init_state s c ed) = cs_init"
  "st_nOpCount (init_state s c ed) = 0" "st_codehash (init_state s c ed) = c"
  "st_execdata (init_state s c ed) = ed\<lparr>m_codeseparator_pos := Some 0xffffffff\<rparr>"
  by (simp_all add: init_state_def)


section \<open>Matching signatures to keys\<close>

text \<open>
  What \<open>OP_CHECKMULTISIG\<close> promises: the signatures can be assigned to some of the keys,
  in order.
\<close>

definition sigs_match :: "(valtype \<Rightarrow> valtype \<Rightarrow> bool) \<Rightarrow> valtype list \<Rightarrow> valtype list \<Rightarrow> bool" where
  "sigs_match ok sigs keys \<longleftrightarrow> (\<exists>ks. subseq ks keys \<and> list_all2 ok sigs ks)"

lemma sigs_match_Nil [simp]: "sigs_match ok [] keys"
  by (auto simp: sigs_match_def intro!: exI [of _ "[]"])

lemma sigs_match_length: "sigs_match ok sigs keys \<Longrightarrow> length sigs \<le> length keys"
  by (metis sigs_match_def list_all2_lengthD list_emb_length)

lemma sigs_match_drop_key: "sigs_match ok sigs keys \<Longrightarrow> sigs_match ok sigs (key # keys)"
  by (auto simp: sigs_match_def)

lemma sigs_match_tl: "sigs_match ok (sig # sigs) keys \<Longrightarrow> sigs_match ok sigs keys"
  by (auto simp: sigs_match_def list_all2_Cons1 dest: subseq_Cons')

lemma sigs_match_Cons:
  "sigs_match ok (sig # sigs) (key # keys) \<longleftrightarrow>
    (if ok sig key then sigs_match ok sigs keys else sigs_match ok (sig # sigs) keys)"
proof (cases "ok sig key")
  case True
  have "sigs_match ok (sig # sigs) (key # keys)" if m: "sigs_match ok sigs keys"
  proof -
    from m obtain ks where "subseq ks keys" "list_all2 ok sigs ks"
      by (auto simp: sigs_match_def)
    then show ?thesis
      using True unfolding sigs_match_def by (intro exI [of _ "key # ks"]) simp
  qed
  moreover have "sigs_match ok sigs keys" if "sigs_match ok (sig # sigs) (key # keys)"
    using that
    by (auto simp: sigs_match_def list_all2_Cons1 subseq_Cons2_iff split: if_splits) (blast dest: subseq_Cons')+
  ultimately show ?thesis
    using True by auto
next
  case False
  have "sigs_match ok (sig # sigs) keys" if "sigs_match ok (sig # sigs) (key # keys)"
    using that False by (auto simp: sigs_match_def list_all2_Cons1 subseq_Cons2_iff split: if_splits)
  then show ?thesis
    using False sigs_match_drop_key by auto
qed

text \<open>
  C18.  The matching loop of \<open>OP_CHECKMULTISIG\<close> is greedy, and greedy is enough: when it
  returns without an encoding error, it reports success exactly when the signatures can be
  assigned, in order, to a subsequence of the keys under which each of them verifies.
\<close>

theorem multisig_match_iff_sigs_match:
  assumes "multisig_match env scriptCode sigs keys = Inr fSuccess" "length sigs \<le> length keys"
  shows "fSuccess \<longleftrightarrow>
    sigs_match (\<lambda>sig key. CheckECDSASignature (env_checker env) sig key scriptCode (env_sigversion env) = Inr True) sigs keys"
  using assms
proof (induction env scriptCode sigs keys rule: multisig_match.induct)
  case (3 env scriptCode sig sigs key keys)
  let ?ok = "\<lambda>sig key. CheckECDSASignature (env_checker env) sig key scriptCode (env_sigversion env) = Inr True"
  show ?case
    using 3 sigs_match_length [of ?ok sigs keys] sigs_match_length [of ?ok "sig # sigs" keys]
    by (auto simp: bindE_eq_Inr Let_def sigs_match_Cons not_less split: if_splits) blast
qed simp_all

definition equal_checker :: SignatureChecker where
  "equal_checker = BaseSignatureChecker\<lparr>CheckECDSASignature := (\<lambda>sig key scriptCode sigversion. Inr (sig = key))\<rparr>"

theorem multisig_match_iff_sigs_match_witness:
  "multisig_match ((demo_env 0 BASE)\<lparr>env_checker := equal_checker\<rparr>) [] [[1], [3]] [[1], [2], [3]] = Inr True \<and>
   sigs_match (\<lambda>sig key. sig = key) [[1], [3]] [[1], [2], [3 :: byte]]"
proof -
  have m: "multisig_match ((demo_env 0 BASE)\<lparr>env_checker := equal_checker\<rparr>) [] [[1], [3]] [[1], [2], [3]] = Inr True"
    by (simp add: demo_env_def equal_checker_def CheckSignatureEncoding_def CheckPubKeyEncoding_def)
  then show ?thesis
    using multisig_match_iff_sigs_match [OF m] by (simp add: equal_checker_def)
qed


section \<open>Script templates\<close>

lemma bindE_assoc: "bindE (bindE m f) g = bindE m (\<lambda>x. bindE (f x) g)"
  by (cases m) simp_all

lemma op_checksig_pre_tapscript:
  assumes "env_sigversion env = BASE \<or> env_sigversion env = WITNESS_V0" "st_stack st = key # sig # s"
  shows "op_checksig env OP_CHECKSIG st =
    bindE (EvalChecksigPreTapscript sig key (st_codehash st) env) (\<lambda>ok. Inr (set_stack st (bool_vch ok # s)))"
  using assms by (auto simp: op_checksig_def EvalChecksig_def bindE_assoc)

lemmas run_simps =
  EvalScript_loop_exec EvalScript_loop_push disabled_opcode_def exec_opcode_def op_stack_def stack_op_single_def op_hash_def
  op_equal_def op_checksig_pre_tapscript bindE_assoc

lemma EvalScript_small:
  "env_sigversion env \<noteq> TAPROOT \<Longrightarrow> length script \<le> MAX_SCRIPT_SIZE \<Longrightarrow>
   EvalScript env stack script ed =
     bindE (EvalScript_loop env script (init_state stack script ed)) (\<lambda>st.
       if \<not> cs_empty (st_vfExec st) then Inl SCRIPT_ERR_UNBALANCED_CONDITIONAL else Inr (st_stack st, st_execdata st))"
  by (simp add: EvalScript_def)

lemma EvalScript_quantum_witness_script:
  assumes "env_sigversion env = BASE \<or> env_sigversion env = WITNESS_V0" "push_size_ok env (pk_data pk)"
    "1 < length (pk_data pk)" "length (pk_data pk) \<le> 1952" "length s \<le> 998"
  shows "EvalScript env (sig # s) (CreateQuantumWitnessScript pk) ed =
    (if has_flag (env_flags env) SCRIPT_VERIFY_QUANTUM_SIGS then
       bindE (EvalChecksigQuantum sig (pk_data pk) (CreateQuantumWitnessScript pk) env) (\<lambda>ok.
        if \<not> ok \<and> has_flag (env_flags env) SCRIPT_VERIFY_NULLFAIL \<and> sig \<noteq> [] then Inl SCRIPT_ERR_SIG_NULLFAIL
        else Inr (bool_vch ok # s, ed\<lparr>m_codeseparator_pos := Some 0xffffffff\<rparr>))
     else if has_flag (env_flags env) SCRIPT_VERIFY_DISCOURAGE_UPGRADABLE_NOPS then Inl SCRIPT_ERR_DISCOURAGE_UPGRADABLE_NOPS
     else Inr (pk_data pk # sig # s, ed\<lparr>m_codeseparator_pos := Some 0xffffffff\<rparr>))"
proof -
  have sv: "env_sigversion env \<noteq> TAPROOT"
    using assms(1) by auto
  have m: "minimal_push (pk_data pk)"
    using assms(3) by (simp add: minimal_push_def)
  have S: "CreateQuantumWitnessScript pk = push_data (pk_data pk) @ [179]"
    by (simp add: CreateQuantumWitnessScript_def push_opcode_def)
  have l: "length (CreateQuantumWitnessScript pk) \<le> 10000"
    using assms(4) by (simp add: S push_data_def AppendDataSize_def)
  show ?thesis
    unfolding EvalScript_small [OF sv l] unfolding S
    using assms m
    by (cases "EvalChecksigQuantum sig (pk_data pk) (push_data (pk_data pk) @ [179]) env") (simp_all add: run_simps op_checksig_ex_def)
qed

lemma EvalScript_loop_pushes:
  assumes "all_true (st_vfExec st)" "list_all (push_size_ok env) xs" "fRequireMinimal env \<longrightarrow> list_all minimal_push xs"
    "length xs + length (st_stack st) + length (st_altstack st) \<le> MAX_STACK_SIZE"
  shows "EvalScript_loop env (concat (map push_data xs) @ rest) st =
    EvalScript_loop env rest (st\<lparr>st_stack := rev xs @ st_stack st, st_opcode_pos := st_opcode_pos st + of_nat (length xs)\<rparr>)"
  using assms
proof (induction xs arbitrary: st)
  case (Cons x xs)
  then show ?case
    using EvalScript_loop_push [of st env x "concat (map push_data xs) @ rest"]
    by (simp add: next_pos_def set_stack_def add.assoc)
qed simp

text \<open>
  C21.  Running a pay-to-pubkey-hash script on a signature and a key: the key must hash to the
  program, then the outcome is that of the signature check over the script itself.
\<close>

theorem EvalScript_P2PKH:
  assumes "env_sigversion env = BASE \<or> env_sigversion env = WITNESS_V0" "length h = 20" "length s \<le> 996"
  shows "EvalScript env (key # sig # s) (GetScriptForDestination (PKHash h)) ed =
    (if Hash160 (env_hashes env) key \<noteq> h then Inl SCRIPT_ERR_EQUALVERIFY
     else bindE (EvalChecksigPreTapscript sig key (GetScriptForDestination (PKHash h)) env)
       (\<lambda>ok. Inr (bool_vch ok # s, ed\<lparr>m_codeseparator_pos := Some 0xffffffff\<rparr>)))"
proof -
  have sv: "env_sigversion env \<noteq> TAPROOT" "env_sigversion env \<noteq> TAPSCRIPT"
    using assms(1) by auto
  have m: "minimal_push h"
    using assms(2) by (simp add: minimal_push_def)
  have S: "GetScriptForDestination (PKHash h) = 118 # 169 # (push_data h @ [136, 172])"
    by (simp add: push_opcode_def)
  have l: "length (GetScriptForDestination (PKHash h)) = 25"
    using assms(2) by (simp add: push_opcode_def push_data_short)
  have e: "EvalScript env (key # sig # s) (GetScriptForDestination (PKHash h)) ed =
      bindE (EvalScript_loop env (GetScriptForDestination (PKHash h)) (init_state (key # sig # s) (GetScriptForDestination (PKHash h)) ed))
        (\<lambda>st. if \<not> cs_empty (st_vfExec st) then Inl SCRIPT_ERR_UNBALANCED_CONDITIONAL else Inr (st_stack st, st_execdata st))"
    using sv l by (intro EvalScript_small) simp_all
  show ?thesis
    unfolding e unfolding S
    using assms sv m
    by (simp add: run_simps)
qed

theorem EvalScript_P2PKH_witness:
  "Hash160 demo_hashes [9] = replicate 20 0 \<and>
   EvalScript (demo_env 0 BASE) [[9], []] (GetScriptForDestination (PKHash (replicate 20 0))) empty_execdata =
     Inr ([[]], empty_execdata\<lparr>m_codeseparator_pos := Some 0xffffffff\<rparr>)"
  using EvalScript_P2PKH [of "demo_env 0 BASE" "replicate 20 0" "[]" "[9]" "[]" empty_execdata]
  by (simp add: demo_env_def demo_hashes_def Hash160_def EvalChecksigPreTapscript_def CheckSignatureEncoding_def
      CheckPubKeyEncoding_def BaseSignatureChecker_def bool_vch_def vchFalse_def split: prod.split)

text \<open>
  C20.  The quantum witness script \<open><pubkey> OP_CHECKSIG_EX\<close> on a signature.  With the
  flag the script succeeds with the outcome of the quantum signature check (an error under
  \<open>NULLFAIL\<close> for a failed non-empty signature); without the flag and without
  \<open>DISCOURAGE_UPGRADABLE_NOPS\<close> a key of at most 520 bytes is left on the stack whatever
  the signature is.
\<close>

theorem EvalScript_quantum_script:
  assumes "env_sigversion env = BASE \<or> env_sigversion env = WITNESS_V0" "push_size_ok env (pk_data pk)"
    "1 < length (pk_data pk)" "length (pk_data pk) \<le> 1952" "length s \<le> 998"
  shows "EvalScript env (sig # s) (CreateQuantumWitnessScript pk) ed =
    (if has_flag (env_flags env) SCRIPT_VERIFY_QUANTUM_SIGS then
       bindE (EvalChecksigQuantum sig (pk_data pk) (CreateQuantumWitnessScript pk) env) (\<lambda>ok.
        if \<not> ok \<and> has_flag (env_flags env) SCRIPT_VERIFY_NULLFAIL \<and> sig \<noteq> [] then Inl SCRIPT_ERR_SIG_NULLFAIL
        else Inr (bool_vch ok # s, ed\<lparr>m_codeseparator_pos := Some 0xffffffff\<rparr>))
     else if has_flag (env_flags env) SCRIPT_VERIFY_DISCOURAGE_UPGRADABLE_NOPS then Inl SCRIPT_ERR_DISCOURAGE_UPGRADABLE_NOPS
     else Inr (pk_data pk # sig # s, ed\<lparr>m_codeseparator_pos := Some 0xffffffff\<rparr>))"
  by (rule EvalScript_quantum_witness_script [OF assms])

theorem EvalScript_quantum_script_witness:
  "EvalScript (demo_env 0 WITNESS_V0) [[7]] (CreateQuantumWitnessScript \<lparr>pk_type = SLH_DSA_192F, pk_data = replicate 48 1\<rparr>) empty_execdata =
     Inr ([replicate 48 1, [7]], empty_execdata\<lparr>m_codeseparator_pos := Some 0xffffffff\<rparr>)"
  using EvalScript_quantum_script [of "demo_env 0 WITNESS_V0" "\<lparr>pk_type = SLH_DSA_192F, pk_data = replicate 48 1\<rparr>" "[]" "[7]" empty_execdata]
  by (simp add: demo_env_def)

text \<open>
  A script that only pushes, as signature scripts do, leaves exactly the pushed values on top
  of the stack, the last one on top.
\<close>

lemma EvalScript_pushes:
  assumes "env_sigversion env \<noteq> TAPROOT" "length (concat (map push_data xs)) \<le> MAX_SCRIPT_SIZE"
    "list_all (push_size_ok env) xs" "fRequireMinimal env \<longrightarrow> list_all minimal_push xs"
    "length xs + length stack \<le> MAX_STACK_SIZE"
  shows "EvalScript env stack (concat (map push_data xs)) ed = Inr (rev xs @ stack, ed\<lparr>m_codeseparator_pos := Some 0xffffffff\<rparr>)"
proof -
  have "EvalScript_loop env (concat (map push_data xs)) (init_state stack (concat (map push_data xs)) ed) =
      Inr ((init_state stack (concat (map push_data xs)) ed)\<lparr>st_stack := rev xs @ stack, st_opcode_pos := of_nat (length xs)\<rparr>)"
    using assms EvalScript_loop_pushes [of "init_state stack (concat (map push_data xs)) ed" env xs "[]"]
    by (simp add: init_state_def)
  then show ?thesis
    unfolding EvalScript_small [OF assms(1,2)] by simp
qed

text \<open>
  C38.  A script that \<open>IsUnspendable\<close> reports fails for every stack and under all flags,
  in legacy and in version 0 witness scripts.
\<close>

theorem IsUnspendable_EvalScript:
  assumes "IsUnspendable script" "env_sigversion env = BASE \<or> env_sigversion env = WITNESS_V0"
  shows "EvalScript env stack script ed = Inl (if length script > MAX_SCRIPT_SIZE then SCRIPT_ERR_SCRIPT_SIZE else SCRIPT_ERR_OP_RETURN)"
proof (cases "length script > MAX_SCRIPT_SIZE")
  case False
  then obtain rest where "script = 106 # rest"
    using assms(1) by (cases script) (auto simp: IsUnspendable_def dest!: byte_of_unat)
  then show ?thesis
    using False assms(2)
    by (auto simp: EvalScript_small EvalScript_loop_exec disabled_opcode_def exec_opcode_def)
qed (use assms(2) in \<open>auto simp: EvalScript_def\<close>)

theorem IsUnspendable_EvalScript_witness:
  "IsUnspendable [0x6a, 0x51] \<and> EvalScript (demo_env 0 BASE) [] [0x6a, 0x51] empty_execdata = Inl SCRIPT_ERR_OP_RETURN"
  using IsUnspendable_EvalScript [of "[0x6a, 0x51]" "demo_env 0 BASE" "[]" empty_execdata]
  by (simp add: IsUnspendable_def demo_env_def)

end
