(* ===== verification/SoftFork.thy ===== *)
theory SoftFork
  imports Execution
begin

text \<open>
  The verification flags as soft forks.  \<open>src/script/interpreter.h\<close>, lines 40--44, asks
  that every flag only restricts what is accepted.  For \<open>EvalScript\<close> this is shown for all
  flags but \<open>SCRIPT_VERIFY_QUANTUM_SIGS\<close>: a run that succeeds under more flags succeeds
  with the same result under fewer of them.
\<close>

section \<open>Outcomes that agree on success\<close>

definition res_le :: "'e + 'a \<Rightarrow> 'e + 'a \<Rightarrow> bool" where
  "res_le r r' \<longleftrightarrow> (\<forall>x. r = Inr x \<longrightarrow> r' = Inr x)"

named_theorems res_le_intros "rules for comparing outcomes"

lemma res_le_refl [simp, res_le_intros]: "res_le r r"
  by (simp add: res_le_def)

lemma res_le_Inl [simp, res_le_intros]: "res_le (Inl e) r"
  by (simp add: res_le_def)

lemma res_le_bindE [res_le_intros]:
  "res_le m m' \<Longrightarrow> (\<And>x. m = Inr x \<Longrightarrow> m' = Inr x \<Longrightarrow> res_le (f x) (f' x)) \<Longrightarrow> res_le (bindE m f) (bindE m' f')"
  by (auto simp: res_le_def bindE_eq_Inr)

lemma res_le_if [res_le_intros]:
  "(b' \<Longrightarrow> b \<or> res_le y x') \<Longrightarrow> (\<not> b \<Longrightarrow> \<not> b' \<Longrightarrow> res_le y y') \<Longrightarrow> (b \<Longrightarrow> b' \<Longrightarrow> res_le x x') \<Longrightarrow>
   (b \<Longrightarrow> \<not> b' \<Longrightarrow> res_le x y') \<Longrightarrow> res_le (if b then x else y) (if b' then x' else y')"
  by auto

definition flags_le :: "script_flags \<Rightarrow> script_flags \<Rightarrow> bool" where
  "flags_le flags flags' \<longleftrightarrow> flags OR flags' = flags'"

lemma flags_le_has_flag: "flags_le flags flags' \<Longrightarrow> has_flag flags f \<Longrightarrow> has_flag flags' f"
  by (metis flags_le_def has_flag_or_flags)

text \<open>\<open>env'\<close> has the flags of \<open>env\<close> and possibly more, but treats quantum signatures alike.\<close>

definition fork_of :: "EvalEnv \<Rightarrow> EvalEnv \<Rightarrow> bool" where
  "fork_of env env' \<longleftrightarrow>
    env' = env\<lparr>env_flags := env_flags env'\<rparr> \<and> flags_le (env_flags env) (env_flags env') \<and>
    (has_flag (env_flags env') SCRIPT_VERIFY_QUANTUM_SIGS \<longleftrightarrow> has_flag (env_flags env) SCRIPT_VERIFY_QUANTUM_SIGS)"

lemma fork_of_fields:
  assumes "fork_of env env'"
  shows "env_checker env' = env_checker env" "env_sigversion env' = env_sigversion env"
    "env_hashes env' = env_hashes env" "env_CheckLowS env' = env_CheckLowS env"
    "has_flag (env_flags env') 0x200000 = has_flag (env_flags env) 0x200000"
    "has_flag (env_flags env) f \<Longrightarrow> has_flag (env_flags env') f"
    "fRequireMinimal env \<Longrightarrow> fRequireMinimal env'"
    "push_size_ok env' x = push_size_ok env x"
proof -
  from assms have e: "env' = env\<lparr>env_flags := env_flags env'\<rparr>"
    by (simp add: fork_of_def)
  show "env_checker env' = env_checker env" "env_sigversion env' = env_sigversion env"
    "env_hashes env' = env_hashes env" "env_CheckLowS env' = env_CheckLowS env"
    by (subst e, simp)+
  show "has_flag (env_flags env') 0x200000 = has_flag (env_flags env) 0x200000"
    "has_flag (env_flags env) f \<Longrightarrow> has_flag (env_flags env') f"
    "fRequireMinimal env \<Longrightarrow> fRequireMinimal env'" "push_size_ok env' x = push_size_ok env x"
    using assms by (auto simp: fork_of_def fRequireMinimal_def push_size_ok_def flags_le_has_flag)
qed


section \<open>Encodings, numbers and signature checks\<close>

lemma read_num_le: "fork_of env env' \<Longrightarrow> res_le (read_num env' k x) (read_num env k x)"
  using fork_of_fields(7) [of env env']
  by (auto simp: res_le_def read_num_def CScriptNum_eq split: sum.splits if_splits)

lemma CheckSignatureEncoding_le:
  "flags_le flags flags' \<Longrightarrow> res_le (CheckSignatureEncoding low sig flags') (CheckSignatureEncoding low sig flags)"
  using flags_le_has_flag [of flags flags']
  by (auto simp: res_le_def CheckSignatureEncoding_def IsLowDERSignature_def split: if_splits)

lemma CheckPubKeyEncoding_le:
  "flags_le flags flags' \<Longrightarrow> res_le (CheckPubKeyEncoding key flags' v) (CheckPubKeyEncoding key flags v)"
  using flags_le_has_flag [of flags flags']
  by (auto simp: res_le_def CheckPubKeyEncoding_def split: if_splits)

lemma EvalChecksigQuantum_fork: "fork_of env env' \<Longrightarrow> EvalChecksigQuantum sig key code env' = EvalChecksigQuantum sig key code env"
  unfolding EvalChecksigQuantum_def by (simp only: fork_of_fields(1,2))

lemma fork_of_flags_le: "fork_of env env' \<Longrightarrow> flags_le (env_flags env) (env_flags env')"
  by (simp add: fork_of_def)

lemma EvalChecksigPreTapscript_le:
  "fork_of env env' \<Longrightarrow> res_le (EvalChecksigPreTapscript sig key code env') (EvalChecksigPreTapscript sig key code env)"
  unfolding EvalChecksigPreTapscript_def Let_def fork_of_fields(1-4) split_def
  by (intro res_le_intros CheckSignatureEncoding_le CheckPubKeyEncoding_le fork_of_flags_le)
    (auto dest: fork_of_fields(6))

lemma EvalChecksigTapscript_le:
  "fork_of env env' \<Longrightarrow> res_le (EvalChecksigTapscript sig key ed env') (EvalChecksigTapscript sig key ed env)"
  unfolding EvalChecksigTapscript_def Let_def fork_of_fields(1-4)
  by (intro res_le_intros) (auto dest: fork_of_fields(6))

lemma EvalChecksig_le: "fork_of env env' \<Longrightarrow> res_le (EvalChecksig sig key env' st) (EvalChecksig sig key env st)"
  unfolding EvalChecksig_def fork_of_fields(2)
  by (cases "env_sigversion env")
    (auto intro!: res_le_intros EvalChecksigPreTapscript_le EvalChecksigTapscript_le)


section \<open>Opcodes\<close>

lemma res_le_case_list [res_le_intros]:
  "(xs = [] \<Longrightarrow> res_le a a') \<Longrightarrow> (\<And>x s. xs = x # s \<Longrightarrow> res_le (f x s) (f' x s)) \<Longrightarrow>
   res_le (case xs of [] \<Rightarrow> a | x # s \<Rightarrow> f x s) (case xs of [] \<Rightarrow> a' | x # s \<Rightarrow> f' x s)"
  by (cases xs) simp_all

lemma res_le_case_prod [res_le_intros]:
  "(\<And>x y. p = (x, y) \<Longrightarrow> res_le (f x y) (f' x y)) \<Longrightarrow>
   res_le (case p of (x, y) \<Rightarrow> f x y) (case p of (x, y) \<Rightarrow> f' x y)"
  by (cases p) simp

lemma control_ops_le:
  assumes "fork_of env env'"
  shows "res_le (op_checklocktimeverify env' st) (op_checklocktimeverify env st)"
    "res_le (op_checksequenceverify env' st) (op_checksequenceverify env st)"
    "res_le (op_nop env' st) (op_nop env st)"
    "res_le (op_checksig_ex env' opcode st) (op_checksig_ex env opcode st)"
    "res_le (op_if env' opcode fExec st) (op_if env opcode fExec st)"
  using assms read_num_le [OF assms, of 5]
  by (auto simp: op_defs fork_of_fields(1-5) EvalChecksigQuantum_fork Let_def res_le_def bindE_eq_Inr
      dest: fork_of_fields(6) split: if_splits list.splits)

lemma num_ops_le:
  assumes "fork_of env env'"
  shows "res_le (op_pick_roll env' opcode st) (op_pick_roll env opcode st)"
    "res_le (op_unary env' opcode st) (op_unary env opcode st)"
    "res_le (op_binary env' opcode st) (op_binary env opcode st)"
    "res_le (op_within env' st) (op_within env st)"
    "res_le (op_hash env' opcode st) (op_hash env opcode st)"
  unfolding op_pick_roll_def op_unary_def op_binary_def op_within_def op_hash_def fork_of_fields(3) [OF assms]
  by (intro res_le_intros read_num_le assms; simp)+

lemma sig_ops_le:
  assumes "fork_of env env'"
  shows "res_le (op_checksig env' opcode st) (op_checksig env opcode st)"
    "res_le (op_checksigadd env' st) (op_checksigadd env st)"
  unfolding op_checksig_def op_checksigadd_def fork_of_fields(2) [OF assms]
  by (intro res_le_intros EvalChecksig_le read_num_le assms; simp)+

lemma multisig_delete_le: "fork_of env env' \<Longrightarrow> res_le (multisig_delete env' sigs code) (multisig_delete env sigs code)"
  by (induction sigs arbitrary: code)
    (auto simp: fork_of_fields(2) dest: fork_of_fields(6) split: prod.split)

lemma multisig_match_le:
  "fork_of env env' \<Longrightarrow> res_le (multisig_match env' code sigs keys) (multisig_match env code sigs keys)"
proof (induction env code sigs keys rule: multisig_match.induct)
  case (3 env code sig sigs key keys)
  show ?case
    unfolding multisig_match.simps Let_def fork_of_fields(1-4) [OF "3.prems"]
    by (intro res_le_intros CheckSignatureEncoding_le CheckPubKeyEncoding_le fork_of_flags_le "3.IH" "3.prems" refl) auto
qed simp_all

lemma multisig_cleanup_le:
  "fork_of env env' \<Longrightarrow> res_le (multisig_cleanup env' ok i k stack) (multisig_cleanup env ok i k stack)"
  by (induction i arbitrary: k stack) (auto dest: fork_of_fields(6) split: list.split)

lemma checkmultisig_le:
  assumes "fork_of env env'"
  shows "res_le (op_checkmultisig env' opcode st) (op_checkmultisig env opcode st)"
  unfolding op_checkmultisig_def Let_def fork_of_fields(2) [OF assms]
  by (intro res_le_intros read_num_le multisig_delete_le multisig_match_le multisig_cleanup_le assms)
    (auto dest: fork_of_fields(6) [OF assms])

lemma exec_opcode_le:
  assumes "fork_of env env'"
  shows "res_le (exec_opcode env' opcode pc fExec st) (exec_opcode env opcode pc fExec st)"
  unfolding exec_opcode_def
  by (simp add: assms control_ops_le num_ops_le sig_ops_le checkmultisig_le)

lemma EvalScript_step_le:
  assumes "fork_of env env'"
  shows "res_le (EvalScript_step env' opcode vch pc st) (EvalScript_step env opcode vch pc st)"
  unfolding EvalScript_step_def exec_instruction_def Let_def fork_of_fields(2,8) [OF assms]
  by (intro res_le_intros exec_opcode_le assms) (auto dest: fork_of_fields(6,7) [OF assms])

lemma EvalScript_loop_le:
  "fork_of env env' \<Longrightarrow> res_le (EvalScript_loop env' pc st) (EvalScript_loop env pc st)"
proof (induction env pc st rule: EvalScript_loop.induct)
  case (1 env pc st)
  then show ?case
    by (subst (1 2) EvalScript_loop.simps)
      (auto split: option.split intro!: res_le_bindE EvalScript_step_le)
qed

lemma EvalScript_le:
  "fork_of env env' \<Longrightarrow> res_le (EvalScript env' stack script ed) (EvalScript env stack script ed)"
  unfolding EvalScript_def fork_of_fields(2) by (intro res_le_intros EvalScript_loop_le; simp add: fork_of_fields)


section \<open>Properties\<close>

text \<open>
  C17.  Every flag other than \<open>SCRIPT_VERIFY_QUANTUM_SIGS\<close> is a soft fork for
  \<open>EvalScript\<close>: a script that succeeds with additional flags succeeds without them, with
  the same final stack and execution data.
\<close>

theorem EvalScript_flags_soft_fork:
  assumes "extra AND SCRIPT_VERIFY_QUANTUM_SIGS = 0"
    and "EvalScript (env\<lparr>env_flags := flags OR extra\<rparr>) stack script ed = Inr r"
  shows "EvalScript (env\<lparr>env_flags := flags\<rparr>) stack script ed = Inr r"
proof -
  have "fork_of (env\<lparr>env_flags := flags\<rparr>) (env\<lparr>env_flags := flags OR extra\<rparr>)"
    using assms(1) by (simp add: fork_of_def flags_le_def or.assoc [symmetric])
  then show ?thesis
    using EvalScript_le assms(2) unfolding res_le_def by blast
qed

theorem EvalScript_flags_soft_fork_witness:
  "EvalScript (demo_env 0 BASE) [[5]] [118] empty_execdata =
   EvalScript (demo_env SCRIPT_VERIFY_MINIMALDATA BASE) [[5]] [118] empty_execdata"
proof -
  have run: "EvalScript ((demo_env 0 BASE)\<lparr>env_flags := 0 OR SCRIPT_VERIFY_MINIMALDATA\<rparr>) [[5]] [118] empty_execdata =
      Inr ([[5], [5]], empty_execdata\<lparr>m_codeseparator_pos := Some 0xffffffff\<rparr>)"
    by (simp add: EvalScript_def EvalScript_loop.simps GetOp_def GetScriptOp_def EvalScript_step_def Let_def push_size_ok_def
        disabled_opcode_def exec_instruction_def exec_opcode_def op_stack_def stack_op_single_def set_stack_def init_state_def
        all_true_def cs_init_def cs_empty_def demo_env_def)
  then show ?thesis
    using EvalScript_flags_soft_fork [OF _ run] by (simp add: demo_env_def)
qed

text \<open>
  C19.  \<open>SCRIPT_VERIFY_QUANTUM_SIGS\<close> is not a soft fork: pushing 1952 bytes, the size of
  an ML-DSA public key, fails under every set of flags without it and succeeds once it is added.
\<close>

theorem quantum_flag_not_soft_fork:
  assumes "length key = 1952" "\<not> has_flag flags SCRIPT_VERIFY_QUANTUM_SIGS"
  shows "EvalScript (demo_env flags WITNESS_V0) [] (push_data key) empty_execdata = Inl SCRIPT_ERR_PUSH_SIZE \<and>
    EvalScript (demo_env (flags OR SCRIPT_VERIFY_QUANTUM_SIGS) WITNESS_V0) [] (push_data key) empty_execdata =
      Inr ([key], empty_execdata\<lparr>m_codeseparator_pos := Some 0xffffffff\<rparr>)"
proof -
  let ?on = "demo_env (flags OR SCRIPT_VERIFY_QUANTUM_SIGS) WITNESS_V0"
  have l: "length (push_data key) \<le> 10000"
    using assms(1) by (simp add: push_data_def AppendDataSize_def)
  have g: "GetOp (push_data key) = Some (push_op (length key), key, [])"
    using GetOp_push_data [of key "[]"] assms(1) by simp
  have off: "\<not> push_size_ok (demo_env flags WITNESS_V0) key"
    using assms by (simp add: push_size_ok_def demo_env_def)
  have "push_size_ok ?on key" "minimal_push key"
    using assms(1) by (simp_all add: push_size_ok_def demo_env_def quantum_push_allowed_def minimal_push_def)
  then have "EvalScript ?on [] (push_data key) empty_execdata = Inr ([key], empty_execdata\<lparr>m_codeseparator_pos := Some 0xffffffff\<rparr>)"
    using EvalScript_loop_push [of "init_state [] (push_data key) empty_execdata" ?on key "[]"] l
    by (simp add: EvalScript_small demo_env_def)
  moreover have "EvalScript (demo_env flags WITNESS_V0) [] (push_data key) empty_execdata = Inl SCRIPT_ERR_PUSH_SIZE"
    using l off by (simp add: EvalScript_small demo_env_def [of _ "WITNESS_V0"] EvalScript_loop_GetOp [OF g] EvalScript_step_def)
  ultimately show ?thesis
    by simp
qed

theorem quantum_flag_not_soft_fork_witness:
  "EvalScript (demo_env 0 WITNESS_V0) [] (push_data (replicate 1952 0)) empty_execdata = Inl SCRIPT_ERR_PUSH_SIZE"
  using quantum_flag_not_soft_fork [of "replicate 1952 0" 0] by simp

end
