(* ===== verification/Verify.thy ===== *)
theory Verify
  imports Checker SoftFork
begin

text \<open>
  Verification of one input (\<open>src/script/interpreter.cpp\<close>, lines 2027--2457): witness
  programs, Taproot commitments, \<open>VerifyScript\<close> and the counting of signature operations in
  witnesses.  Flags, checker, hash functions and the low-S check are those of \<^typ>\<open>EvalEnv\<close>,
  whose signature version each evaluation sets; the tweak check of libsecp256k1 is the argument
  \<open>tweak\<close>.  A witness is the list of its elements, the first one at the bottom of
  the stack.
\<close>

section \<open>Witness scripts\<close>

abbreviation (input) TAPROOT_LEAF_MASK :: byte where "TAPROOT_LEAF_MASK \<equiv> 0xfe"
abbreviation (input) TAPROOT_LEAF_TAPSCRIPT :: byte where "TAPROOT_LEAF_TAPSCRIPT \<equiv> 0xc0"
abbreviation (input) TAPROOT_CONTROL_BASE_SIZE :: nat where "TAPROOT_CONTROL_BASE_SIZE \<equiv> 33"
abbreviation (input) TAPROOT_CONTROL_NODE_SIZE :: nat where "TAPROOT_CONTROL_NODE_SIZE \<equiv> 32"
abbreviation (input) TAPROOT_CONTROL_MAX_SIZE :: nat where "TAPROOT_CONTROL_MAX_SIZE \<equiv> 33 + 32 * 128"

text \<open>The scan for \<open>OP_SUCCESSx\<close>: \<^term>\<open>Inr True\<close> when one is found.\<close>

function scan_op_success :: "script_flags \<Rightarrow> valtype \<Rightarrow> ScriptError + bool" where
  "scan_op_success flags pc =
    (if pc = [] then Inr False
     else case GetOp pc of
       None \<Rightarrow> Inl SCRIPT_ERR_BAD_OPCODE
     | Some (opcode, _, pc') \<Rightarrow>
         if IsOpSuccess opcode then
           (if has_flag flags SCRIPT_VERIFY_DISCOURAGE_OP_SUCCESS then Inl SCRIPT_ERR_DISCOURAGE_OP_SUCCESS else Inr True)
         else scan_op_success flags pc')"
  by auto
termination
  by (relation "measure (\<lambda>(_, pc). length pc)") (auto dest: GetOp_length)

declare scan_op_success.simps [simp del]

definition quantum_script_element :: "valtype \<Rightarrow> bool" where
  "quantum_script_element elem = (case GetOp elem of
     None \<Rightarrow> False
   | Some (_, vch, pc) \<Rightarrow> length vch = 1 \<and> (case GetOp pc of
       None \<Rightarrow> False
     | Some (_, vch2, pc2) \<Rightarrow> vch2 \<noteq> [] \<and> (case GetOp pc2 of
         None \<Rightarrow> False
       | Some (opcode, _, pc3) \<Rightarrow> (opcode = OP_CHECKSIG_EX \<or> opcode = OP_CHECKSIGVERIFY_EX) \<and> pc3 = [])))"

definition witness_element_ok :: "script_flags \<Rightarrow> valtype \<Rightarrow> bool" where
  "witness_element_ok flags elem =
    (let allow_quantum = has_flag flags SCRIPT_VERIFY_QUANTUM_SIGS; n = length elem in
     if n > MAX_SCRIPT_ELEMENT_SIZE then
       (if allow_quantum \<and> n \<ge> 3310 \<and> n \<le> 3320 then True
        else if allow_quantum \<and> n \<ge> 35665 \<and> n \<le> 35680 then True
        else if allow_quantum \<and> n = 1952 then True
        else if allow_quantum \<and> n = 48 then True
        else if allow_quantum \<and> (n = 50 \<or> n = 1956) \<and> quantum_script_element elem then True
        else False)
     else True)"

definition ExecuteWitnessScript :: "EvalEnv \<Rightarrow> valtype list \<Rightarrow> CScript \<Rightarrow> ScriptExecutionData \<Rightarrow> ScriptError + unit" where
  "ExecuteWitnessScript env stack exec_script execdata =
    bindE (if env_sigversion env = TAPSCRIPT then
             bindE (scan_op_success (env_flags env) exec_script) (\<lambda>success.
               if success then Inr True
               else if length stack > MAX_STACK_SIZE then Inl SCRIPT_ERR_STACK_SIZE
               else Inr False)
           else Inr False)
      (\<lambda>success.
         if success then Inr ()
         else if \<not> list_all (witness_element_ok (env_flags env)) stack then Inl SCRIPT_ERR_PUSH_SIZE
         else bindE (EvalScript env (rev stack) exec_script execdata) (\<lambda>(stack, _).
           if length stack \<noteq> 1 then Inl SCRIPT_ERR_CLEANSTACK
           else if \<not> CastToBool (hd stack) then Inl SCRIPT_ERR_EVAL_FALSE
           else Inr ()))"


section \<open>Taproot commitments\<close>

definition ComputeTapleafHash :: "Hashes \<Rightarrow> byte \<Rightarrow> valtype \<Rightarrow> uint256" where
  "ComputeTapleafHash hs leaf_version script =
    SHA256 hs (TaggedHash hs ''TapLeaf'' @ [leaf_version] @ WriteCompactSize (length script) @ script)"

fun lexicographical_compare :: "valtype \<Rightarrow> valtype \<Rightarrow> bool" where
  "lexicographical_compare a [] = False"
| "lexicographical_compare [] (y # b) = True"
| "lexicographical_compare (x # a) (y # b) = (if x < y then True else if y < x then False else lexicographical_compare a b)"

definition ComputeTapbranchHash :: "Hashes \<Rightarrow> valtype \<Rightarrow> valtype \<Rightarrow> uint256" where
  "ComputeTapbranchHash hs a b =
    SHA256 hs (TaggedHash hs ''TapBranch'' @ (if lexicographical_compare a b then a @ b else b @ a))"

definition control_node :: "valtype \<Rightarrow> nat \<Rightarrow> valtype" where
  "control_node control i =
    take TAPROOT_CONTROL_NODE_SIZE (drop (TAPROOT_CONTROL_BASE_SIZE + TAPROOT_CONTROL_NODE_SIZE * i) control)"

definition ComputeTaprootMerkleRoot :: "Hashes \<Rightarrow> valtype \<Rightarrow> uint256 \<Rightarrow> ScriptError + uint256" where
  "ComputeTaprootMerkleRoot hs control tapleaf_hash =
    (if \<not> length control \<ge> TAPROOT_CONTROL_BASE_SIZE then Inl ASSERT_FAIL
     else if \<not> length control \<le> TAPROOT_CONTROL_MAX_SIZE then Inl ASSERT_FAIL
     else if (length control - TAPROOT_CONTROL_BASE_SIZE) mod TAPROOT_CONTROL_NODE_SIZE \<noteq> 0 then Inl ASSERT_FAIL
     else let path_len = (length control - TAPROOT_CONTROL_BASE_SIZE) div TAPROOT_CONTROL_NODE_SIZE in
       Inr (foldl (\<lambda>k i. ComputeTapbranchHash hs k (control_node control i)) tapleaf_hash [0..<path_len]))"

definition VerifyTaprootCommitment ::
  "(valtype \<Rightarrow> valtype \<Rightarrow> uint256 \<Rightarrow> bool \<Rightarrow> bool) \<Rightarrow> Hashes \<Rightarrow> valtype \<Rightarrow> valtype \<Rightarrow> uint256 \<Rightarrow> ScriptError + bool" where
  "VerifyTaprootCommitment tweak hs control program tapleaf_hash =
    (if \<not> length control \<ge> TAPROOT_CONTROL_BASE_SIZE then Inl ASSERT_FAIL
     else if \<not> length program \<ge> 32 then Inl ASSERT_FAIL
     else let p = take (TAPROOT_CONTROL_BASE_SIZE - 1) (drop 1 control) in
       bindE (ComputeTaprootMerkleRoot hs control tapleaf_hash) (\<lambda>merkle_root.
         Inr (tweak program p merkle_root (control ! 0 AND 1 \<noteq> 0))))"


section \<open>Witness programs\<close>

text \<open>
  Spending a Taproot output, after the witness has been found not to be empty.  On the key path
  a signature check that fails without setting an error leaves what the evaluation of the
  scriptPubKey set, \<open>SCRIPT_ERR_OK\<close>.
\<close>

definition split_annex :: "Hashes \<Rightarrow> valtype list \<Rightarrow> ScriptExecutionData \<Rightarrow> valtype list \<times> ScriptExecutionData" where
  "split_annex hs stack execdata =
    (if length stack \<ge> 2 \<and> last stack \<noteq> [] \<and> last stack ! 0 = ANNEX_TAG
     then (butlast stack, execdata\<lparr>m_annex := Some (Some (SHA256 hs (Serialize_bytes (last stack))))\<rparr>)
     else (stack, execdata\<lparr>m_annex := Some None\<rparr>))"

definition verify_key_path :: "EvalEnv \<Rightarrow> valtype \<Rightarrow> valtype \<Rightarrow> ScriptExecutionData \<Rightarrow> ScriptError + unit" where
  "verify_key_path env sig program execdata =
    (case CheckSchnorrSignature (env_checker env) sig program TAPROOT execdata of
       Inl e \<Rightarrow> Inl (if e = SCRIPT_ERR_UNKNOWN_ERROR then SCRIPT_ERR_OK else e)
     | Inr _ \<Rightarrow> Inr ())"

definition verify_script_path ::
  "(valtype \<Rightarrow> valtype \<Rightarrow> uint256 \<Rightarrow> bool \<Rightarrow> bool) \<Rightarrow> EvalEnv \<Rightarrow> valtype list \<Rightarrow> valtype list \<Rightarrow> valtype \<Rightarrow> ScriptExecutionData \<Rightarrow>
   ScriptError + unit" where
  "verify_script_path tweak env witness stack program execdata =
    (let control = last stack; script = last (butlast stack); stack = butlast (butlast stack) in
     if length control < TAPROOT_CONTROL_BASE_SIZE \<or> length control > TAPROOT_CONTROL_MAX_SIZE \<or>
        (length control - TAPROOT_CONTROL_BASE_SIZE) mod TAPROOT_CONTROL_NODE_SIZE \<noteq> 0
     then Inl SCRIPT_ERR_TAPROOT_WRONG_CONTROL_SIZE
     else
       let tapleaf_hash = ComputeTapleafHash (env_hashes env) (control ! 0 AND TAPROOT_LEAF_MASK) script in
       bindE (VerifyTaprootCommitment tweak (env_hashes env) control program tapleaf_hash) (\<lambda>ok.
         if \<not> ok then Inl SCRIPT_ERR_WITNESS_PROGRAM_MISMATCH
         else if control ! 0 AND TAPROOT_LEAF_MASK = TAPROOT_LEAF_TAPSCRIPT then
           ExecuteWitnessScript (env\<lparr>env_sigversion := TAPSCRIPT\<rparr>) stack script
             (execdata\<lparr>m_tapleaf_hash := Some tapleaf_hash,
               m_validation_weight_left := Some (int (length (ser_vector Serialize_bytes witness)) + VALIDATION_WEIGHT_OFFSET)\<rparr>)
         else if has_flag (env_flags env) SCRIPT_VERIFY_DISCOURAGE_UPGRADABLE_TAPROOT_VERSION
         then Inl SCRIPT_ERR_DISCOURAGE_UPGRADABLE_TAPROOT_VERSION
         else Inr ()))"

definition VerifyWitnessProgram ::
  "(valtype \<Rightarrow> valtype \<Rightarrow> uint256 \<Rightarrow> bool \<Rightarrow> bool) \<Rightarrow> EvalEnv \<Rightarrow> valtype list \<Rightarrow> nat \<Rightarrow> valtype \<Rightarrow> bool \<Rightarrow> ScriptError + unit" where
  "VerifyWitnessProgram tweak env witness witversion program is_p2sh =
    (if witversion = 0 then
       (if length program = WITNESS_V0_SCRIPTHASH_SIZE then
          (if length witness = 0 then Inl SCRIPT_ERR_WITNESS_PROGRAM_WITNESS_EMPTY
           else let exec_script = last witness in
             if SHA256 (env_hashes env) exec_script \<noteq> program then Inl SCRIPT_ERR_WITNESS_PROGRAM_MISMATCH
             else ExecuteWitnessScript (env\<lparr>env_sigversion := WITNESS_V0\<rparr>) (butlast witness) exec_script empty_execdata)
        else if length program = WITNESS_V0_KEYHASH_SIZE then
          (if length witness \<noteq> 2 then Inl SCRIPT_ERR_WITNESS_PROGRAM_MISMATCH
           else ExecuteWitnessScript (env\<lparr>env_sigversion := WITNESS_V0\<rparr>) witness
             (push_opcode OP_DUP @ push_opcode OP_HASH160 @ push_data program @ push_opcode OP_EQUALVERIFY @ push_opcode OP_CHECKSIG)
             empty_execdata)
        else Inl SCRIPT_ERR_WITNESS_PROGRAM_WRONG_LENGTH)
     else if witversion = 1 \<and> length program = WITNESS_V1_TAPROOT_SIZE \<and> \<not> is_p2sh then
       (if \<not> has_flag (env_flags env) SCRIPT_VERIFY_TAPROOT then Inr ()
        else if length witness = 0 then Inl SCRIPT_ERR_WITNESS_PROGRAM_WITNESS_EMPTY
        else case split_annex (env_hashes env) witness empty_execdata of
          (stack, execdata) \<Rightarrow>
            if length stack = 1 then verify_key_path env (hd stack) program execdata
            else verify_script_path tweak env witness stack program execdata)
     else if \<not> is_p2sh \<and> IsPayToAnchor_program witversion program then Inr ()
     else if has_flag (env_flags env) SCRIPT_VERIFY_DISCOURAGE_UPGRADABLE_WITNESS_PROGRAM
       then Inl SCRIPT_ERR_DISCOURAGE_UPGRADABLE_WITNESS_PROGRAM
     else Inr ())"


section \<open>VerifyScript\<close>

text \<open>
  The parts of \<open>VerifyScript\<close> in order: the two evaluations, the bare witness program,
  pay-to-script-hash, and the final checks.  They pass on the stack and whether a witness program
  was met; \<open>resize(1)\<close> keeps the bottom of the stack.
\<close>

definition stack_true :: "valtype list \<Rightarrow> ScriptError + unit" where
  "stack_true stack =
    (if stack = [] then Inl SCRIPT_ERR_EVAL_FALSE
     else if \<not> CastToBool (hd stack) then Inl SCRIPT_ERR_EVAL_FALSE else Inr ())"

definition eval_base :: "EvalEnv \<Rightarrow> valtype list \<Rightarrow> CScript \<Rightarrow> ScriptError + valtype list" where
  "eval_base env stack script = EvalScript_stack (env\<lparr>env_sigversion := BASE\<rparr>) stack script"

definition verify_bare_witness ::
  "(valtype \<Rightarrow> valtype \<Rightarrow> uint256 \<Rightarrow> bool \<Rightarrow> bool) \<Rightarrow> EvalEnv \<Rightarrow> CScript \<Rightarrow> CScript \<Rightarrow> valtype list \<Rightarrow> valtype list \<Rightarrow>
   ScriptError + (valtype list \<times> bool)" where
  "verify_bare_witness tweak env scriptSig scriptPubKey witness stack =
    (if has_flag (env_flags env) SCRIPT_VERIFY_WITNESS then
       (case IsWitnessProgram scriptPubKey of
          None \<Rightarrow> Inr (stack, False)
        | Some (witnessversion, witnessprogram) \<Rightarrow>
            if length scriptSig \<noteq> 0 then Inl SCRIPT_ERR_WITNESS_MALLEATED
            else bindE (VerifyWitnessProgram tweak env witness witnessversion witnessprogram False)
              (\<lambda>_. Inr ([last stack], True)))
     else Inr (stack, False))"

definition verify_p2sh ::
  "(valtype \<Rightarrow> valtype \<Rightarrow> uint256 \<Rightarrow> bool \<Rightarrow> bool) \<Rightarrow> EvalEnv \<Rightarrow> CScript \<Rightarrow> CScript \<Rightarrow> valtype list \<Rightarrow> valtype list \<Rightarrow>
   valtype list \<times> bool \<Rightarrow> ScriptError + (valtype list \<times> bool)" where
  "verify_p2sh tweak env scriptSig scriptPubKey witness stackCopy res =
    (if has_flag (env_flags env) SCRIPT_VERIFY_P2SH \<and> IsPayToScriptHash scriptPubKey then
       (if \<not> IsPushOnly scriptSig then Inl SCRIPT_ERR_SIG_PUSHONLY
        else case stackCopy of
          [] \<Rightarrow> Inl ASSERT_FAIL
        | pubKey2 # stack \<Rightarrow>
            bindE (eval_base env stack pubKey2) (\<lambda>stack.
              bindE (stack_true stack) (\<lambda>_.
                if has_flag (env_flags env) SCRIPT_VERIFY_WITNESS then
                  (case IsWitnessProgram pubKey2 of
                     None \<Rightarrow> Inr (stack, snd res)
                   | Some (witnessversion, witnessprogram) \<Rightarrow>
                       if scriptSig \<noteq> push_data pubKey2 then Inl SCRIPT_ERR_WITNESS_MALLEATED_P2SH
                       else bindE (VerifyWitnessProgram tweak env witness witnessversion witnessprogram True)
                         (\<lambda>_. Inr ([last stack], True)))
                else Inr (stack, snd res))))
     else Inr res)"

definition verify_final :: "EvalEnv \<Rightarrow> valtype list \<Rightarrow> valtype list \<times> bool \<Rightarrow> ScriptError + unit" where
  "verify_final env witness res =
    (let flags = env_flags env; (stack, hadWitness) = res in
     bindE (if has_flag flags SCRIPT_VERIFY_CLEANSTACK then
              (if \<not> has_flag flags SCRIPT_VERIFY_P2SH then Inl ASSERT_FAIL
               else if \<not> has_flag flags SCRIPT_VERIFY_WITNESS then Inl ASSERT_FAIL
               else if length stack \<noteq> 1 then Inl SCRIPT_ERR_CLEANSTACK
               else Inr ())
            else Inr ())
       (\<lambda>_. if has_flag flags SCRIPT_VERIFY_WITNESS then
               (if \<not> has_flag flags SCRIPT_VERIFY_P2SH then Inl ASSERT_FAIL
                else if \<not> hadWitness \<and> witness \<noteq> [] then Inl SCRIPT_ERR_WITNESS_UNEXPECTED
                else Inr ())
             else Inr ()))"

definition VerifyScript ::
  "(valtype \<Rightarrow> valtype \<Rightarrow> uint256 \<Rightarrow> bool \<Rightarrow> bool) \<Rightarrow> EvalEnv \<Rightarrow> CScript \<Rightarrow> CScript \<Rightarrow> valtype list \<Rightarrow> ScriptError + unit" where
  "VerifyScript tweak env scriptSig scriptPubKey witness =
    (if has_flag (env_flags env) SCRIPT_VERIFY_SIGPUSHONLY \<and> \<not> IsPushOnly scriptSig then Inl SCRIPT_ERR_SIG_PUSHONLY
     else bindE (eval_base env [] scriptSig) (\<lambda>stackCopy.
       bindE (eval_base env stackCopy scriptPubKey) (\<lambda>stack.
         bindE (stack_true stack) (\<lambda>_.
           bindE (verify_bare_witness tweak env scriptSig scriptPubKey witness stack) (\<lambda>res.
             bindE (verify_p2sh tweak env scriptSig scriptPubKey witness stackCopy res)
               (verify_final env witness))))))"


section \<open>Signature operations in witnesses\<close>

definition WitnessSigOps :: "nat \<Rightarrow> valtype \<Rightarrow> valtype list \<Rightarrow> nat" where
  "WitnessSigOps witversion witprogram witness =
    (if witversion = 0 then
       (if length witprogram = WITNESS_V0_KEYHASH_SIZE then 1
        else if length witprogram = WITNESS_V0_SCRIPTHASH_SIZE \<and> length witness > 0
        then GetSigOpCount True (last witness)
        else 0)
     else 0)"

text \<open>The last data read by the loop over a push-only signature script.\<close>

function last_data :: "valtype \<Rightarrow> valtype \<Rightarrow> valtype" where
  "last_data vData pc =
    (if pc = [] then vData
     else case GetOp pc of None \<Rightarrow> vData | Some (_, vch, pc') \<Rightarrow> last_data vch pc')"
  by auto
termination
  by (relation "measure (\<lambda>(_, pc). length pc)") (auto dest: GetOp_length)

declare last_data.simps [simp del]

definition CountWitnessSigOps :: "CScript \<Rightarrow> CScript \<Rightarrow> valtype list \<Rightarrow> script_flags \<Rightarrow> ScriptError + nat" where
  "CountWitnessSigOps scriptSig scriptPubKey witness flags =
    (if \<not> has_flag flags SCRIPT_VERIFY_WITNESS then Inr 0
     else if \<not> has_flag flags SCRIPT_VERIFY_P2SH then Inl ASSERT_FAIL
     else case IsWitnessProgram scriptPubKey of
       Some (witnessversion, witnessprogram) \<Rightarrow> Inr (WitnessSigOps witnessversion witnessprogram witness)
     | None \<Rightarrow>
         if IsPayToScriptHash scriptPubKey \<and> IsPushOnly scriptSig then
           (case IsWitnessProgram (last_data [] scriptSig) of
              Some (witnessversion, witnessprogram) \<Rightarrow> Inr (WitnessSigOps witnessversion witnessprogram witness)
            | None \<Rightarrow> Inr 0)
         else Inr 0)"

end
