(* ===== verification/VerifySafety.thy ===== *)
theory VerifySafety
  imports Verify
begin

text \<open>
  Safety of the verification of an input: flags only restrict what \<open>VerifyScript\<close>
  accepts, and no assertion fires when it is called the way block validation calls it.
\<close>

section \<open>Flags as soft forks\<close>

lemma fork_of_sigversion: "fork_of env env' \<Longrightarrow> fork_of (env\<lparr>env_sigversion := v\<rparr>) (env'\<lparr>env_sigversion := v\<rparr>)"
  by (cases env; cases env') (simp add: fork_of_def)

lemma res_le_unit [simp, res_le_intros]: "res_le r (Inr ())"
  by (simp add: res_le_def)

lemma witness_element_ok_fork:
  "fork_of env env' \<Longrightarrow> witness_element_ok (env_flags env') = witness_element_ok (env_flags env)"
  unfolding witness_element_ok_def [abs_def] Let_def by (simp only: fork_of_fields(5))

lemma scan_op_success_le:
  "fork_of env env' \<Longrightarrow> res_le (scan_op_success (env_flags env') pc) (scan_op_success (env_flags env) pc)"
proof (induction "env_flags env" pc rule: scan_op_success.induct)
  case (1 pc)
  then show ?case
    by (subst (1 2) scan_op_success.simps) (auto split: option.split dest: fork_of_fields(6))
qed

lemma ExecuteWitnessScript_le:
  assumes "fork_of env env'"
  shows "res_le (ExecuteWitnessScript env' stack script ed) (ExecuteWitnessScript env stack script ed)"
  unfolding ExecuteWitnessScript_def witness_element_ok_fork [OF assms] fork_of_fields(2) [OF assms]
  by (intro res_le_intros scan_op_success_le EvalScript_le assms; simp)

lemma VerifyWitnessProgram_le:
  assumes "fork_of env env'"
  shows "res_le (VerifyWitnessProgram tweak env' witness v program p2sh) (VerifyWitnessProgram tweak env witness v program p2sh)"
proof -
  have s: "res_le (verify_script_path tweak env' witness stack program ed) (verify_script_path tweak env witness stack program ed)" for stack ed
    unfolding verify_script_path_def Let_def fork_of_fields(3) [OF assms]
    by (intro res_le_intros ExecuteWitnessScript_le fork_of_sigversion assms) (auto dest: fork_of_fields(6) [OF assms])
  have k: "verify_key_path env' = verify_key_path env"
    unfolding verify_key_path_def [abs_def] fork_of_fields(1) [OF assms] ..
  show ?thesis
    unfolding VerifyWitnessProgram_def Let_def fork_of_fields(3) [OF assms] k
    by (intro res_le_intros ExecuteWitnessScript_le fork_of_sigversion assms s) (auto dest: fork_of_fields(6) [OF assms])
qed

lemma eval_base_le: "fork_of env env' \<Longrightarrow> res_le (eval_base env' stack script) (eval_base env stack script)"
  unfolding eval_base_def EvalScript_stack_def
  by (intro res_le_intros EvalScript_le fork_of_sigversion) auto

lemma verify_bare_witness_le:
  assumes "fork_of env env'" "has_flag (env_flags env) SCRIPT_VERIFY_WITNESS"
  shows "res_le (verify_bare_witness tweak env' scriptSig spk witness stack) (verify_bare_witness tweak env scriptSig spk witness stack)"
  unfolding verify_bare_witness_def using assms fork_of_fields(6) [OF assms(1) assms(2)]
  by (auto intro!: res_le_intros VerifyWitnessProgram_le split: option.split)

lemma verify_p2sh_le:
  assumes "fork_of env env'" "has_flag (env_flags env) SCRIPT_VERIFY_WITNESS" "has_flag (env_flags env) SCRIPT_VERIFY_P2SH"
  shows "res_le (verify_p2sh tweak env' scriptSig spk witness stackCopy res) (verify_p2sh tweak env scriptSig spk witness stackCopy res)"
  unfolding verify_p2sh_def using assms fork_of_fields(6) [OF assms(1) assms(2)] fork_of_fields(6) [OF assms(1) assms(3)]
  by (auto intro!: res_le_intros VerifyWitnessProgram_le eval_base_le split: option.split)

lemma verify_p2sh_without_witness:
  assumes "fork_of env env'" "\<not> has_flag (env_flags env) SCRIPT_VERIFY_WITNESS"
    and "verify_p2sh tweak env' scriptSig spk witness stackCopy res = Inr r"
  shows "\<exists>r'. verify_p2sh tweak env scriptSig spk witness stackCopy res' = Inr r'"
proof (cases "has_flag (env_flags env) SCRIPT_VERIFY_P2SH \<and> IsPayToScriptHash spk")
  case True
  then have "has_flag (env_flags env') SCRIPT_VERIFY_P2SH"
    using fork_of_fields(6) [OF assms(1)] by blast
  with True assms(3) obtain x st stack
    where "IsPushOnly scriptSig" "stackCopy = x # st" "eval_base env' st x = Inr stack" "stack_true stack = Inr ()"
    by (auto simp: verify_p2sh_def bindE_eq_Inr split: list.splits if_splits)
  then show ?thesis
    using True assms(2) eval_base_le [OF assms(1)] by (simp add: verify_p2sh_def res_le_def)
qed (auto simp: verify_p2sh_def)

definition flags_consistent :: "script_flags \<Rightarrow> bool" where
  "flags_consistent flags \<longleftrightarrow>
    (has_flag flags SCRIPT_VERIFY_CLEANSTACK \<longrightarrow> has_flag flags SCRIPT_VERIFY_WITNESS) \<and>
    (has_flag flags SCRIPT_VERIFY_WITNESS \<longrightarrow> has_flag flags SCRIPT_VERIFY_P2SH)"

lemma VerifyScript_le:
  assumes fork: "fork_of env env'" and cons: "flags_consistent (env_flags env)"
  shows "res_le (VerifyScript tweak env' scriptSig spk witness) (VerifyScript tweak env scriptSig spk witness)"
proof (cases "VerifyScript tweak env' scriptSig spk witness")
  case (Inr u)
  note le = fork_of_fields(6) [OF fork]
  from Inr obtain sc st r1 r2
    where e: "\<not> (has_flag (env_flags env') SCRIPT_VERIFY_SIGPUSHONLY \<and> \<not> IsPushOnly scriptSig)"
      "eval_base env' [] scriptSig = Inr sc" "eval_base env' sc spk = Inr st" "stack_true st = Inr ()"
      and b: "verify_bare_witness tweak env' scriptSig spk witness st = Inr r1"
      and p: "verify_p2sh tweak env' scriptSig spk witness sc r1 = Inr r2"
      and f: "verify_final env' witness r2 = Inr ()"
    by (auto simp: VerifyScript_def bindE_eq_Inr split: if_splits)
  have "eval_base env [] scriptSig = Inr sc" "eval_base env sc spk = Inr st"
    "\<not> (has_flag (env_flags env) SCRIPT_VERIFY_SIGPUSHONLY \<and> \<not> IsPushOnly scriptSig)"
    using e eval_base_le [OF fork] le by (auto simp: res_le_def)
  then have v: "VerifyScript tweak env scriptSig spk witness =
    bindE (verify_bare_witness tweak env scriptSig spk witness st) (\<lambda>res.
      bindE (verify_p2sh tweak env scriptSig spk witness sc res) (verify_final env witness))"
    using e(4) by (auto simp: VerifyScript_def)
  show ?thesis
  proof (cases "has_flag (env_flags env) SCRIPT_VERIFY_WITNESS")
    case True
    then have P: "has_flag (env_flags env) SCRIPT_VERIFY_P2SH"
      using cons by (simp add: flags_consistent_def)
    have "verify_bare_witness tweak env scriptSig spk witness st = Inr r1"
      "verify_p2sh tweak env scriptSig spk witness sc r1 = Inr r2"
      using verify_bare_witness_le [OF fork True] verify_p2sh_le [OF fork True P] b p unfolding res_le_def by blast+
    moreover have "verify_final env witness r2 = Inr ()"
      using f True P le by (auto simp: verify_final_def Let_def bindE_eq_Inr split: if_splits prod.splits)
    ultimately show ?thesis
      by (simp add: v)
  next
    case False
    then have "verify_bare_witness tweak env scriptSig spk witness st = Inr (st, False)"
      by (simp add: verify_bare_witness_def)
    moreover obtain r where "verify_p2sh tweak env scriptSig spk witness sc (st, False) = Inr r"
      using verify_p2sh_without_witness [OF fork False p] by blast
    moreover have "verify_final env witness r = Inr ()" for r
      using False cons by (simp add: verify_final_def flags_consistent_def Let_def split: prod.split)
    ultimately show ?thesis
      by (simp add: v)
  qed
qed simp

text \<open>
  C3.  Every verification flag but the quantum one is a soft fork for whole inputs: if an input
  verifies with additional flags, it verifies without them, provided the flags that remain are
  ones the code allows together (a clean stack requires witnesses, witnesses require
  pay-to-script-hash).
\<close>
theorem VerifyScript_flags_soft_fork:
  assumes "extra AND SCRIPT_VERIFY_QUANTUM_SIGS = 0" and "flags_consistent flags"
    and "VerifyScript tweak (env\<lparr>env_flags := flags OR extra\<rparr>) scriptSig scriptPubKey witness = Inr ()"
  shows "VerifyScript tweak (env\<lparr>env_flags := flags\<rparr>) scriptSig scriptPubKey witness = Inr ()"
proof -
  have "fork_of (env\<lparr>env_flags := flags\<rparr>) (env\<lparr>env_flags := flags OR extra\<rparr>)"
    using assms(1) by (simp add: fork_of_def flags_le_def or.assoc [symmetric])
  then show ?thesis
    using VerifyScript_le assms(2,3) by (simp add: res_le_def)
qed



section \<open>No assertion fires\<close>

lemma runs_EvalScript_loop:
  assumes "checker_ok (env_sigversion env) (env_checker env)" "env_sigversion env \<noteq> TAPROOT" "hash_sizes (env_hashes env)" "eval_inv env st"
  shows "runs (eval_inv env) (EvalScript_loop env pc st)"
  using assms
proof (induction env pc st rule: EvalScript_loop.induct)
  case (1 env pc st)
  have "runs (\<lambda>st'. runs (eval_inv env) (EvalScript_loop env pc' (st'\<lparr>st_opcode_pos := st_opcode_pos st' + 1\<rparr>)))
      (EvalScript_step env opcode vch pc' st)"
    if "pc \<noteq> []" "GetOp pc = Some (opcode, vch, pc')" for opcode vch pc'
    using 1(1) [OF that refl refl] 1(2-5)
    by (intro runs_mono [OF runs_EvalScript_step [of env st opcode vch pc']]) auto
  then show ?case
    using "1.prems" by (subst EvalScript_loop.simps) (auto split: option.split)
qed

lemma push_size_ok_sigversion [simp]: "push_size_ok (env\<lparr>env_sigversion := v\<rparr>) = push_size_ok env"
  by (simp add: push_size_ok_def [abs_def])

definition tapscript_data :: "ScriptExecutionData \<Rightarrow> bool" where
  "tapscript_data ed \<longleftrightarrow> m_tapleaf_hash ed \<noteq> None \<and> m_annex ed \<noteq> None \<and> (\<exists>w \<ge> 0. m_validation_weight_left ed = Some w)"

lemma runs_EvalScript:
  assumes "checker_ok (env_sigversion env) (env_checker env)" "env_sigversion env \<noteq> TAPROOT" "hash_sizes (env_hashes env)"
    "list_all (push_size_ok env) stack" "env_sigversion env = TAPSCRIPT \<longrightarrow> tapscript_data ed"
  shows "runs (\<lambda>r. list_all (push_size_ok env) (fst r)) (EvalScript env stack script ed)"
proof -
  have "eval_inv env (init_state stack script ed)"
    using assms(4,5) by (intro init_state_ok) (auto simp: tapscript_data_def)
  from runs_EvalScript_loop [OF assms(1-3) this, of script] show ?thesis
    using assms(2) by (auto simp: EvalScript_def runs_rules eval_inv_def elim!: runs_mono)
qed

lemma runs_eval_base:
  assumes "checker_ok BASE (env_checker env)" "hash_sizes (env_hashes env)" "list_all (push_size_ok env) stack"
  shows "runs (list_all (push_size_ok env)) (eval_base env stack script)"
  using runs_EvalScript [of "env\<lparr>env_sigversion := BASE\<rparr>" stack empty_execdata script] assms
  by (auto simp: eval_base_def EvalScript_stack_def split_def elim!: runs_mono)

lemma witness_element_push_size: "witness_element_ok (env_flags env) x \<Longrightarrow> push_size_ok env x"
  by (auto simp: witness_element_ok_def push_size_ok_def quantum_push_allowed_def Let_def split: if_splits)

lemma scan_op_success_no_assert: "scan_op_success flags pc \<noteq> Inl ASSERT_FAIL"
proof (induction flags pc rule: scan_op_success.induct)
  case (1 flags pc)
  then show ?case
    by (subst scan_op_success.simps) (auto split: option.split)
qed

lemma runs_iff_no_assert: "runs (\<lambda>_. True) r \<longleftrightarrow> r \<noteq> Inl ASSERT_FAIL"
  by (cases r) auto

lemma ExecuteWitnessScript_no_assert:
  assumes "checker_ok (env_sigversion env) (env_checker env)" "env_sigversion env \<noteq> TAPROOT" "hash_sizes (env_hashes env)"
    "env_sigversion env = TAPSCRIPT \<longrightarrow> tapscript_data ed"
  shows "runs (\<lambda>_. True) (ExecuteWitnessScript env stack script ed)"
proof -
  have "runs (\<lambda>_. True) (EvalScript env (rev stack) script ed)" if "list_all (witness_element_ok (env_flags env)) stack"
    using runs_EvalScript [OF assms(1-3) _ assms(4), of "rev stack" script] that witness_element_push_size
    by (auto simp: list_all_iff elim!: runs_mono)
  moreover have "runs (\<lambda>_. True) (scan_op_success (env_flags env) script)"
    using scan_op_success_no_assert by (simp add: runs_iff_no_assert)
  ultimately show ?thesis
    by (auto simp: ExecuteWitnessScript_def runs_rules split_def elim!: runs_mono)
qed

lemma runs_VerifyTaprootCommitment:
  assumes "33 \<le> length control" "length control \<le> 4129" "(length control - 33) mod 32 = 0" "length program = 32"
  shows "runs (\<lambda>_. True) (VerifyTaprootCommitment tweak hs control program h)"
  using assms by (simp add: VerifyTaprootCommitment_def ComputeTaprootMerkleRoot_def Let_def)

text \<open>What the verification of an output with a given script needs of the checker.\<close>

definition taproot_checker_ok :: "SignatureChecker \<Rightarrow> bool" where
  "taproot_checker_ok c \<longleftrightarrow> checker_ok TAPSCRIPT c \<and>
    (\<forall>sig key ed. m_annex ed \<noteq> None \<and> length key = 32 \<longrightarrow> CheckSchnorrSignature c sig key TAPROOT ed \<noteq> Inl ASSERT_FAIL)"

definition verify_ready :: "EvalEnv \<Rightarrow> CScript \<Rightarrow> valtype list \<Rightarrow> bool" where
  "verify_ready env spk witness \<longleftrightarrow>
    flags_consistent (env_flags env) \<and> hash_sizes (env_hashes env) \<and>
    checker_ok BASE (env_checker env) \<and> checker_ok WITNESS_V0 (env_checker env) \<and>
    (\<forall>program. IsWitnessProgram spk = Some (1, program) \<and> length program = 32 \<and> witness \<noteq> [] \<longrightarrow>
       taproot_checker_ok (env_checker env))"

lemma verify_script_path_no_assert:
  assumes "taproot_checker_ok (env_checker env)" "hash_sizes (env_hashes env)" "length program = 32" "m_annex ed \<noteq> None"
  shows "runs (\<lambda>_. True) (verify_script_path tweak env witness stack program ed)"
proof -
  have "runs (\<lambda>_. True) (ExecuteWitnessScript (env\<lparr>env_sigversion := TAPSCRIPT\<rparr>) s script
      (ed\<lparr>m_tapleaf_hash := Some h, m_validation_weight_left := Some (int n + VALIDATION_WEIGHT_OFFSET)\<rparr>))" for s script h n
    using assms by (intro ExecuteWitnessScript_no_assert) (auto simp: taproot_checker_ok_def tapscript_data_def)
  then show ?thesis
    using assms(3) unfolding verify_script_path_def Let_def
    by (auto simp: runs_rules not_less intro!: runs_mono [OF runs_VerifyTaprootCommitment])
qed

lemma split_annex_ready:
  "split_annex hs witness ed = (stack, ed') \<Longrightarrow> m_annex ed' \<noteq> None"
  by (auto simp: split_annex_def split: if_splits)

lemma VerifyWitnessProgram_no_assert:
  assumes "hash_sizes (env_hashes env)" "checker_ok WITNESS_V0 (env_checker env)"
    "v = 1 \<and> length program = 32 \<and> witness \<noteq> [] \<and> \<not> p2sh \<longrightarrow> taproot_checker_ok (env_checker env)"
  shows "runs (\<lambda>_. True) (VerifyWitnessProgram tweak env witness v program p2sh)"
proof -
  have "runs (\<lambda>_. True) (ExecuteWitnessScript (env\<lparr>env_sigversion := WITNESS_V0\<rparr>) s script ed)" for s script ed
    using assms by (intro ExecuteWitnessScript_no_assert) simp_all
  moreover have "runs (\<lambda>_. True) (verify_script_path tweak env witness stack program ed)"
    "verify_key_path env sig program ed \<noteq> Inl ASSERT_FAIL"
    if "v = 1" "length program = 32" "witness \<noteq> []" "\<not> p2sh" "m_annex ed \<noteq> None" for stack ed sig
    using that assms verify_script_path_no_assert [of env program ed]
    by (auto simp: verify_key_path_def taproot_checker_ok_def split: sum.split)
  ultimately show ?thesis
    unfolding VerifyWitnessProgram_def Let_def
    by (auto simp: runs_rules runs_iff_no_assert split: prod.split dest: split_annex_ready)
qed

lemma EvalScript_P2SH_empty:
  assumes "IsPayToScriptHash spk" "env_sigversion env = BASE"
  shows "EvalScript env [] spk ed = Inl SCRIPT_ERR_INVALID_STACK_OPERATION"
proof -
  obtain h where h: "spk = GetScriptForDestination (ScriptHash h)" "length spk = 23"
    using IsPayToScriptHash_script [OF assms(1)] assms(1) by (metis IsPayToScriptHash_def)
  then have "\<exists>rest. spk = 169 # rest"
    by (simp add: push_opcode_def)
  then show ?thesis
    using h(2) assms(2) by (auto simp: EvalScript_small EvalScript_loop_exec disabled_opcode_def exec_opcode_def op_hash_def)
qed

lemma VerifyScript_no_assert_aux:
  assumes "verify_ready env spk witness"
  shows "runs (\<lambda>_. True) (VerifyScript tweak env scriptSig spk witness)"
proof -
  note ready = assms [unfolded verify_ready_def flags_consistent_def]
  have base: "runs (list_all (push_size_ok env)) (eval_base env stack script)" if "list_all (push_size_ok env) stack" for stack script
    using that ready by (intro runs_eval_base) auto
  have bare: "runs (\<lambda>_. True) (verify_bare_witness tweak env scriptSig spk witness stack)" for stack
    using ready VerifyWitnessProgram_no_assert [of env _ _ witness False]
    by (auto simp: verify_bare_witness_def runs_rules split: option.split)
  have p2sh: "runs (\<lambda>_. True) (verify_p2sh tweak env scriptSig spk witness sc res)"
    if sc: "list_all (push_size_ok env) sc" and e: "eval_base env sc spk = Inr st" for sc st res
  proof (cases "IsPayToScriptHash spk")
    case True
    with e obtain x s where x: "sc = x # s"
      using EvalScript_P2SH_empty [of spk "env\<lparr>env_sigversion := BASE\<rparr>"] by (cases sc) (auto simp: eval_base_def EvalScript_stack_def)
    have "runs (\<lambda>_. True) (VerifyWitnessProgram tweak env witness v program True)" for v program
      using ready by (intro VerifyWitnessProgram_no_assert) auto
    then show ?thesis
      using sc unfolding verify_p2sh_def x
      by (auto simp: runs_rules stack_true_def split: option.split intro!: runs_mono [OF base])
  qed (simp add: verify_p2sh_def)
  have final: "runs (\<lambda>_. True) (verify_final env witness res)" for res
    using ready by (auto simp: verify_final_def Let_def split: prod.split)
  show ?thesis
    unfolding VerifyScript_def
    by (auto simp: runs_rules stack_true_def final intro!: runs_mono [OF base] runs_mono [OF bare] runs_mono [OF p2sh])
qed

lemma eval_base_OP_TRUE: "eval_base env [] [0x51] = Inr [[1]]" "eval_base env stack [] = Inr stack"
  by (simp_all add: eval_base_def EvalScript_stack_def EvalScript_def EvalScript_loop.simps GetOp_def GetScriptOp_def
      EvalScript_step_def Let_def push_size_ok_def disabled_opcode_def exec_instruction_def exec_opcode_def op_push_number_def
      set_stack_def init_state_def all_true_def cs_init_def cs_empty_def serialize_def scriptnum_bytes.simps)

lemma VerifyScript_OP_TRUE:
  "flags_consistent (env_flags env) \<Longrightarrow> VerifyScript tweak env [] [0x51] [] = Inr ()"
  by (simp add: VerifyScript_def eval_base_OP_TRUE stack_true_def verify_bare_witness_def verify_p2sh_def verify_final_def
      IsWitnessProgram_def IsPayToScriptHash_def IsPushOnly.simps flags_consistent_def Let_def)

theorem VerifyScript_flags_soft_fork_witness:
  "VerifyScript (\<lambda>_ _ _ _. True) (demo_env SCRIPT_VERIFY_P2SH BASE) [] [0x51] [] = Inr ()"
proof -
  have c: "flags_consistent SCRIPT_VERIFY_P2SH" "flags_consistent (SCRIPT_VERIFY_P2SH OR SCRIPT_VERIFY_WITNESS)"
    by (simp_all add: flags_consistent_def has_flag_def)
  have "VerifyScript (\<lambda>_ _ _ _. True) ((demo_env 0 BASE)\<lparr>env_flags := SCRIPT_VERIFY_P2SH OR SCRIPT_VERIFY_WITNESS\<rparr>) [] [0x51] [] = Inr ()"
    using c(2) by (intro VerifyScript_OP_TRUE) simp
  from VerifyScript_flags_soft_fork [OF _ c(1) this] show ?thesis
    by (simp add: demo_env_def)
qed

end
