(* ===== verification/CuckooCache.thy ===== *)
theory CuckooCache
  imports Bytes
begin

text \<open>
  The cache of \<open>src/cuckoocache.h\<close> behind the signature cache and the script execution
  cache, with the flags of \<open>bit_packed_atomic_flags\<close> and the range reduction of
  \<open>src/util/fastrange.h\<close>.  Sizes and counters are 32-bit words, so that the wrap-around
  of the code is the model's.  The cache promises little: what it contains was inserted, and an
  insertion forgets at most one element.  The locale \<open>lossy_set\<close> is what its clients rely
  on.
\<close>

section \<open>Flags packed in bytes\<close>

definition bit_packed_atomic_flags :: "32 word \<Rightarrow> byte list" where
  "bit_packed_atomic_flags sz = replicate (unat ((sz + 7) div 8)) 0xFF"

definition bit_set :: "byte list \<Rightarrow> 32 word \<Rightarrow> byte list" where
  "bit_set mem s = (let i = unat (drop_bit 3 s) in mem[i := mem ! i OR push_bit (unat (s AND 7)) 1])"

definition bit_unset :: "byte list \<Rightarrow> 32 word \<Rightarrow> byte list" where
  "bit_unset mem s = (let i = unat (drop_bit 3 s) in mem[i := mem ! i AND NOT (push_bit (unat (s AND 7)) 1)])"

definition bit_is_set :: "byte list \<Rightarrow> 32 word \<Rightarrow> bool" where
  "bit_is_set mem s = (push_bit (unat (s AND 7)) 1 AND mem ! unat (drop_bit 3 s) \<noteq> 0)"


section \<open>The cache\<close>

definition FastRange32 :: "32 word \<Rightarrow> 32 word \<Rightarrow> 32 word" where
  "FastRange32 x n = ucast (drop_bit 32 ((ucast x :: 64 word) * ucast n))"

record 'e cache =
  c_table :: "'e list"
  c_size :: "32 word"
  collection_flags :: "byte list"
  epoch_flags :: "bool list"
  epoch_heuristic_counter :: "32 word"
  epoch_size :: "32 word"
  depth_limit :: byte

type_synonym 'e hash_function = "nat \<Rightarrow> 'e \<Rightarrow> 32 word"

definition compute_hashes :: "'e hash_function \<Rightarrow> 'e cache \<Rightarrow> 'e \<Rightarrow> 32 word list" where
  "compute_hashes h c e = map (\<lambda>k. FastRange32 (h k e) (c_size c)) [0..<8]"

definition invalid_loc :: "32 word" where
  "invalid_loc = NOT 0"

definition allow_erase :: "'e cache \<Rightarrow> 32 word \<Rightarrow> 'e cache" where
  "allow_erase c n = c\<lparr>collection_flags := bit_set (collection_flags c) n\<rparr>"

definition please_keep :: "'e cache \<Rightarrow> 32 word \<Rightarrow> 'e cache" where
  "please_keep c n = c\<lparr>collection_flags := bit_unset (collection_flags c) n\<rparr>"

text \<open>The two scans of \<open>epoch_check\<close>, over the indices below the size.\<close>

definition epoch_unused_count :: "'e cache \<Rightarrow> 32 word" where
  "epoch_unused_count c =
    of_nat (length (filter (\<lambda>i. epoch_flags c ! i \<and> \<not> bit_is_set (collection_flags c) (of_nat i)) [0..<unat (c_size c)]))"

definition age_epoch :: "'e cache \<Rightarrow> nat \<Rightarrow> 'e cache" where
  "age_epoch c i =
    (if epoch_flags c ! i then c\<lparr>epoch_flags := (epoch_flags c)[i := False]\<rparr> else allow_erase c (of_nat i))"

definition epoch_check :: "'e cache \<Rightarrow> 'e cache" where
  "epoch_check c =
    (if epoch_heuristic_counter c \<noteq> 0 then c\<lparr>epoch_heuristic_counter := epoch_heuristic_counter c - 1\<rparr>
     else let unused = epoch_unused_count c in
       if unused \<ge> epoch_size c
       then (foldl age_epoch c [0..<unat (c_size c)])\<lparr>epoch_heuristic_counter := epoch_size c\<rparr>
       else c\<lparr>epoch_heuristic_counter := max 1 (max (epoch_size c div 16) (epoch_size c - unused))\<rparr>)"

text \<open>
  \<open>setup\<close>; the depth limit is the integer part of a floating point logarithm, an argument
  here.  New entries of the table hold the value of the element type's default constructor.
\<close>

definition setup_cache :: "(32 word \<Rightarrow> byte) \<Rightarrow> 'e \<Rightarrow> 32 word \<Rightarrow> 'e cache" where
  "setup_cache log2 e0 new_size =
    (let sz = max 2 new_size;
         epoch = max 1 ((45 * sz) div 100) in
     \<lparr>c_table = replicate (unat sz) e0, c_size = sz, collection_flags = bit_packed_atomic_flags sz,
      epoch_flags = replicate (unat sz) False, epoch_heuristic_counter = epoch, epoch_size = epoch,
      depth_limit = log2 sz\<rparr>)"

definition setup_bytes :: "(32 word \<Rightarrow> byte) \<Rightarrow> 'e \<Rightarrow> nat \<Rightarrow> nat \<Rightarrow> 'e cache" where
  "setup_bytes log2 e0 element_size bytes =
    setup_cache log2 e0 (of_nat (min (bytes div element_size) (2 ^ 32 - 1)))"

text \<open>Writing an element, or keeping the one that is there, marks the slot as used.\<close>

definition keep_slot :: "'e cache \<Rightarrow> 32 word \<Rightarrow> bool \<Rightarrow> 'e cache" where
  "keep_slot c loc last_epoch = (please_keep c loc)\<lparr>epoch_flags := (epoch_flags c)[unat loc := last_epoch]\<rparr>"

text \<open>\<open>std::find\<close>: the position of the value, or the length.\<close>

definition find_index :: "'a \<Rightarrow> 'a list \<Rightarrow> nat" where
  "find_index x xs = length (takeWhile (\<lambda>y. y \<noteq> x) xs)"

primrec insert_loop :: "'e hash_function \<Rightarrow> nat \<Rightarrow> 'e cache \<Rightarrow> 'e \<Rightarrow> 32 word list \<Rightarrow> 32 word \<Rightarrow> bool \<Rightarrow> 'e cache" where
  "insert_loop h 0 c e locs last_loc last_epoch = c"
| "insert_loop h (Suc depth) c e locs last_loc last_epoch =
    (case find (bit_is_set (collection_flags c)) locs of
       Some loc \<Rightarrow> keep_slot (c\<lparr>c_table := (c_table c)[unat loc := e]\<rparr>) loc last_epoch
     | None \<Rightarrow>
         let last_loc = locs ! ((1 + find_index last_loc locs) mod 8);
             e' = c_table c ! unat last_loc;
             epoch = epoch_flags c ! unat last_loc;
             c = c\<lparr>c_table := (c_table c)[unat last_loc := e],
                   epoch_flags := (epoch_flags c)[unat last_loc := last_epoch]\<rparr>
         in insert_loop h depth c e' (compute_hashes h c e') last_loc epoch)"

definition cache_insert :: "'e hash_function \<Rightarrow> 'e cache \<Rightarrow> 'e \<Rightarrow> 'e cache" where
  "cache_insert h c e =
    (let c = epoch_check c;
         locs = compute_hashes h c e in
     case find (\<lambda>loc. c_table c ! unat loc = e) locs of
       Some loc \<Rightarrow> keep_slot c loc True
     | None \<Rightarrow> insert_loop h (unat (depth_limit c)) c e locs invalid_loc True)"

definition cache_contains :: "'e hash_function \<Rightarrow> 'e cache \<Rightarrow> 'e \<Rightarrow> bool \<Rightarrow> bool \<times> 'e cache" where
  "cache_contains h c e erase =
    (case find (\<lambda>loc. c_table c ! unat loc = e) (compute_hashes h c e) of
       Some loc \<Rightarrow> (True, if erase then allow_erase c loc else c)
     | None \<Rightarrow> (False, c))"


section \<open>Facts on the flags\<close>

lemma bit_is_set_iff: "bit_is_set mem s \<longleftrightarrow> bit (mem ! unat (drop_bit 3 s)) (unat (s AND 7))"
  by (simp add: bit_is_set_def bit_iff_and_push_bit_not_eq_0 and.commute)

lemma and_7: "unat (s AND 7 :: 32 word) = unat s mod 8"
proof -
  have "s AND 7 = s mod 8"
    using take_bit_eq_mask [of 3 s] unfolding take_bit_eq_mod mask_eq_exp_minus_1 by simp
  then show ?thesis
    by (simp add: unat_mod)
qed

lemma drop_3: "unat (drop_bit 3 s :: 32 word) = unat s div 8"
  by (simp add: drop_bit_eq_div unat_div)

lemma same_flag: "unat s div 8 = unat t div 8 \<Longrightarrow> unat s mod 8 = unat t mod 8 \<Longrightarrow> s = (t :: 32 word)"
  by (metis div_mult_mod_eq word_unat_eq_iff)

lemma bit_is_set_set_unset:
  assumes "unat s < 8 * length mem"
  shows "bit_is_set (bit_set mem s) t \<longleftrightarrow> s = t \<or> bit_is_set mem t"
    and "bit_is_set (bit_unset mem s) t \<longleftrightarrow> s \<noteq> t \<and> bit_is_set mem t"
proof -
  have i: "unat s div 8 < length mem"
    using assms by simp
  have st: "unat s div 8 = unat t div 8 \<and> unat s mod 8 = unat t mod 8 \<longleftrightarrow> s = t"
    using same_flag by auto
  have b: "bit (2 ^ n :: byte) m \<longleftrightarrow> n = m \<and> m < 8" for n m
    by (auto simp: bit_exp_iff)
  show "bit_is_set (bit_set mem s) t \<longleftrightarrow> s = t \<or> bit_is_set mem t"
    using i st unfolding bit_is_set_iff bit_set_def Let_def and_7 drop_3
    by (cases "unat s div 8 = unat t div 8") (auto simp: bit_or_iff b)
  show "bit_is_set (bit_unset mem s) t \<longleftrightarrow> s \<noteq> t \<and> bit_is_set mem t"
    using i st unfolding bit_is_set_iff bit_unset_def Let_def and_7 drop_3
    by (cases "unat s div 8 = unat t div 8") (auto simp: bit_and_iff bit_not_iff b)
qed

lemma length_bit_set [simp]: "length (bit_set mem s) = length mem" "length (bit_unset mem s) = length mem"
  by (simp_all add: bit_set_def bit_unset_def Let_def)


section \<open>Every access is in range\<close>

definition wf_cache :: "'e cache \<Rightarrow> bool" where
  "wf_cache c \<longleftrightarrow> 0 < c_size c \<and> length (c_table c) = unat (c_size c) \<and> length (epoch_flags c) = unat (c_size c) \<and>
    unat (c_size c) \<le> 8 * length (collection_flags c)"

lemma FastRange32_less: "0 < n \<Longrightarrow> unat (FastRange32 x n) < unat n"
proof -
  assume n: "0 < n"
  have b: "unat w < 2 ^ 32" for w :: "32 word"
    using unsigned_less [of w, where 'a = nat] by simp
  have "unat x * unat n < 2 ^ 32 * 2 ^ 32"
    using b [of x] b [of n] by (intro mult_strict_mono) auto
  then have "unat ((ucast x :: 64 word) * ucast n) = unat x * unat n"
    using b [of x] b [of n] by (simp add: unat_word_ariths unsigned_ucast_eq take_bit_eq_mod)
  then have u: "unat (drop_bit 32 ((ucast x :: 64 word) * ucast n)) = unat x * unat n div 2 ^ 32"
    by (simp add: drop_bit_eq_div unat_div)
  have "unat x * unat n < unat n * 2 ^ 32"
    using b [of x] n by (simp add: word_less_nat_alt)
  then have l: "unat x * unat n div 2 ^ 32 < unat n"
    by (rule less_mult_imp_div_less)
  have "unat x * unat n div 2 ^ 32 < 2 ^ 32"
    using l b [of n] by simp
  then show ?thesis
    using l by (simp add: FastRange32_def unsigned_ucast_eq u take_bit_eq_mod)
qed

lemma compute_hashes_in_range:
  assumes "wf_cache c" "loc \<in> set (compute_hashes h c e)"
  shows "unat loc < length (c_table c)"
  using assms FastRange32_less [of "c_size c"] by (auto simp: wf_cache_def compute_hashes_def)

lemma length_compute_hashes [simp]: "length (compute_hashes h c e) = 8"
  by (simp add: compute_hashes_def)

lemma compute_hashes_cong: "c_size c = c_size c' \<Longrightarrow> compute_hashes h c = compute_hashes h c'"
  by (simp add: compute_hashes_def fun_eq_iff)

lemma cache_fields [simp]:
  "c_table (allow_erase c n) = c_table c" "c_size (allow_erase c n) = c_size c" "depth_limit (allow_erase c n) = depth_limit c"
  "c_table (keep_slot c n b) = c_table c" "c_size (keep_slot c n b) = c_size c" "depth_limit (keep_slot c n b) = depth_limit c"
  by (simp_all add: allow_erase_def keep_slot_def please_keep_def)

lemma wf_cache_updates [simp]:
  "wf_cache c \<Longrightarrow> wf_cache (allow_erase c n)" "wf_cache c \<Longrightarrow> wf_cache (keep_slot c n b)"
  "wf_cache (c\<lparr>c_table := (c_table c)[i := e]\<rparr>) = wf_cache c"
  "wf_cache (c\<lparr>c_table := (c_table c)[i := e], epoch_flags := (epoch_flags c)[j := b]\<rparr>) = wf_cache c"
  "wf_cache (c\<lparr>epoch_flags := (epoch_flags c)[j := b]\<rparr>) = wf_cache c"
  "wf_cache (c\<lparr>epoch_heuristic_counter := k\<rparr>) = wf_cache c"
  by (simp_all add: wf_cache_def allow_erase_def keep_slot_def please_keep_def)

lemma age_epochs:
  "c_table (foldl age_epoch c is) = c_table c \<and> c_size (foldl age_epoch c is) = c_size c \<and>
   (wf_cache c \<longrightarrow> wf_cache (foldl age_epoch c is))"
  by (induction "is" arbitrary: c) (auto simp: age_epoch_def)

lemma epoch_check_keeps [simp]:
  "c_table (epoch_check c) = c_table c" "c_size (epoch_check c) = c_size c" "wf_cache c \<Longrightarrow> wf_cache (epoch_check c)"
  by (simp_all add: epoch_check_def Let_def age_epochs)

lemma wf_setup_cache:
  assumes "new_size \<le> 0xFFFFFFF8"
  shows "wf_cache (setup_cache log2 e0 new_size)"
proof -
  let ?s = "max 2 new_size"
  have s: "?s \<le> 0xFFFFFFF8"
    using assms by simp
  then have "unat ?s \<le> 0xFFFFFFF8"
    by (simp only: word_le_nat_alt) simp
  then have "unat (?s + 7) = unat ?s + 7"
    by (simp only: unat_word_ariths) simp
  then have "unat ((?s + 7) div 8) = (unat ?s + 7) div 8"
    by (simp only: unat_div) simp
  moreover have "(2 :: 32 word) \<le> ?s"
    by simp
  then have "0 < ?s"
    by (rule less_le_trans [rotated]) simp
  ultimately show ?thesis
    by (simp add: wf_cache_def setup_cache_def Let_def bit_packed_atomic_flags_def)
qed


section \<open>What is found\<close>

definition found :: "'e hash_function \<Rightarrow> 'e cache \<Rightarrow> 'e set" where
  "found h c = {e. \<exists>loc \<in> set (compute_hashes h c e). c_table c ! unat loc = e}"

lemma cache_contains_iff: "fst (cache_contains h c e erase) \<longleftrightarrow> e \<in> found h c"
  by (auto simp: cache_contains_def found_def find_None_iff split: option.split dest!: find_Some_iff [THEN iffD1])

lemma snd_cache_contains: "c_table (snd (cache_contains h c e erase)) = c_table c"
  "wf_cache c \<Longrightarrow> wf_cache (snd (cache_contains h c e erase))"
  by (simp_all add: cache_contains_def split: option.split)

lemma found_in_table: "wf_cache c \<Longrightarrow> found h c \<subseteq> set (c_table c)"
  using compute_hashes_in_range by (fastforce simp: found_def)

lemma found_cong: "c_table c = c_table c' \<Longrightarrow> c_size c = c_size c' \<Longrightarrow> found h c = found h c'"
  by (simp add: found_def compute_hashes_cong [of c c'])

lemma found_write:
  assumes "wf_cache c" "loc \<in> set (compute_hashes h c e)" "c_size c' = c_size c" "c_table c' = (c_table c)[unat loc := e]"
  shows "insert e (found h c) \<subseteq> insert (c_table c ! unat loc) (found h c')"
proof
  fix y
  assume y: "y \<in> insert e (found h c)"
  have hashes: "compute_hashes h c' = compute_hashes h c"
    using assms(3) by (rule compute_hashes_cong)
  have loc: "unat loc < length (c_table c)"
    using assms(1,2) by (rule compute_hashes_in_range)
  show "y \<in> insert (c_table c ! unat loc) (found h c')"
  proof (cases "y = e")
    case True
    then show ?thesis
      using assms(2,4) loc by (auto simp: found_def hashes intro!: bexI [of _ loc])
  next
    case False
    then obtain l where "l \<in> set (compute_hashes h c y)" "c_table c ! unat l = y"
      using y by (auto simp: found_def)
    moreover have "unat l \<noteq> unat loc" if "l \<noteq> loc"
      using that by (simp add: word_unat_eq_iff)
    ultimately show ?thesis
      using assms(4) by (cases "l = loc") (auto simp: found_def hashes nth_list_update intro!: bexI [of _ l])
  qed
qed

lemma insert_loop_spec:
  assumes "wf_cache c" "locs = compute_hashes h c e"
  shows "wf_cache (insert_loop h d c e locs l b) \<and>
    set (c_table (insert_loop h d c e locs l b)) \<subseteq> insert e (set (c_table c)) \<and>
    (\<exists>x. insert e (found h c) \<subseteq> insert x (found h (insert_loop h d c e locs l b)))"
  using assms
proof (induction d arbitrary: c e locs l b)
  case (Suc d)
  show ?case
  proof (cases "find (bit_is_set (collection_flags c)) locs")
    case (Some loc)
    then have "loc \<in> set (compute_hashes h c e)"
      using Suc.prems(2) by (auto simp: find_Some_iff)
    then have "insert e (found h c) \<subseteq> insert (c_table c ! unat loc) (found h (insert_loop h (Suc d) c e locs l b))"
      using Some by (intro found_write [OF Suc.prems(1)]) simp_all
    then show ?thesis
      using Suc.prems(1) Some by (intro conjI exI) (simp_all add: set_update_subset_insert)
  next
    case None
    define loc where "loc = locs ! ((1 + find_index l locs) mod 8)"
    define e' where "e' = c_table c ! unat loc"
    define c' where "c' = c\<lparr>c_table := (c_table c)[unat loc := e], epoch_flags := (epoch_flags c)[unat loc := b]\<rparr>"
    have loc: "loc \<in> set (compute_hashes h c e)"
      unfolding loc_def using Suc.prems(2) by (auto intro!: nth_mem)
    have wf: "wf_cache c'"
      using Suc.prems(1) by (simp add: c'_def)
    have eq: "insert_loop h (Suc d) c e locs l b = insert_loop h d c' e' (compute_hashes h c' e') loc (epoch_flags c ! unat loc)"
      using None by (simp add: Let_def loc_def e'_def c'_def)
    note IH = Suc.IH [OF wf refl, of e' loc "epoch_flags c ! unat loc"]
    have "set (c_table c') \<subseteq> insert e (set (c_table c))"
      unfolding c'_def by (simp add: set_update_subset_insert)
    moreover have "e' \<in> set (c_table c)"
      unfolding e'_def using compute_hashes_in_range [OF Suc.prems(1) loc] by simp
    moreover have "insert e (found h c) \<subseteq> insert e' (found h c')"
      unfolding e'_def using Suc.prems(1) loc by (rule found_write) (simp_all add: c'_def)
    moreover obtain x where "insert e' (found h c') \<subseteq> insert x (found h (insert_loop h (Suc d) c e locs l b))"
      using IH unfolding eq by blast
    ultimately have "insert e (found h c) \<subseteq> insert x (found h (insert_loop h (Suc d) c e locs l b))"
      "set (c_table (insert_loop h (Suc d) c e locs l b)) \<subseteq> insert e (set (c_table c))"
      using IH unfolding eq by auto
    then show ?thesis
      using IH unfolding eq by auto
  qed
qed auto

lemma cache_insert_spec:
  assumes "wf_cache c"
  shows "wf_cache (cache_insert h c e)" "set (c_table (cache_insert h c e)) \<subseteq> insert e (set (c_table c))"
    "\<exists>x. insert e (found h c) \<subseteq> insert x (found h (cache_insert h c e))"
proof -
  let ?c = "epoch_check c"
  have f: "found h ?c = found h c"
    by (rule found_cong) simp_all
  have "wf_cache (cache_insert h c e) \<and> set (c_table (cache_insert h c e)) \<subseteq> insert e (set (c_table c)) \<and>
    (\<exists>x. insert e (found h c) \<subseteq> insert x (found h (cache_insert h c e)))"
  proof (cases "find (\<lambda>loc. c_table ?c ! unat loc = e) (compute_hashes h ?c e)")
    case None
    then have eq: "cache_insert h c e = insert_loop h (unat (depth_limit ?c)) ?c e (compute_hashes h ?c e) invalid_loc True"
      by (simp add: cache_insert_def Let_def)
    show ?thesis
      using insert_loop_spec [of ?c "compute_hashes h ?c e" h e "unat (depth_limit ?c)" invalid_loc True] assms unfolding eq f by simp
  next
    case (Some loc)
    then have eq: "cache_insert h c e = keep_slot ?c loc True" and "e \<in> found h ?c"
      by (auto simp: cache_insert_def Let_def found_def dest!: find_Some_iff [THEN iffD1])
    moreover have "found h (keep_slot ?c loc True) = found h ?c"
      by (rule found_cong) simp_all
    ultimately show ?thesis
      using assms f by auto
  qed
  then show "wf_cache (cache_insert h c e)" "set (c_table (cache_insert h c e)) \<subseteq> insert e (set (c_table c))"
    "\<exists>x. insert e (found h c) \<subseteq> insert x (found h (cache_insert h c e))"
    by simp_all
qed

text \<open>
  C14.  An insertion into the cache keeps the table consistent, so that every later access is in
  range, stores nothing that was not stored or is now inserted, and forgets at most one element:
  everything that was found before, and the inserted element, is found afterwards, with the
  possible exception of one.
\<close>
theorem cache_insert_forgets_one:
  assumes "wf_cache c"
  shows "wf_cache (cache_insert h c e) \<and> set (c_table (cache_insert h c e)) \<subseteq> insert e (set (c_table c)) \<and>
    (\<exists>x. \<forall>y. (y = e \<or> fst (cache_contains h c y False)) \<and> y \<noteq> x \<longrightarrow> fst (cache_contains h (cache_insert h c e) y False))"
proof -
  obtain x where "insert e (found h c) \<subseteq> insert x (found h (cache_insert h c e))"
    using cache_insert_spec(3) [OF assms] ..
  then show ?thesis
    unfolding cache_contains_iff using cache_insert_spec(1,2) [OF assms] by (intro conjI exI [of _ x]) auto
qed

definition demo_cache :: "nat cache" where
  "demo_cache = setup_cache (\<lambda>_. 1) 0 2"

theorem cache_insert_forgets_one_witness:
  "wf_cache demo_cache \<and> wf_cache (cache_insert (\<lambda>k e. of_nat e) demo_cache 7) \<and>
   set (c_table (cache_insert (\<lambda>k e. of_nat e) demo_cache 7)) \<subseteq> {7, 0}"
proof -
  have "wf_cache demo_cache"
    unfolding demo_cache_def by (rule wf_setup_cache) simp
  moreover have "set (c_table demo_cache) = {0}"
    by (simp add: demo_cache_def setup_cache_def Let_def)
  ultimately show ?thesis
    using cache_insert_forgets_one [of demo_cache "\<lambda>k e. of_nat e" 7] by simp
qed


section \<open>The contract for clients\<close>

text \<open>
  What a cache of validated data needs of the set it is kept in: lookups and insertions keep the
  invariant, a hit was stored, a lookup stores nothing and an insertion only its element.
\<close>

locale lossy_set =
  fixes inv :: "'c \<Rightarrow> bool"
    and elems :: "'c \<Rightarrow> 'e set"
    and contains :: "'c \<Rightarrow> 'e \<Rightarrow> bool \<Rightarrow> bool \<times> 'c"
    and insert_elem :: "'c \<Rightarrow> 'e \<Rightarrow> 'c"
  assumes hit: "inv c \<Longrightarrow> fst (contains c e b) \<Longrightarrow> e \<in> elems c"
    and contains_elems: "elems (snd (contains c e b)) = elems c"
    and contains_inv: "inv c \<Longrightarrow> inv (snd (contains c e b))"
    and insert_elems: "inv c \<Longrightarrow> elems (insert_elem c e) \<subseteq> insert e (elems c)"
    and insert_inv: "inv c \<Longrightarrow> inv (insert_elem c e)"
begin

text \<open>
  Looking a check up before running it.  If every stored entry belongs to a check that succeeds,
  up to entries in \<open>E\<close>, and the entry of this check belongs to no other one and is not in
  \<open>E\<close>, then the answer is the one of the check, and stored entries keep belonging to
  checks that succeed.
\<close>

lemma cached_check:
  assumes "inv c" "elems c \<subseteq> E \<union> entry ` {k. valid k}"
    and "entry k \<notin> E" "\<And>k'. valid k' \<Longrightarrow> entry k' = entry k \<Longrightarrow> k' = k"
    and "contains c (entry k) b = (h, c')" "r = (if h then True else valid k)"
    and "c'' = (if \<not> h \<and> valid k \<and> store then insert_elem c' (entry k) else c')"
  shows "r = valid k \<and> inv c'' \<and> elems c'' \<subseteq> E \<union> entry ` {k. valid k}"
proof -
  have c': "inv c'" "elems c' = elems c"
    using assms(1,5) contains_inv [of c "entry k" b] contains_elems [of c "entry k" b] by auto
  have "valid k" if h
    using hit [OF assms(1), of "entry k" b] assms(2-5) that by auto
  then show ?thesis
    using c' assms(2,6,7) insert_inv [OF c'(1), of "entry k"] insert_elems [OF c'(1), of "entry k"] by auto
qed

end

interpretation cuckoo: lossy_set wf_cache "\<lambda>c. set (c_table c)" "cache_contains h" "cache_insert h"
proof
  fix c :: "'a cache" and e b
  show "wf_cache c \<Longrightarrow> fst (cache_contains h c e b) \<Longrightarrow> e \<in> set (c_table c)"
    using found_in_table by (fastforce simp: cache_contains_iff)
qed (simp_all add: snd_cache_contains cache_insert_spec)

end
