(* ===== verification/SigCache.thy ===== *)
theory SigCache
  imports CuckooCache Checker
begin

text \<open>
  The signature cache (\<open>src/script/sigcache.h\<close>, \<open>.cpp\<close>) and the signature checker
  that looks signatures up in it before verifying them.  The checks of the node use this checker;
  the result of this theory is that they return what the checker without a cache returns, so that
  the rest of the development can work with the latter.
\<close>

section \<open>The cache of valid signatures\<close>

text \<open>\<open>SignatureCacheHasher\<close> of \<open>src/util/hasher.h\<close>, on a little endian machine.\<close>

definition SignatureCacheHasher :: "uint256 hash_function" where
  "SignatureCacheHasher hash_select key = of_nat (le_val (take 4 (drop (4 * hash_select) key)))"

record SignatureCache =
  sc_nonce :: uint256
  setValid :: "uint256 cache"

definition PADDING_ECDSA :: valtype where "PADDING_ECDSA = 0x45 # replicate 31 0"
definition PADDING_SCHNORR :: valtype where "PADDING_SCHNORR = 0x53 # replicate 31 0"

definition SignatureCache_new :: "(32 word \<Rightarrow> byte) \<Rightarrow> uint256 \<Rightarrow> nat \<Rightarrow> SignatureCache" where
  "SignatureCache_new log2 nonce max_size_bytes =
    \<lparr>sc_nonce = nonce, setValid = setup_bytes log2 uint256_ZERO 32 max_size_bytes\<rparr>"

definition ComputeEntryECDSA :: "Hashes \<Rightarrow> SignatureCache \<Rightarrow> uint256 \<Rightarrow> valtype \<Rightarrow> valtype \<Rightarrow> uint256" where
  "ComputeEntryECDSA hs sc hash vchSig pubkey = SHA256 hs (sc_nonce sc @ PADDING_ECDSA @ hash @ pubkey @ vchSig)"

definition ComputeEntrySchnorr :: "Hashes \<Rightarrow> SignatureCache \<Rightarrow> uint256 \<Rightarrow> valtype \<Rightarrow> valtype \<Rightarrow> uint256" where
  "ComputeEntrySchnorr hs sc hash sig pubkey = SHA256 hs (sc_nonce sc @ PADDING_SCHNORR @ hash @ pubkey @ sig)"

definition SignatureCache_Get :: "SignatureCache \<Rightarrow> uint256 \<Rightarrow> bool \<Rightarrow> bool \<times> SignatureCache" where
  "SignatureCache_Get sc entry erase =
    (let (hit, c) = cache_contains SignatureCacheHasher (setValid sc) entry erase in (hit, sc\<lparr>setValid := c\<rparr>))"

definition SignatureCache_Set :: "SignatureCache \<Rightarrow> uint256 \<Rightarrow> SignatureCache" where
  "SignatureCache_Set sc entry = sc\<lparr>setValid := cache_insert SignatureCacheHasher (setValid sc) entry\<rparr>"


section \<open>The checker with the cache\<close>

definition Caching_VerifyECDSASignature ::
  "verify_ops \<Rightarrow> bool \<Rightarrow> SignatureCache \<Rightarrow> valtype \<Rightarrow> valtype \<Rightarrow> uint256 \<Rightarrow> bool \<times> SignatureCache" where
  "Caching_VerifyECDSASignature ops store sc vchSig pubkey sighash =
    (let entry = ComputeEntryECDSA (vo_hashes ops) sc sighash vchSig pubkey;
         (hit, sc) = SignatureCache_Get sc entry (\<not> store) in
     if hit then (True, sc)
     else if \<not> CPubKey_Verify (cr_ecdsa (vo_crypto ops)) pubkey sighash vchSig then (False, sc)
     else (True, if store then SignatureCache_Set sc entry else sc))"

definition Caching_VerifySchnorrSignature ::
  "verify_ops \<Rightarrow> bool \<Rightarrow> SignatureCache \<Rightarrow> valtype \<Rightarrow> valtype \<Rightarrow> uint256 \<Rightarrow> bool \<times> SignatureCache" where
  "Caching_VerifySchnorrSignature ops store sc sig pubkey sighash =
    (let entry = ComputeEntrySchnorr (vo_hashes ops) sc sighash sig pubkey;
         (hit, sc) = SignatureCache_Get sc entry (\<not> store) in
     if hit then (True, sc)
     else if \<not> VerifySchnorr (vo_xonly ops) pubkey sighash sig then (False, sc)
     else (True, if store then SignatureCache_Set sc entry else sc))"

text \<open>
  The signature checks of \<open>GenericTransactionSignatureChecker\<close> with the virtual calls
  resolved to the caching ones.  Next to the result they return the cache; it is unchanged when a
  Schnorr signature is refused, since then it had no entry.
\<close>

definition Caching_CheckECDSASignature ::
  "verify_ops \<Rightarrow> TransactionChecker \<Rightarrow> bool \<Rightarrow> SignatureCache \<Rightarrow> valtype \<Rightarrow> valtype \<Rightarrow> CScript \<Rightarrow> SigVersion \<Rightarrow>
   ScriptError + bool \<times> SignatureCache" where
  "Caching_CheckECDSASignature ops ck store sc vchSigIn vchPubKey scriptCode sigversion =
    (let pubkey = CPubKey_Set vchPubKey in
     if \<not> CPubKey_IsValid pubkey then Inr (False, sc)
     else if vchSigIn = [] then Inr (False, sc)
     else let nHashType = last vchSigIn; vchSig = butlast vchSigIn in
       if missing_amount ck sigversion then bindE (HandleMissingData (ck_mdb ck)) (\<lambda>r. Inr (r, sc))
       else bindE (ck_SignatureHash ops ck scriptCode nHashType sigversion) (\<lambda>sighash.
         Inr (Caching_VerifyECDSASignature ops store sc vchSig pubkey sighash)))"

definition Caching_CheckSchnorrSignature ::
  "verify_ops \<Rightarrow> TransactionChecker \<Rightarrow> bool \<Rightarrow> SignatureCache \<Rightarrow> valtype \<Rightarrow> valtype \<Rightarrow> SigVersion \<Rightarrow> ScriptExecutionData \<Rightarrow>
   ScriptError + ScriptExecutionData \<times> SignatureCache" where
  "Caching_CheckSchnorrSignature ops ck store sc sig pubkey_in sigversion execdata =
    (if \<not> (sigversion = TAPROOT \<or> sigversion = TAPSCRIPT) then Inl ASSERT_FAIL
     else if length pubkey_in \<noteq> 32 then Inl ASSERT_FAIL
     else if length sig \<noteq> 64 \<and> length sig \<noteq> 65 then Inl SCRIPT_ERR_SCHNORR_SIG_SIZE
     else if length sig = 65 \<and> last sig = SIGHASH_DEFAULT then Inl SCRIPT_ERR_SCHNORR_SIG_HASHTYPE
     else
       let hashtype = (if length sig = 65 then last sig else SIGHASH_DEFAULT);
           sig = (if length sig = 65 then butlast sig else sig) in
       case ck_txdata ck of
         None \<Rightarrow> bindE (HandleMissingData (ck_mdb ck)) (\<lambda>_. Inl SCRIPT_ERR_UNKNOWN_ERROR)
       | Some txdata \<Rightarrow>
           bindE (SignatureHashSchnorr (vo_hashes ops) execdata (ck_txTo ck) (ck_nIn ck) hashtype sigversion txdata (ck_mdb ck))
             (\<lambda>r. case r of
                None \<Rightarrow> Inl SCRIPT_ERR_SCHNORR_SIG_HASHTYPE
              | Some (sighash, execdata) \<Rightarrow>
                  (case Caching_VerifySchnorrSignature ops store sc sig pubkey_in sighash of
                     (False, _) \<Rightarrow> Inl SCRIPT_ERR_SCHNORR_SIG
                   | (True, sc) \<Rightarrow> Inr (execdata, sc))))"


section \<open>Entries belong to valid signatures\<close>

text \<open>
  A signature check is a signed hash, a signature and a public key.  Keys of both kinds tell their
  length, so that the bytes hashed for an entry determine the check.
\<close>

datatype sig_check = ECDSA_check uint256 valtype valtype | Schnorr_check uint256 valtype valtype

primrec check_preimage :: "uint256 \<Rightarrow> sig_check \<Rightarrow> valtype" where
  "check_preimage nonce (ECDSA_check hash sig key) = nonce @ PADDING_ECDSA @ hash @ key @ sig"
| "check_preimage nonce (Schnorr_check hash sig key) = nonce @ PADDING_SCHNORR @ hash @ key @ sig"

primrec check_valid :: "verify_ops \<Rightarrow> sig_check \<Rightarrow> bool" where
  "check_valid ops (ECDSA_check hash sig key) =
    (length hash = 32 \<and> CPubKey_ValidSize key \<and> CPubKey_Verify (cr_ecdsa (vo_crypto ops)) key hash sig)"
| "check_valid ops (Schnorr_check hash sig key) =
    (length hash = 32 \<and> length key = 32 \<and> VerifySchnorr (vo_xonly ops) key hash sig)"

primrec check_sized :: "sig_check \<Rightarrow> bool" where
  "check_sized (ECDSA_check hash sig key) = (length hash = 32 \<and> CPubKey_ValidSize key)"
| "check_sized (Schnorr_check hash sig key) = (length hash = 32 \<and> length key = 32)"

definition cache_ok :: "verify_ops \<Rightarrow> SignatureCache \<Rightarrow> bool" where
  "cache_ok ops sc \<longleftrightarrow> wf_cache (setValid sc) \<and>
    set (c_table (setValid sc)) \<subseteq> {uint256_ZERO} \<union> (\<lambda>k. SHA256 (vo_hashes ops) (check_preimage (sc_nonce sc) k)) ` {k. check_valid ops k}"

text \<open>
  No collision of SHA256 between the entry of a check and the entry of a valid check, nor with the
  value of an empty slot.
\<close>

definition no_collision :: "verify_ops \<Rightarrow> SignatureCache \<Rightarrow> sig_check \<Rightarrow> bool" where
  "no_collision ops sc k \<longleftrightarrow>
    (let entry = (\<lambda>k. SHA256 (vo_hashes ops) (check_preimage (sc_nonce sc) k)) in
     entry k \<noteq> uint256_ZERO \<and>
     (\<forall>k'. check_valid ops k' \<and> entry k' = entry k \<longrightarrow> check_preimage (sc_nonce sc) k' = check_preimage (sc_nonce sc) k))"

lemma CPubKey_prefix:
  assumes "CPubKey_ValidSize k" "CPubKey_ValidSize k'" "k @ s = k' @ s'"
  shows "k = k' \<and> s = s'"
proof -
  have "hd k = hd k'"
    using assms by (metis CPubKey_ValidSize_def hd_append length_greater_0_conv)
  then have "length k = length k'"
    using assms(1,2) by (simp add: CPubKey_ValidSize_def)
  then show ?thesis
    using assms(3) by simp
qed

lemma check_preimage_inject:
  assumes "check_sized k" "check_sized k'" "check_preimage nonce k = check_preimage nonce k'"
  shows "k = k'"
  using assms by (cases k; cases k') (auto simp: PADDING_ECDSA_def PADDING_SCHNORR_def dest: CPubKey_prefix)

lemma check_valid_sized: "check_valid ops k \<Longrightarrow> check_sized k"
  by (cases k) auto

lemma SignatureCache_new_ok:
  assumes "max_size_bytes < 2 ^ 36"
  shows "cache_ok ops (SignatureCache_new log2 nonce max_size_bytes)"
proof -
  have "max_size_bytes div 32 < 2 ^ 31"
    using assms by simp
  then have "(of_nat (min (max_size_bytes div 32) (2 ^ 32 - 1)) :: 32 word) \<le> 0xFFFFFFF8"
    by (simp add: word_le_nat_alt unsigned_of_nat take_bit_eq_mod)
  then show ?thesis
    by (auto simp: cache_ok_def SignatureCache_new_def setup_bytes_def intro: wf_setup_cache)
      (simp add: setup_cache_def Let_def)
qed

text \<open>The common shape of the two cached verifications, and what the contract of the cache gives for it.\<close>

lemma cached_verification:
  assumes ok: "cache_ok ops sc" and "check_sized k" "no_collision ops sc k"
    and "entry = SHA256 (vo_hashes ops) (check_preimage (sc_nonce sc) k)"
    and "SignatureCache_Get sc entry b = (hit, sc')"
    and "r = (if hit then (True, sc') else if \<not> check_valid ops k then (False, sc')
              else (True, if store then SignatureCache_Set sc' entry else sc'))"
  shows "fst r = check_valid ops k \<and> cache_ok ops (snd r)"
proof -
  let ?entry = "\<lambda>k. SHA256 (vo_hashes ops) (check_preimage (sc_nonce sc) k)"
  obtain c' where c': "cache_contains SignatureCacheHasher (setValid sc) (?entry k) b = (hit, c')" "sc' = sc\<lparr>setValid := c'\<rparr>"
    using assms(4,5) by (auto simp: SignatureCache_Get_def split: prod.splits)
  have "k' = k" if "check_valid ops k'" "?entry k' = ?entry k" for k'
    using that assms(2,3) check_preimage_inject check_valid_sized unfolding no_collision_def Let_def by blast
  moreover have "?entry k \<notin> {uint256_ZERO}"
    using assms(3) by (simp add: no_collision_def Let_def)
  ultimately have "(if hit then True else check_valid ops k) = check_valid ops k \<and>
      wf_cache (if \<not> hit \<and> check_valid ops k \<and> store then cache_insert SignatureCacheHasher c' (?entry k) else c') \<and>
      set (c_table (if \<not> hit \<and> check_valid ops k \<and> store then cache_insert SignatureCacheHasher c' (?entry k) else c'))
        \<subseteq> {uint256_ZERO} \<union> ?entry ` {k. check_valid ops k}"
    using ok c'(1) unfolding cache_ok_def by (intro cuckoo.cached_check [where c = "setValid sc"]) auto
  then show ?thesis
    using c'(2) assms(4,6) by (auto simp: cache_ok_def SignatureCache_Set_def split: if_splits)
qed

lemma Caching_Verify:
  assumes "cache_ok ops sc"
  shows "length sighash = 32 \<Longrightarrow> CPubKey_ValidSize key \<Longrightarrow> no_collision ops sc (ECDSA_check sighash sig key) \<Longrightarrow>
      fst (Caching_VerifyECDSASignature ops store sc sig key sighash) = CPubKey_Verify (cr_ecdsa (vo_crypto ops)) key sighash sig \<and>
      cache_ok ops (snd (Caching_VerifyECDSASignature ops store sc sig key sighash))"
    and "length sighash = 32 \<Longrightarrow> length key = 32 \<Longrightarrow> no_collision ops sc (Schnorr_check sighash sig key) \<Longrightarrow>
      fst (Caching_VerifySchnorrSignature ops store sc sig key sighash) = VerifySchnorr (vo_xonly ops) key sighash sig \<and>
      cache_ok ops (snd (Caching_VerifySchnorrSignature ops store sc sig key sighash))"
proof -
  assume k: "length sighash = 32" "CPubKey_ValidSize key" "no_collision ops sc (ECDSA_check sighash sig key)"
  obtain hit sc' where g: "SignatureCache_Get sc (ComputeEntryECDSA (vo_hashes ops) sc sighash sig key) (\<not> store) = (hit, sc')"
    by fastforce
  show "fst (Caching_VerifyECDSASignature ops store sc sig key sighash) = CPubKey_Verify (cr_ecdsa (vo_crypto ops)) key sighash sig \<and>
      cache_ok ops (snd (Caching_VerifyECDSASignature ops store sc sig key sighash))"
    using cached_verification [OF assms _ k(3) _ g refl, of store] k(1,2)
    unfolding Caching_VerifyECDSASignature_def Let_def g by (auto simp: ComputeEntryECDSA_def split: if_splits)
next
  assume k: "length sighash = 32" "length key = 32" "no_collision ops sc (Schnorr_check sighash sig key)"
  obtain hit sc' where g: "SignatureCache_Get sc (ComputeEntrySchnorr (vo_hashes ops) sc sighash sig key) (\<not> store) = (hit, sc')"
    by fastforce
  show "fst (Caching_VerifySchnorrSignature ops store sc sig key sighash) = VerifySchnorr (vo_xonly ops) key sighash sig \<and>
      cache_ok ops (snd (Caching_VerifySchnorrSignature ops store sc sig key sighash))"
    using cached_verification [OF assms _ k(3) _ g refl, of store] k(1,2)
    unfolding Caching_VerifySchnorrSignature_def Let_def g by (auto simp: ComputeEntrySchnorr_def split: if_splits)
qed


section \<open>The cache does not change what is accepted\<close>

lemma SignatureHash_length:
  assumes "hash_sizes (vo_hashes ops)" "ck_SignatureHash ops ck code t v = Inr sighash"
  shows "length sighash = 32"
  using assms by (auto simp: ck_SignatureHash_def SignatureHash_def Let_def hash_sizes_def Hash256_def uint256_ONE_def
      split: if_splits)

lemma SignatureHashSchnorr_length:
  assumes "hash_sizes hs" "SignatureHashSchnorr hs ed tx nIn t v d mdb = Inr (Some (sighash, ed'))"
  shows "length sighash = 32"
  using assms by (auto simp: SignatureHashSchnorr_def Let_def hash_sizes_def bindE_eq_Inr split: if_splits option.splits)

text \<open>The checks that a call can make have entries that collide with no other entry.\<close>

definition ECDSA_no_collision :: "verify_ops \<Rightarrow> TransactionChecker \<Rightarrow> SignatureCache \<Rightarrow> valtype \<Rightarrow> valtype \<Rightarrow> CScript \<Rightarrow> SigVersion \<Rightarrow> bool" where
  "ECDSA_no_collision ops ck sc sig key code v \<longleftrightarrow>
    (\<forall>sighash. ck_SignatureHash ops ck code (last sig) v = Inr sighash \<longrightarrow>
      no_collision ops sc (ECDSA_check sighash (butlast sig) (CPubKey_Set key)))"

definition Schnorr_no_collision :: "verify_ops \<Rightarrow> TransactionChecker \<Rightarrow> SignatureCache \<Rightarrow> valtype \<Rightarrow> valtype \<Rightarrow> SigVersion \<Rightarrow> ScriptExecutionData \<Rightarrow> bool" where
  "Schnorr_no_collision ops ck sc sig key v execdata \<longleftrightarrow>
    (\<forall>t d sighash execdata' s. ck_txdata ck = Some d \<and> s \<in> {sig, butlast sig} \<and>
      SignatureHashSchnorr (vo_hashes ops) execdata (ck_txTo ck) (ck_nIn ck) t v d (ck_mdb ck) = Inr (Some (sighash, execdata')) \<longrightarrow>
      no_collision ops sc (Schnorr_check sighash s key))"

lemma CPubKey_Set_valid: "CPubKey_IsValid (CPubKey_Set key) \<Longrightarrow> CPubKey_ValidSize (CPubKey_Set key)"
  by (auto simp: CPubKey_IsValid_def CPubKey_Set_def CPubKey_ValidSize_def Let_def split: if_splits)

text \<open>A result with a cache agrees with a result without one, and the cache is in order.\<close>

definition agrees :: "('c \<Rightarrow> bool) \<Rightarrow> ScriptError + 'a \<times> 'c \<Rightarrow> ScriptError + 'a \<Rightarrow> bool" where
  "agrees P m m' \<longleftrightarrow> (case m of Inl e \<Rightarrow> m' = Inl e | Inr (x, c) \<Rightarrow> m' = Inr x \<and> P c)"

lemma agrees_return: "agrees P (Inl e) (Inl e)" "P c \<Longrightarrow> agrees P (Inr (x, c)) (Inr x)"
  by (simp_all add: agrees_def)

lemma agrees_bind: "(\<And>x. m = Inr x \<Longrightarrow> agrees P (f x) (g x)) \<Longrightarrow> agrees P (bindE m f) (bindE m g)"
  by (cases m) (auto simp: agrees_def)

lemma agrees_if:
  "(b \<Longrightarrow> agrees P m n) \<Longrightarrow> (\<not> b \<Longrightarrow> agrees P m' n') \<Longrightarrow> agrees P (if b then m else m') (if b then n else n')"
  by auto

lemmas agrees_rules = agrees_return agrees_bind agrees_if

lemma agrees_bind_unit: "P c \<Longrightarrow> agrees P (bindE m (\<lambda>r. Inr (r, c))) m"
  by (cases m) (auto simp: agrees_def)

lemma Caching_CheckECDSASignature_agrees:
  assumes "hash_sizes (vo_hashes ops)" "cache_ok ops sc" "ECDSA_no_collision ops ck sc sig key code v"
  shows "agrees (cache_ok ops) (Caching_CheckECDSASignature ops ck store sc sig key code v) (Generic_CheckECDSASignature ops ck sig key code v)"
proof -
  have "agrees (cache_ok ops) (Inr (Caching_VerifyECDSASignature ops store sc (butlast sig) (CPubKey_Set key) sighash))
      (Inr (CPubKey_Verify (cr_ecdsa (vo_crypto ops)) (CPubKey_Set key) sighash (butlast sig)))"
    if "ck_SignatureHash ops ck code (last sig) v = Inr sighash" "CPubKey_IsValid (CPubKey_Set key)" for sighash
  proof -
    have "no_collision ops sc (ECDSA_check sighash (butlast sig) (CPubKey_Set key))"
      using assms(3) that(1) by (simp add: ECDSA_no_collision_def)
    then show ?thesis
      using Caching_Verify(1) [OF assms(2) SignatureHash_length [OF assms(1) that(1)] CPubKey_Set_valid [OF that(2)], of "butlast sig" store]
      by (auto simp: agrees_def split: prod.split)
  qed
  then show ?thesis
    unfolding Caching_CheckECDSASignature_def Generic_CheckECDSASignature_def Let_def
    using assms(2) by (auto intro!: agrees_if agrees_bind agrees_bind_unit agrees_return)
qed

lemma Caching_CheckSchnorrSignature_agrees:
  assumes "hash_sizes (vo_hashes ops)" "cache_ok ops sc" "Schnorr_no_collision ops ck sc sig key v execdata"
  shows "agrees (cache_ok ops) (Caching_CheckSchnorrSignature ops ck store sc sig key v execdata)
    (Generic_CheckSchnorrSignature ops ck sig key v execdata)"
proof -
  have verify: "agrees (cache_ok ops)
      (case Caching_VerifySchnorrSignature ops store sc s key sighash of (False, _) \<Rightarrow> Inl e | (True, sc) \<Rightarrow> Inr (execdata', sc))
      (if \<not> VerifySchnorr (vo_xonly ops) key sighash s then Inl e else Inr execdata')"
    if "ck_txdata ck = Some d" "s \<in> {sig, butlast sig}" "length key = 32"
      "SignatureHashSchnorr (vo_hashes ops) execdata (ck_txTo ck) (ck_nIn ck) t v d (ck_mdb ck) = Inr (Some (sighash, execdata'))"
    for d s t sighash execdata' e
  proof -
    have "no_collision ops sc (Schnorr_check sighash s key)"
      using assms(3) that(1,2,4) unfolding Schnorr_no_collision_def by blast
    then show ?thesis
      using Caching_Verify(2) [OF assms(2) SignatureHashSchnorr_length [OF assms(1) that(4)] that(3), of s store]
      by (auto simp: agrees_def split: prod.split bool.split)
  qed
  show ?thesis
  proof (cases "ck_txdata ck")
    case None
    then show ?thesis
      unfolding Caching_CheckSchnorrSignature_def Generic_CheckSchnorrSignature_def Let_def
      by (auto intro!: agrees_rules)
  next
    case (Some d)
    show ?thesis
      unfolding Caching_CheckSchnorrSignature_def Generic_CheckSchnorrSignature_def Let_def Some option.case
    proof (intro agrees_rules)
      fix r
      assume "SignatureHashSchnorr (vo_hashes ops) execdata (ck_txTo ck) (ck_nIn ck)
          (if length sig = 65 then last sig else SIGHASH_DEFAULT) v d (ck_mdb ck) = Inr r" "\<not> length key \<noteq> 32"
      then show "agrees (cache_ok ops)
          (case r of None \<Rightarrow> Inl SCRIPT_ERR_SCHNORR_SIG_HASHTYPE
           | Some (sighash, execdata') \<Rightarrow>
               case Caching_VerifySchnorrSignature ops store sc (if length sig = 65 then butlast sig else sig) key sighash of
                 (False, _) \<Rightarrow> Inl SCRIPT_ERR_SCHNORR_SIG | (True, sc) \<Rightarrow> Inr (execdata', sc))
          (case r of None \<Rightarrow> Inl SCRIPT_ERR_SCHNORR_SIG_HASHTYPE
           | Some (sighash, execdata') \<Rightarrow>
               if \<not> VerifySchnorr (vo_xonly ops) key sighash (if length sig = 65 then butlast sig else sig)
               then Inl SCRIPT_ERR_SCHNORR_SIG else Inr execdata')"
        using verify [OF Some, of "if length sig = 65 then butlast sig else sig"]
        by (cases r) (auto simp: agrees_return)
    qed
  qed
qed

text \<open>
  C13.  The signature cache is transparent: if its entries belong to valid signatures and the
  entry of the signature at hand collides with none of another one, then the checks with the cache
  return what the checks without it return, for ECDSA and for Schnorr signatures, whether or not
  results are stored, and entries still belong to valid signatures.
\<close>
theorem SignatureCache_transparent:
  assumes "hash_sizes (vo_hashes ops)" "cache_ok ops sc" "ECDSA_no_collision ops ck sc sigE keyE code v"
    "Schnorr_no_collision ops ck sc sigS keyS v execdata"
  shows "(case Caching_CheckECDSASignature ops ck store sc sigE keyE code v of
        Inl e \<Rightarrow> Generic_CheckECDSASignature ops ck sigE keyE code v = Inl e
      | Inr (r, sc') \<Rightarrow> Generic_CheckECDSASignature ops ck sigE keyE code v = Inr r \<and> cache_ok ops sc') \<and>
    (case Caching_CheckSchnorrSignature ops ck store sc sigS keyS v execdata of
        Inl e \<Rightarrow> Generic_CheckSchnorrSignature ops ck sigS keyS v execdata = Inl e
      | Inr (execdata', sc') \<Rightarrow> Generic_CheckSchnorrSignature ops ck sigS keyS v execdata = Inr execdata' \<and> cache_ok ops sc')"
  using Caching_CheckECDSASignature_agrees [OF assms(1-3)] Caching_CheckSchnorrSignature_agrees [OF assms(1,2,4)]
  unfolding agrees_def ..


text \<open>An instance: one signature is valid, and it is checked with an empty cache.\<close>

definition cache_demo_ops :: verify_ops where
  "cache_demo_ops = \<lparr>vo_crypto = demo_crypto\<lparr>cr_ecdsa := (cr_ecdsa demo_crypto)\<lparr>CPubKey_Verify := (\<lambda>p h s.
      p = 2 # replicate 32 7 \<and> s = [] \<and> SignatureHash padded_hashes [0x51] demo_tx 0 1 0 BASE None = Inr h)\<rparr>\<rparr>,
    vo_xonly = \<lparr>VerifySchnorr = (\<lambda>p h s. False), CheckTapTweak = (\<lambda>q p m parity. False)\<rparr>,
    vo_hashes = padded_hashes, vo_CheckLowS = (\<lambda>_. True)\<rparr>"

definition cache_demo_ck :: TransactionChecker where
  "cache_demo_ck = \<lparr>ck_txTo = demo_tx, ck_mdb = MDB_FAIL, ck_nIn = 0, ck_amount = 0, ck_txdata = None\<rparr>"

definition cache_demo :: SignatureCache where
  "cache_demo = SignatureCache_new (\<lambda>_. 4) (replicate 32 1) 1024"

theorem SignatureCache_transparent_witness:
  "cache_ok cache_demo_ops cache_demo \<and>
   (\<exists>sc. Caching_CheckECDSASignature cache_demo_ops cache_demo_ck True cache_demo [1] (2 # replicate 32 7) [0x51] BASE = Inr (True, sc) \<and>
         cache_ok cache_demo_ops sc)"
proof -
  let ?key = "2 # replicate 32 7 :: valtype"
  have sizes: "hash_sizes (vo_hashes cache_demo_ops)"
    by (auto simp: hash_sizes_def cache_demo_ops_def padded_hashes_def min_def)
  have ok: "cache_ok cache_demo_ops cache_demo"
    unfolding cache_demo_def by (rule SignatureCache_new_ok) simp
  have key: "CPubKey_Set ?key = ?key"
    by (simp add: CPubKey_Set_def CPubKey_GetLen_def Let_def)
  have "0 < length (tx_vin demo_tx)"
    by (simp add: demo_tx_def)
  then obtain h where h: "SignatureHash padded_hashes [0x51] demo_tx 0 1 0 BASE None = Inr h"
    using SignatureHash_no_assert by blast
  have "no_collision cache_demo_ops cache_demo (ECDSA_check h [] ?key)"
  proof -
    have "k' = ECDSA_check h [] ?key" if "check_valid cache_demo_ops k'" for k'
      using that h by (cases k') (auto simp: cache_demo_ops_def)
    moreover have "SHA256 (vo_hashes cache_demo_ops) (check_preimage (sc_nonce cache_demo) (ECDSA_check h [] ?key)) \<noteq> uint256_ZERO"
      by (simp add: cache_demo_ops_def padded_hashes_def cache_demo_def SignatureCache_new_def uint256_ZERO_def)
    ultimately show ?thesis
      unfolding no_collision_def Let_def by blast
  qed
  then have coll: "ECDSA_no_collision cache_demo_ops cache_demo_ck cache_demo [1] ?key [0x51] BASE"
    "Schnorr_no_collision cache_demo_ops cache_demo_ck cache_demo [] [] BASE execdata" for execdata
    using h by (simp_all add: ECDSA_no_collision_def Schnorr_no_collision_def ck_SignatureHash_def cache_demo_ck_def cache_demo_ops_def key)
  have gen: "Generic_CheckECDSASignature cache_demo_ops cache_demo_ck [1] ?key [0x51] BASE = Inr True"
    using h by (simp add: Generic_CheckECDSASignature_def Let_def key CPubKey_IsValid_def missing_amount_def ck_SignatureHash_def
        cache_demo_ck_def cache_demo_ops_def)
  show ?thesis
    using SignatureCache_transparent [OF sizes ok coll(1) coll(2), of True, THEN conjunct1] ok unfolding gen
    by (auto split: sum.splits)
qed

end
