(* ===== verification/CheckQueue.thy ===== *)
theory CheckQueue
  imports Main "HOL-Library.Multiset"
begin

text \<open>
  The queue on which script checks run in parallel (\<open>src/checkqueue.h\<close>).  All shared data
  is accessed under one mutex, so a step of the model is a critical section of some thread or the
  execution of a batch outside of it, and a run is any interleaving of such steps.  Thread 0 is
  the master, the others are workers.  Waiting on a condition variable is a state of the thread;
  it ends by a notification or spuriously.
\<close>

section \<open>State\<close>

text \<open>
  Where a thread is in \<open>Loop\<close>, with the local variables that live there: outside; before
  the lock, with \<open>nNow\<close> and \<open>local_result\<close>; waiting, with whether it was notified;
  or executing \<open>vChecks\<close>, if \<open>do_work\<close>.
\<close>

datatype ('t, 'r) thread_state =
  Outside
| AtLock nat "'r option"
| Waiting bool nat "'r option"
| Working "'t list" bool "'r option"

record ('t, 'r) CCheckQueue =
  cq_queue :: "'t list"
  nIdle :: nat
  nTotal :: nat
  m_result :: "'r option"
  nTodo :: nat
  nBatchSize :: nat
  m_request_stop :: bool
  threads :: "nat \<Rightarrow> ('t, 'r) thread_state"

text \<open>The constructor starts the worker threads.\<close>

definition CCheckQueue_new :: "nat \<Rightarrow> nat \<Rightarrow> ('t, 'r) CCheckQueue" where
  "CCheckQueue_new batch_size worker_threads_num =
    \<lparr>cq_queue = [], nIdle = 0, nTotal = 0, m_result = None, nTodo = 0, nBatchSize = batch_size, m_request_stop = False,
     threads = (\<lambda>i. if 1 \<le> i \<and> i \<le> worker_threads_num then AtLock 0 None else Outside)\<rparr>"

definition set_thread :: "nat \<Rightarrow> ('t, 'r) thread_state \<Rightarrow> ('t, 'r) CCheckQueue \<Rightarrow> ('t, 'r) CCheckQueue" where
  "set_thread i t q = q\<lparr>threads := (threads q)(i := t)\<rparr>"

fun notify :: "('t, 'r) thread_state \<Rightarrow> ('t, 'r) thread_state" where
  "notify (Waiting b k r) = Waiting True k r"
| "notify t = t"

definition notify_master :: "('t, 'r) CCheckQueue \<Rightarrow> ('t, 'r) CCheckQueue" where
  "notify_master q = set_thread 0 (notify (threads q 0)) q"

definition notify_workers :: "nat set \<Rightarrow> ('t, 'r) CCheckQueue \<Rightarrow> ('t, 'r) CCheckQueue" where
  "notify_workers ws q = q\<lparr>threads := (\<lambda>i. if i \<in> ws \<and> i \<noteq> 0 then notify (threads q i) else threads q i)\<rparr>"


section \<open>The loop\<close>

text \<open>
  The critical section of \<open>Loop\<close>, for thread \<open>i\<close>: the clean-up of the previous
  run, then the loop that waits for work, which a woken thread enters again.
\<close>

definition Loop_cleanup :: "nat \<Rightarrow> nat \<Rightarrow> 'r option \<Rightarrow> ('t, 'r) CCheckQueue \<Rightarrow> 'r option \<times> ('t, 'r) CCheckQueue" where
  "Loop_cleanup i nNow local_result q =
    (if nNow \<noteq> 0 then
       let swap = (local_result \<noteq> None \<and> m_result q = None);
           q' = q\<lparr>m_result := (if swap then local_result else m_result q), nTodo := nTodo q - nNow\<rparr>
       in (if swap then m_result q else local_result,
           if nTodo q' = 0 \<and> i \<noteq> 0 then notify_master q' else q')
     else (local_result, q\<lparr>nTotal := nTotal q + 1\<rparr>))"

definition batch_size :: "('t, 'r) CCheckQueue \<Rightarrow> nat" where
  "batch_size q = max 1 (min (nBatchSize q) (length (cq_queue q) div (nTotal q + nIdle q + 1)))"

text \<open>\<open>Some r\<close> is a return of \<open>Loop\<close> with the value \<open>r\<close>.\<close>

definition Loop_take :: "nat \<Rightarrow> nat \<Rightarrow> 'r option \<Rightarrow> ('t, 'r) CCheckQueue \<Rightarrow> 'r option option \<times> ('t, 'r) CCheckQueue" where
  "Loop_take i nNow local_result q =
    (if cq_queue q = [] \<and> \<not> m_request_stop q then
       if i = 0 \<and> nTodo q = 0
       then (Some (m_result q), set_thread i Outside (q\<lparr>nTotal := nTotal q - 1, m_result := None\<rparr>))
       else (None, set_thread i (Waiting False nNow local_result) (q\<lparr>nIdle := nIdle q + 1\<rparr>))
     else if m_request_stop q then (Some None, set_thread i Outside q)
     else
       let now = batch_size q;
           n = length (cq_queue q) - now
       in (None, set_thread i (Working (drop n (cq_queue q)) (m_result q = None) local_result) (q\<lparr>cq_queue := take n (cq_queue q)\<rparr>)))"

text \<open>The work outside the critical section: the checks in order, up to the first failure.\<close>

fun run_checks :: "('t \<Rightarrow> 'r option) \<Rightarrow> 't list \<Rightarrow> 'r option \<Rightarrow> 'r option" where
  "run_checks check [] local_result = local_result"
| "run_checks check (c # cs) local_result = (case check c of
     Some e \<Rightarrow> Some e
   | None \<Rightarrow> run_checks check cs None)"

text \<open>Adding checks, with the worker that is notified when there is only one.\<close>

definition CCheckQueue_Add :: "'t list \<Rightarrow> nat \<Rightarrow> ('t, 'r) CCheckQueue \<Rightarrow> ('t, 'r) CCheckQueue" where
  "CCheckQueue_Add vChecks w q =
    (if vChecks = [] then q
     else notify_workers (if length vChecks = 1 then {w} else UNIV)
       (q\<lparr>cq_queue := cq_queue q @ vChecks, nTodo := nTodo q + length vChecks\<rparr>))"

text \<open>
  The steps.  A step says whether it belongs to the threads inside the loop, is a spurious wake-up
  or is a call of the owner, and what a call of \<open>Complete\<close> returned.  Only the owner, which is the master thread, adds checks,
  completes the queue and destroys it.
\<close>

datatype ('t, 'r) cq_event = Thread | Spurious | AddChecks "'t list" | CallComplete | Destroy | Completed "'r option"

definition loop_event :: "nat \<Rightarrow> 'r option option \<Rightarrow> ('t, 'r) cq_event" where
  "loop_event i r = (case r of Some v \<Rightarrow> if i = 0 then Completed v else Thread | None \<Rightarrow> Thread)"

inductive cq_step :: "('t \<Rightarrow> 'r option) \<Rightarrow> nat \<Rightarrow> ('t, 'r) CCheckQueue \<Rightarrow> ('t, 'r) cq_event \<Rightarrow> ('t, 'r) CCheckQueue \<Rightarrow> bool"
  for check :: "'t \<Rightarrow> 'r option" and n :: nat where
  enter: "i \<le> n \<Longrightarrow> threads q i = AtLock k l \<Longrightarrow> Loop_cleanup i k l q = (l', q') \<Longrightarrow> Loop_take i k l' q' = (r, q'') \<Longrightarrow>
    cq_step check n q (loop_event i r) q''"
| wake: "i \<le> n \<Longrightarrow> threads q i = Waiting True k l \<Longrightarrow> Loop_take i k l (q\<lparr>nIdle := nIdle q - 1\<rparr>) = (r, q') \<Longrightarrow>
    cq_step check n q (loop_event i r) q'"
| spurious: "i \<le> n \<Longrightarrow> threads q i = Waiting False k l \<Longrightarrow> Loop_take i k l (q\<lparr>nIdle := nIdle q - 1\<rparr>) = (r, q') \<Longrightarrow>
    cq_step check n q (if r = None then Spurious else loop_event i r) q'"
| work: "i \<le> n \<Longrightarrow> threads q i = Working cs do_work l \<Longrightarrow>
    cq_step check n q Thread (set_thread i (AtLock (length cs) (if do_work then run_checks check cs l else l)) q)"
| add: "threads q 0 = Outside \<Longrightarrow> \<not> m_request_stop q \<Longrightarrow> cq_step check n q (AddChecks cs) (CCheckQueue_Add cs w q)"
| complete: "threads q 0 = Outside \<Longrightarrow> \<not> m_request_stop q \<Longrightarrow> cq_step check n q CallComplete (set_thread 0 (AtLock 0 None) q)"
| destroy: "threads q 0 = Outside \<Longrightarrow> cq_step check n q Destroy (notify_workers UNIV (q\<lparr>m_request_stop := True\<rparr>))"

text \<open>The reachable states, with the checks added since the queue was last completed.\<close>

inductive cq_reach :: "('t \<Rightarrow> 'r option) \<Rightarrow> nat \<Rightarrow> nat \<Rightarrow> 't list \<Rightarrow> ('t, 'r) CCheckQueue \<Rightarrow> bool"
  for check :: "'t \<Rightarrow> 'r option" and b n :: nat where
  init: "cq_reach check b n [] (CCheckQueue_new b n)"
| add: "cq_reach check b n added q \<Longrightarrow> cq_step check n q (AddChecks cs) q' \<Longrightarrow> cq_reach check b n (added @ cs) q'"
| completed: "cq_reach check b n added q \<Longrightarrow> cq_step check n q (Completed r) q' \<Longrightarrow> cq_reach check b n [] q'"
| other: "cq_reach check b n added q \<Longrightarrow> cq_step check n q ev q' \<Longrightarrow> ev \<in> {Thread, Spurious, CallComplete, Destroy} \<Longrightarrow>
    cq_reach check b n added q'"

inductive_cases cq_stepE: "cq_step check n q ev q'"



section \<open>The invariant\<close>

text \<open>The checks that a thread has taken and not reported yet, by number and as a multiset.\<close>

primrec unreported :: "('t, 'r) thread_state \<Rightarrow> nat" where
  "unreported Outside = 0"
| "unreported (AtLock k l) = k"
| "unreported (Waiting b k l) = 0"
| "unreported (Working cs d l) = length cs"

primrec batch :: "('t, 'r) thread_state \<Rightarrow> 't multiset" where
  "batch Outside = {#}"
| "batch (AtLock k l) = {#}"
| "batch (Waiting b k l) = {#}"
| "batch (Working cs d l) = mset cs"

text \<open>A thread holds a failure that it has not reported.\<close>

definition holds_failure :: "'r \<Rightarrow> ('t, 'r) thread_state \<Rightarrow> bool" where
  "holds_failure e t \<longleftrightarrow> (\<exists>k. k \<noteq> 0 \<and> t = AtLock k (Some e))"

primrec thread_ok :: "bool \<Rightarrow> ('t, 'r) thread_state \<Rightarrow> bool" where
  "thread_ok failed Outside = True"
| "thread_ok failed (AtLock k l) = True"
| "thread_ok failed (Waiting b k l) = True"
| "thread_ok failed (Working cs d l) = (cs \<noteq> [] \<and> (\<not> d \<longrightarrow> failed))"

definition cq_inv :: "('t \<Rightarrow> 'r option) \<Rightarrow> nat \<Rightarrow> 't list \<Rightarrow> ('t, 'r) CCheckQueue \<Rightarrow> bool" where
  "cq_inv check n added q \<longleftrightarrow>
    nTodo q = length (cq_queue q) + (\<Sum>i\<le>n. unreported (threads q i)) \<and>
    (\<exists>done. mset added = mset (cq_queue q) + (\<Sum>i\<le>n. batch (threads q i)) + done \<and>
       (m_result q = None \<and> (\<forall>i\<le>n. \<forall>e. \<not> holds_failure e (threads q i)) \<longrightarrow> (\<forall>c \<in># done. check c = None))) \<and>
    (\<forall>e. m_result q = Some e \<longrightarrow> (\<exists>c \<in> set added. check c = Some e)) \<and>
    (\<forall>i\<le>n. \<forall>e. m_result q = None \<and> holds_failure e (threads q i) \<longrightarrow> (\<exists>c \<in> set added. check c = Some e)) \<and>
    (\<forall>i\<le>n. thread_ok (m_result q \<noteq> None) (threads q i)) \<and>
    (\<forall>k l. threads q 0 = Waiting False k l \<longrightarrow> nTodo q > 0 \<and> cq_queue q = []) \<and>
    (m_request_stop q \<longrightarrow> threads q 0 = Outside)"

lemma sum_set_thread:
  fixes f :: "('t, 'r) thread_state \<Rightarrow> 'a :: comm_monoid_add"
  assumes "i \<le> n"
  shows "(\<Sum>j\<le>n. f (threads (set_thread i t q) j)) + f (threads q i) = (\<Sum>j\<le>n. f (threads q j)) + f t"
proof -
  have "(\<Sum>j\<le>n. g j) = g i + (\<Sum>j \<in> {..n} - {i}. g j)" for g :: "nat \<Rightarrow> 'a"
    using assms by (intro sum.remove) auto
  note split = this [of "\<lambda>j. f (threads (set_thread i t q) j)"] this [of "\<lambda>j. f (threads q j)"]
  have "(\<Sum>j \<in> {..n} - {i}. f (threads (set_thread i t q) j)) = (\<Sum>j \<in> {..n} - {i}. f (threads q j))"
    by (rule sum.cong) (auto simp: set_thread_def)
  then show ?thesis
    unfolding split by (simp add: set_thread_def ac_simps)
qed

lemma set_thread_simps [simp]:
  "threads (set_thread i t q) i = t" "j \<noteq> i \<Longrightarrow> threads (set_thread i t q) j = threads q j"
  "cq_queue (set_thread i t q) = cq_queue q" "nTodo (set_thread i t q) = nTodo q" "m_result (set_thread i t q) = m_result q"
  "m_request_stop (set_thread i t q) = m_request_stop q" "nTotal (set_thread i t q) = nTotal q" "nIdle (set_thread i t q) = nIdle q"
  "nBatchSize (set_thread i t q) = nBatchSize q" "set_thread i t (set_thread i t' q) = set_thread i t q"
  by (simp_all add: set_thread_def)

lemma Loop_take_thread: "Loop_take i k l q = Loop_take i k l (set_thread i t q)"
  by (simp add: Loop_take_def Let_def batch_size_def set_thread_def)

lemma notify_unreported [simp]: "unreported (notify t) = unreported t" "batch (notify t) = batch t"
  "holds_failure e (notify t) = holds_failure e t" "thread_ok b (notify t) = thread_ok b t" "notify t = Outside \<longleftrightarrow> t = Outside"
  "notify t \<noteq> Waiting False k l"
  by (cases t; simp add: holds_failure_def)+


lemma threads_set_thread: "threads (set_thread i t q) j = (if j = i then t else threads q j)"
  by (simp add: set_thread_def)

text \<open>Replacing the state of a thread by one with the same unreported checks.\<close>

lemma cq_inv_set_thread:
  assumes inv: "cq_inv check n added q" and i: "i \<le> n"
    and same: "unreported t = unreported (threads q i)" "batch t = batch (threads q i)"
      "\<And>e. holds_failure e t = holds_failure e (threads q i)" "thread_ok (m_result q \<noteq> None) t"
    and master: "i = 0 \<Longrightarrow> m_request_stop q \<Longrightarrow> t = Outside"
      "\<And>k l. i = 0 \<Longrightarrow> t = Waiting False k l \<Longrightarrow> nTodo q > 0 \<and> cq_queue q = []"
  shows "cq_inv check n added (set_thread i t q)"
proof -
  have sums: "(\<Sum>j\<le>n. unreported (threads (set_thread i t q) j)) = (\<Sum>j\<le>n. unreported (threads q j))"
    "(\<Sum>j\<le>n. batch (threads (set_thread i t q) j)) = (\<Sum>j\<le>n. batch (threads q j))"
    using sum_set_thread [OF i, of unreported t q] sum_set_thread [OF i, of batch t q] same(1,2) by auto
  have fail: "holds_failure e (threads (set_thread i t q) j) = holds_failure e (threads q j)" for e j
    using same(3) by (simp add: threads_set_thread)
  have ok: "\<forall>j\<le>n. thread_ok (m_result q \<noteq> None) (threads (set_thread i t q) j)"
    using inv same(4) by (simp add: cq_inv_def threads_set_thread)
  have "\<forall>k l. threads (set_thread i t q) 0 = Waiting False k l \<longrightarrow> nTodo q > 0 \<and> cq_queue q = []"
    "m_request_stop q \<longrightarrow> threads (set_thread i t q) 0 = Outside"
    using inv master unfolding cq_inv_def threads_set_thread by (metis (full_types))+
  then show ?thesis
    using inv ok unfolding cq_inv_def sums fail set_thread_simps by blast
qed

lemma cq_inv_irrelevant [simp]:
  "cq_inv check n added (q\<lparr>nTotal := x\<rparr>) = cq_inv check n added q" "cq_inv check n added (q\<lparr>nIdle := x\<rparr>) = cq_inv check n added q"
  by (simp_all add: cq_inv_def)

lemma cq_inv_notify_master: "cq_inv check n added q \<Longrightarrow> cq_inv check n added (notify_master q)"
  unfolding notify_master_def by (rule cq_inv_set_thread) (auto simp: cq_inv_def)

text \<open>The clean-up reports the batch of thread \<open>i\<close>.\<close>

lemma cq_inv_report:
  assumes inv: "cq_inv check n added q" and i: "i \<le> n" "threads q i = AtLock k l" "k \<noteq> 0"
    and q': "q' = q\<lparr>m_result := (if l \<noteq> None \<and> m_result q = None then l else m_result q), nTodo := nTodo q - k\<rparr>"
    and master: "\<And>k l. nTodo q' = 0 \<Longrightarrow> threads q 0 \<noteq> Waiting False k l"
  shows "cq_inv check n added (set_thread i Outside q')"
proof -
  let ?q = "set_thread i Outside q'"
  have t: "threads q' = threads q" and qq: "cq_queue q' = cq_queue q" "m_request_stop q' = m_request_stop q"
    using q' by simp_all
  have sums: "(\<Sum>j\<le>n. unreported (threads ?q j)) + k = (\<Sum>j\<le>n. unreported (threads q j))"
    "(\<Sum>j\<le>n. batch (threads ?q j)) = (\<Sum>j\<le>n. batch (threads q j))"
    using sum_set_thread [OF i(1), of unreported Outside q'] sum_set_thread [OF i(1), of batch Outside q'] i(2) t by simp_all
  have todo: "nTodo ?q = length (cq_queue ?q) + (\<Sum>j\<le>n. unreported (threads ?q j))"
    using inv sums(1) q' by (simp add: cq_inv_def)
  have none: "m_result q = None \<and> l = None" if "m_result q' = None"
    using that q' by (auto split: if_splits)
  have fail: "\<not> holds_failure e (threads q i)" if "m_result q' = None" for e
    using none [OF that] i(2) by (simp add: holds_failure_def)
  have fail': "holds_failure e (threads ?q j) \<longleftrightarrow> j \<noteq> i \<and> holds_failure e (threads q j)" for e j
    by (simp add: threads_set_thread t holds_failure_def)
  obtain d where d: "mset added = mset (cq_queue q) + (\<Sum>j\<le>n. batch (threads q j)) + d"
    "m_result q = None \<Longrightarrow> \<forall>i\<le>n. \<forall>e. \<not> holds_failure e (threads q i) \<Longrightarrow> \<forall>c \<in># d. check c = None"
    using inv unfolding cq_inv_def by blast
  have "mset added = mset (cq_queue ?q) + (\<Sum>j\<le>n. batch (threads ?q j)) + d"
    "m_result ?q = None \<and> (\<forall>j\<le>n. \<forall>e. \<not> holds_failure e (threads ?q j)) \<longrightarrow> (\<forall>c \<in># d. check c = None)"
    using d none fail unfolding fail' sums(2) set_thread_simps qq by metis+
  moreover have "\<forall>e. m_result ?q = Some e \<longrightarrow> (\<exists>c \<in> set added. check c = Some e)"
  proof (intro allI impI)
    fix e
    assume e: "m_result ?q = Some e"
    show "\<exists>c \<in> set added. check c = Some e"
    proof (cases "m_result q")
      case None
      then have "holds_failure e (threads q i)"
        using e q' i(2,3) by (auto simp: holds_failure_def split: if_splits)
      then show ?thesis
        using inv i(1) None unfolding cq_inv_def by blast
    next
      case (Some e')
      then show ?thesis
        using e q' inv unfolding cq_inv_def by simp
    qed
  qed
  moreover have "\<forall>j\<le>n. \<forall>e. m_result ?q = None \<and> holds_failure e (threads ?q j) \<longrightarrow> (\<exists>c \<in> set added. check c = Some e)"
    using inv none unfolding cq_inv_def fail' set_thread_simps by blast
  moreover have "\<forall>j\<le>n. thread_ok (m_result ?q \<noteq> None) (threads ?q j)"
  proof (intro allI impI)
    fix j
    assume "j \<le> n"
    then have "thread_ok (m_result q \<noteq> None) (threads q j)"
      using inv by (simp add: cq_inv_def)
    moreover have "m_result q \<noteq> None \<Longrightarrow> m_result ?q \<noteq> None"
      unfolding set_thread_simps using none by (metis (full_types))
    ultimately show "thread_ok (m_result ?q \<noteq> None) (threads ?q j)"
      by (cases "threads q j") (auto simp: threads_set_thread t)
  qed
  moreover have "\<forall>k l. threads ?q 0 = Waiting False k l \<longrightarrow> nTodo ?q > 0 \<and> cq_queue ?q = []"
    using inv master unfolding cq_inv_def threads_set_thread t qq set_thread_simps by (metis gr0I thread_state.distinct(3))
  moreover have "m_request_stop ?q \<longrightarrow> threads ?q 0 = Outside"
    using inv by (simp add: cq_inv_def threads_set_thread t qq)
  ultimately show ?thesis
    unfolding cq_inv_def using todo by blast
qed


lemma cq_inv_Loop_cleanup:
  assumes "cq_inv check n added q" "i \<le> n" "threads q i = AtLock k l" "Loop_cleanup i k l q = (l', q')"
  shows "cq_inv check n added (set_thread i Outside q')"
proof (cases "k = 0")
  case True
  then have "q' = q\<lparr>nTotal := nTotal q + 1\<rparr>"
    using assms(4) by (simp add: Loop_cleanup_def)
  then show ?thesis
    using assms True by (auto intro!: cq_inv_set_thread simp: holds_failure_def)
next
  case False
  let ?r = "if l \<noteq> None \<and> m_result q = None then l else m_result q"
  show ?thesis
  proof (cases "nTodo q - k = 0 \<and> i \<noteq> 0")
    case True
    then have "q' = (notify_master q)\<lparr>m_result := ?r, nTodo := nTodo q - k\<rparr>"
      using assms(4) False by (auto simp: Loop_cleanup_def Let_def notify_master_def set_thread_def)
    then show ?thesis
      using True False assms(2,3)
      by (intro cq_inv_report [OF cq_inv_notify_master [OF assms(1)], of i k l]) (simp_all add: notify_master_def)
  next
    case *: False
    then have "q' = q\<lparr>m_result := ?r, nTodo := nTodo q - k\<rparr>"
      using assms(4) False by (auto simp: Loop_cleanup_def Let_def)
    then show ?thesis
      using * False assms by (intro cq_inv_report [OF assms(1-3)]) auto
  qed
qed

lemma batch_size_le: "cq_queue q \<noteq> [] \<Longrightarrow> 1 \<le> batch_size q \<and> batch_size q \<le> length (cq_queue q)"
  by (auto simp: batch_size_def Suc_le_eq le_trans [OF min.cobounded2])

lemma cq_inv_take_batch:
  assumes inv: "cq_inv check n added q" and i: "i \<le> n" "threads q i = Outside" and "cq_queue q \<noteq> []" "\<not> m_request_stop q"
    and now: "m = length (cq_queue q) - batch_size q"
  shows "cq_inv check n added
    (set_thread i (Working (drop m (cq_queue q)) (m_result q = None) l) (q\<lparr>cq_queue := take m (cq_queue q)\<rparr>))"
proof -
  let ?t = "Working (drop m (cq_queue q)) (m_result q = None) l"
  let ?q' = "q\<lparr>cq_queue := take m (cq_queue q)\<rparr>"
  let ?q = "set_thread i ?t ?q'"
  have m: "m < length (cq_queue q)"
    using batch_size_le [OF assms(4)] assms(4) now by simp
  have sums: "(\<Sum>j\<le>n. unreported (threads ?q j)) = (\<Sum>j\<le>n. unreported (threads q j)) + (length (cq_queue q) - m)"
    "(\<Sum>j\<le>n. batch (threads ?q j)) = (\<Sum>j\<le>n. batch (threads q j)) + mset (drop m (cq_queue q))"
    using sum_set_thread [OF i(1), of unreported ?t ?q'] sum_set_thread [OF i(1), of batch ?t ?q'] i(2) by simp_all
  have "nTodo ?q = length (cq_queue ?q) + (\<Sum>j\<le>n. unreported (threads ?q j))"
    using inv m by (simp add: cq_inv_def sums)
  moreover have "mset (cq_queue ?q) + (\<Sum>j\<le>n. batch (threads ?q j)) = mset (cq_queue q) + (\<Sum>j\<le>n. batch (threads q j))"
  proof -
    have "mset (take m (cq_queue q)) + mset (drop m (cq_queue q)) = mset (cq_queue q)"
      by (metis append_take_drop_id mset_append)
    then show ?thesis
      unfolding sums by (simp add: ac_simps)
  qed
  moreover have "holds_failure e (threads ?q j) = holds_failure e (threads q j)" for e j
    using i(2) by (simp add: threads_set_thread holds_failure_def)
  moreover have "\<forall>j\<le>n. thread_ok (m_result ?q \<noteq> None) (threads ?q j)"
    using inv m by (simp add: cq_inv_def threads_set_thread)
  moreover have "threads ?q 0 \<noteq> Waiting False k l" for k l
    using inv assms(4) by (simp add: cq_inv_def threads_set_thread)
  ultimately show ?thesis
    using inv assms(5) unfolding cq_inv_def by simp
qed

text \<open>The result of \<open>Complete\<close>, for the checks added before.\<close>

definition result_ok :: "('t \<Rightarrow> 'r option) \<Rightarrow> 't list \<Rightarrow> 'r option \<Rightarrow> bool" where
  "result_ok check added r \<longleftrightarrow> (case r of
     None \<Rightarrow> \<forall>c \<in> set added. check c = None
   | Some e \<Rightarrow> \<exists>c \<in> set added. check c = Some e)"

lemma cq_inv_return:
  assumes inv: "cq_inv check n added q" and "threads q 0 = Outside" "cq_queue q = []" "nTodo q = 0" "\<not> m_request_stop q"
  shows "result_ok check added (m_result q)" "cq_inv check n [] (q\<lparr>m_result := None\<rparr>)"
proof -
  have zero: "unreported (threads q i) = 0" if "i \<le> n" for i
    using inv assms(3,4) that by (simp add: cq_inv_def)
  have ok: "thread_ok (m_result q \<noteq> None) (threads q i)" if "i \<le> n" for i
    using inv that by (simp add: cq_inv_def)
  have t: "batch (threads q i) = {#} \<and> \<not> holds_failure e (threads q i) \<and> thread_ok False (threads q i)" if "i \<le> n" for i e
    using zero [OF that] ok [OF that] by (cases "threads q i") (auto simp: holds_failure_def)
  then have empty: "(\<Sum>i\<le>n. batch (threads q i)) = {#}"
    by simp
  obtain d where d: "mset added = d" "m_result q = None \<Longrightarrow> \<forall>c \<in># d. check c = None"
    using inv t unfolding cq_inv_def empty assms(3) by auto
  show "result_ok check added (m_result q)"
  proof (cases "m_result q")
    case None
    then show ?thesis
      using d(2) [OF None] unfolding d(1) [symmetric] by (simp add: result_ok_def)
  next
    case (Some e)
    then show ?thesis
      using inv by (simp add: result_ok_def cq_inv_def)
  qed
  show "cq_inv check n [] (q\<lparr>m_result := None\<rparr>)"
    using inv t zero assms by (auto simp: cq_inv_def)
qed


lemma cq_inv_Loop_take:
  assumes "cq_inv check n added (set_thread i Outside q)" "i \<le> n" "i = 0 \<Longrightarrow> \<not> m_request_stop q" "Loop_take i k l q = (r, q')"
  shows "(if i = 0 \<and> r \<noteq> None then result_ok check added (the r) \<and> cq_inv check n [] q' else cq_inv check n added q')"
proof -
  let ?q = "set_thread i Outside q"
  have take: "Loop_take i k l ?q = (r, q')"
    using assms(4) Loop_take_thread by metis
  consider (ret) "cq_queue q = []" "\<not> m_request_stop q" "i = 0" "nTodo q = 0"
    | (wait) "cq_queue q = []" "\<not> m_request_stop q" "i = 0 \<longrightarrow> nTodo q \<noteq> 0"
    | (stop) "m_request_stop q"
    | (work) "cq_queue q \<noteq> []" "\<not> m_request_stop q"
    by blast
  then show ?thesis
  proof cases
    case ret
    then have r: "r = Some (m_result q)" and q': "q' = (?q\<lparr>m_result := None\<rparr>)\<lparr>nTotal := nTotal q - 1\<rparr>"
      using take by (auto simp: Loop_take_def set_thread_def)
    show ?thesis
      using ret(3) cq_inv_return [OF assms(1)] ret unfolding r q' by simp
  next
    case wait
    then have r: "r = None" and q': "q' = set_thread i (Waiting False k l) (?q\<lparr>nIdle := nIdle q + 1\<rparr>)"
      using take by (auto simp: Loop_take_def)
    have "cq_inv check n added q'"
      unfolding q' using assms(1,2) wait by (intro cq_inv_set_thread) (simp_all add: holds_failure_def)
    then show ?thesis
      using r by simp
  next
    case stop
    then have "q' = ?q" "i \<noteq> 0"
      using take assms(3) by (auto simp: Loop_take_def)
    then show ?thesis
      using assms(1) by simp
  next
    case work
    then have r: "r = None" and q': "q' = set_thread i (Working (drop (length (cq_queue q) - batch_size ?q) (cq_queue ?q)) (m_result ?q = None) l)
        (?q\<lparr>cq_queue := take (length (cq_queue q) - batch_size ?q) (cq_queue ?q)\<rparr>)"
      using take by (auto simp: Loop_take_def Let_def)
    have "cq_inv check n added q'"
      unfolding q' using assms(1,2) work by (intro cq_inv_take_batch) simp_all
    then show ?thesis
      using r by simp
  qed
qed

lemma cq_inv_wake:
  assumes "cq_inv check n added q" "i \<le> n" "threads q i = Waiting b k l"
  shows "cq_inv check n added (set_thread i Outside (q\<lparr>nIdle := x\<rparr>))"
  using assms by (intro cq_inv_set_thread) (auto simp: holds_failure_def)

lemma run_checks_result:
  "cs \<noteq> [] \<Longrightarrow> case run_checks check cs l of None \<Rightarrow> \<forall>c \<in> set cs. check c = None | Some e \<Rightarrow> \<exists>c \<in> set cs. check c = Some e"
proof (induction cs arbitrary: l)
  case (Cons c cs)
  then show ?case
    by (cases cs) (auto split: option.splits)
qed simp

lemma cq_inv_work:
  assumes inv: "cq_inv check n added q" and i: "i \<le> n" "threads q i = Working cs d l"
  shows "cq_inv check n added (set_thread i (AtLock (length cs) (if d then run_checks check cs l else l)) q)"
proof -
  let ?l = "if d then run_checks check cs l else l"
  let ?q = "set_thread i (AtLock (length cs) ?l) q"
  have cs: "cs \<noteq> []" "\<not> d \<longrightarrow> m_result q \<noteq> None"
    using inv i unfolding cq_inv_def by fastforce+
  have sums: "(\<Sum>j\<le>n. unreported (threads ?q j)) = (\<Sum>j\<le>n. unreported (threads q j))"
    "(\<Sum>j\<le>n. batch (threads ?q j)) + mset cs = (\<Sum>j\<le>n. batch (threads q j))"
    using sum_set_thread [OF i(1), of unreported "AtLock (length cs) ?l" q] sum_set_thread [OF i(1), of batch "AtLock (length cs) ?l" q] i(2)
    by simp_all
  obtain x where x: "mset added = mset (cq_queue q) + (\<Sum>j\<le>n. batch (threads q j)) + x"
    "m_result q = None \<Longrightarrow> \<forall>i\<le>n. \<forall>e. \<not> holds_failure e (threads q i) \<Longrightarrow> \<forall>c \<in># x. check c = None"
    using inv unfolding cq_inv_def by blast
  have "set_mset (mset cs) \<subseteq> set_mset (mset added)"
    unfolding x(1) sums(2) [symmetric] by auto
  then have sub: "set cs \<subseteq> set added"
    by simp
  have old: "\<not> holds_failure e (threads q i)" for e
    using i(2) by (simp add: holds_failure_def)
  have finished: "\<forall>c \<in># x + mset cs. check c = None"
    if "m_result ?q = None" "\<forall>j\<le>n. \<forall>e. \<not> holds_failure e (threads ?q j)"
  proof -
    have "\<not> holds_failure e (threads q j)" if "j \<le> n" for e j
      using \<open>\<forall>j\<le>n. \<forall>e. \<not> holds_failure e (threads ?q j)\<close> that old by (cases "j = i") (auto simp: threads_set_thread)
    then have "\<forall>c \<in># x. check c = None"
      using x(2) that(1) by simp
    moreover have "d" "run_checks check cs l = None"
      using that i(1) cs by (auto simp: threads_set_thread holds_failure_def split: if_splits)
    then have "\<forall>c \<in> set cs. check c = None"
      using run_checks_result [OF cs(1), of check l] by simp
    ultimately show ?thesis
      by auto
  qed
  have "mset added = mset (cq_queue ?q) + (\<Sum>j\<le>n. batch (threads ?q j)) + (x + mset cs)"
    using x(1) unfolding sums(2) [symmetric] by (simp add: ac_simps)
  moreover have "\<forall>j\<le>n. \<forall>e. m_result ?q = None \<and> holds_failure e (threads ?q j) \<longrightarrow> (\<exists>c \<in> set added. check c = Some e)"
  proof (intro allI impI)
    fix j e
    assume j: "j \<le> n" and e: "m_result ?q = None \<and> holds_failure e (threads ?q j)"
    show "\<exists>c \<in> set added. check c = Some e"
    proof (cases "j = i")
      case True
      then have "run_checks check cs l = Some e"
        using e cs(2) by (auto simp: holds_failure_def split: if_splits)
      then show ?thesis
        using run_checks_result [OF cs(1), of check l] sub by auto
    next
      case False
      then show ?thesis
        using inv j e unfolding cq_inv_def by (auto simp: threads_set_thread)
    qed
  qed
  moreover have "\<forall>j\<le>n. thread_ok (m_result ?q \<noteq> None) (threads ?q j)"
    using inv by (simp add: cq_inv_def threads_set_thread)
  moreover have "\<forall>k l. threads q 0 = Waiting False k l \<longrightarrow> nTodo q > 0 \<and> cq_queue q = []"
    using inv unfolding cq_inv_def by blast
  then have "\<forall>k l. threads ?q 0 = Waiting False k l \<longrightarrow> nTodo ?q > 0 \<and> cq_queue ?q = []"
    by (auto simp: threads_set_thread)
  moreover have "m_request_stop q \<longrightarrow> threads q 0 = Outside"
    using inv unfolding cq_inv_def by blast
  then have "m_request_stop ?q \<longrightarrow> threads ?q 0 = Outside"
    using i(2) by (auto simp: threads_set_thread)
  moreover have "m_result ?q = None \<and> (\<forall>j\<le>n. \<forall>e. \<not> holds_failure e (threads ?q j)) \<longrightarrow> (\<forall>c \<in># x + mset cs. check c = None)"
    using finished by (rule impI) simp_all
  moreover have "nTodo ?q = length (cq_queue ?q) + (\<Sum>j\<le>n. unreported (threads ?q j))"
    using inv sums(1) by (simp add: cq_inv_def)
  moreover have "\<forall>e. m_result ?q = Some e \<longrightarrow> (\<exists>c \<in> set added. check c = Some e)"
    using inv unfolding cq_inv_def set_thread_simps by blast
  ultimately show ?thesis
    unfolding cq_inv_def by blast
qed


lemma notify_workers_simps [simp]:
  "threads (notify_workers ws q) i = (if i \<in> ws \<and> i \<noteq> 0 then notify (threads q i) else threads q i)"
  "cq_queue (notify_workers ws q) = cq_queue q" "nTodo (notify_workers ws q) = nTodo q" "m_result (notify_workers ws q) = m_result q"
  "m_request_stop (notify_workers ws q) = m_request_stop q"
  by (simp_all add: notify_workers_def)

lemma cq_inv_notify_workers: "cq_inv check n added q \<Longrightarrow> cq_inv check n added (notify_workers ws q)"
proof -
  have t: "unreported (threads (notify_workers ws q) i) = unreported (threads q i)"
    "batch (threads (notify_workers ws q) i) = batch (threads q i)"
    "holds_failure e (threads (notify_workers ws q) i) = holds_failure e (threads q i)"
    "thread_ok b (threads (notify_workers ws q) i) = thread_ok b (threads q i)"
    "threads (notify_workers ws q) 0 = threads q 0" for i e b
    by simp_all
  show "cq_inv check n added q \<Longrightarrow> cq_inv check n added (notify_workers ws q)"
    unfolding cq_inv_def t notify_workers_simps(2-) .
qed

lemma cq_inv_add:
  assumes "cq_inv check n added q" "threads q 0 = Outside"
  shows "cq_inv check n (added @ cs) (q\<lparr>cq_queue := cq_queue q @ cs, nTodo := nTodo q + length cs\<rparr>)"
proof -
  obtain x where "mset added = mset (cq_queue q) + (\<Sum>j\<le>n. batch (threads q j)) + x"
    "m_result q = None \<and> (\<forall>i\<le>n. \<forall>e. \<not> holds_failure e (threads q i)) \<longrightarrow> (\<forall>c \<in># x. check c = None)"
    using assms(1) unfolding cq_inv_def by blast
  then have "\<exists>x. mset (added @ cs) = mset (cq_queue q @ cs) + (\<Sum>j\<le>n. batch (threads q j)) + x \<and>
    (m_result q = None \<and> (\<forall>i\<le>n. \<forall>e. \<not> holds_failure e (threads q i)) \<longrightarrow> (\<forall>c \<in># x. check c = None))"
    by (intro exI [of _ x]) (simp add: ac_simps)
  moreover have "nTodo q + length cs = length (cq_queue q @ cs) + (\<Sum>i\<le>n. unreported (threads q i))"
    using assms(1) by (simp add: cq_inv_def)
  moreover have "\<forall>e. m_result q = Some e \<longrightarrow> (\<exists>c \<in> set (added @ cs). check c = Some e)"
    "\<forall>i\<le>n. \<forall>e. m_result q = None \<and> holds_failure e (threads q i) \<longrightarrow> (\<exists>c \<in> set (added @ cs). check c = Some e)"
    "\<forall>i\<le>n. thread_ok (m_result q \<noteq> None) (threads q i)"
    using assms(1) unfolding cq_inv_def set_append by blast+
  ultimately show ?thesis
    using assms(2) unfolding cq_inv_def by simp
qed

text \<open>What every step keeps.\<close>

definition added_after :: "('t, 'r) cq_event \<Rightarrow> 't list \<Rightarrow> 't list" where
  "added_after ev added = (case ev of AddChecks cs \<Rightarrow> added @ cs | Completed r \<Rightarrow> [] | _ \<Rightarrow> added)"

lemma cq_inv_loop:
  assumes "cq_inv check n added (set_thread i Outside q)" "i \<le> n" "i = 0 \<Longrightarrow> \<not> m_request_stop q" "Loop_take i k l q = (r, q')"
  shows "cq_inv check n (added_after (loop_event i r) added) q' \<and> (\<forall>v. loop_event i r = (Completed v :: ('t, 'r) cq_event) \<longrightarrow> result_ok check added v)"
  using cq_inv_Loop_take [OF assms] by (auto simp: loop_event_def added_after_def split: option.splits if_splits)

lemma cq_inv_step:
  assumes "cq_step check n q ev q'" "cq_inv check n added q"
  shows "cq_inv check n (added_after ev added) q' \<and> (\<forall>v. ev = Completed v \<longrightarrow> result_ok check added v)"
  using assms(1)
proof cases
  case (enter i k l l' q'' r)
  have "\<not> m_request_stop q''" if "i = 0"
    using enter(3,4) assms(2) that by (auto simp: cq_inv_def Loop_cleanup_def Let_def notify_master_def split: if_splits)
  then show ?thesis
    unfolding enter(1) by (intro cq_inv_loop [OF cq_inv_Loop_cleanup [OF assms(2) enter(2-4)] enter(2) _ enter(5)])
next
  case (wake i k l r)
  have "\<not> m_request_stop q" if "i = 0"
    using wake(3) assms(2) that by (auto simp: cq_inv_def)
  then show ?thesis
    unfolding wake(1) by (intro cq_inv_loop [OF cq_inv_wake [OF assms(2) wake(2,3)] wake(2) _ wake(4)]) simp
next
  case (spurious i k l r)
  have "\<not> m_request_stop q" if "i = 0"
    using spurious(3) assms(2) that by (auto simp: cq_inv_def)
  then have "cq_inv check n (added_after (loop_event i r) added) q' \<and>
      (\<forall>v. loop_event i r = (Completed v :: ('a, 'b) cq_event) \<longrightarrow> result_ok check added v)"
    by (intro cq_inv_loop [OF cq_inv_wake [OF assms(2) spurious(2,3)] spurious(2) _ spurious(4)]) simp
  then show ?thesis
    unfolding spurious(1) by (auto simp: added_after_def loop_event_def)
next
  case (work i cs d l)
  then show ?thesis
    using cq_inv_work [OF assms(2)] by (simp add: added_after_def)
next
  case (add cs w)
  then show ?thesis
    using assms(2) cq_inv_notify_workers [OF cq_inv_add [OF assms(2), of cs]] by (simp add: added_after_def CCheckQueue_Add_def)
next
  case complete
  then show ?thesis
    using assms(2) by (auto simp: added_after_def holds_failure_def intro!: cq_inv_set_thread)
next
  case destroy
  then show ?thesis
    using assms(2) by (auto simp: added_after_def intro!: cq_inv_notify_workers) (simp add: cq_inv_def)
qed

lemma cq_reach_inv: "cq_reach check b n added q \<Longrightarrow> cq_inv check n added q"
proof (induction rule: cq_reach.induct)
  case init
  show ?case
    by (auto simp: cq_inv_def CCheckQueue_new_def holds_failure_def intro!: sum.neutral split: if_splits)
next
  case (add added q cs q')
  then show ?case
    using cq_inv_step by (fastforce simp: added_after_def)
next
  case (completed added q r q')
  then show ?case
    using cq_inv_step by (fastforce simp: added_after_def)
next
  case (other added q ev q')
  then show ?case
    using cq_inv_step [OF other(2)] by (auto simp: added_after_def)
qed


section \<open>The result\<close>

text \<open>
  C7.  The result of the queue does not depend on how the threads interleave, on spurious
  wake-ups, on the sizes of the batches or on what earlier runs left in the threads: a call of
  \<open>Complete\<close> returns no error exactly when every check added since the last call passes, and
  an error it returns is one of a check added since then.
\<close>
theorem CheckQueue_result:
  assumes "cq_reach check b n added q" "cq_step check n q (Completed r) q'"
  shows "(r = None \<longleftrightarrow> (\<forall>c \<in> set added. check c = None)) \<and> (\<forall>e. r = Some e \<longrightarrow> (\<exists>c \<in> set added. check c = Some e))"
  using cq_inv_step [OF assms(2) cq_reach_inv [OF assms(1)]] by (cases r) (auto simp: result_ok_def)

theorem CheckQueue_result_witness:
  "\<exists>q q'. cq_reach (\<lambda>c :: nat. None :: nat option) 128 1 [] q \<and> cq_step (\<lambda>c :: nat. None :: nat option) 1 q (Completed None) q'"
proof -
  let ?check = "\<lambda>c :: nat. None :: nat option"
  let ?q = "set_thread 0 (AtLock 0 None) (CCheckQueue_new 128 1)"
  have "cq_step ?check 1 (CCheckQueue_new 128 1) CallComplete ?q"
    by (rule cq_step.complete) (simp_all add: CCheckQueue_new_def)
  then have reach: "cq_reach ?check 128 1 [] ?q"
    by (rule cq_reach.other [OF cq_reach.init]) simp
  have "cq_step ?check 1 ?q (loop_event 0 (Some None)) (set_thread 0 Outside (?q\<lparr>nTotal := 0, m_result := None\<rparr>))"
    by (rule cq_step.enter [where k = 0 and l = None and l' = None and q' = "?q\<lparr>nTotal := 1\<rparr>"])
      (simp_all add: Loop_cleanup_def Loop_take_def CCheckQueue_new_def set_thread_def)
  then have step: "cq_step ?check 1 ?q (Completed None) (set_thread 0 Outside (?q\<lparr>nTotal := 0, m_result := None\<rparr>))"
    by (simp add: loop_event_def)
  show ?thesis
    using reach step CheckQueue_result [OF reach step] by blast
qed


section \<open>Completion\<close>

text \<open>A bound on the steps that the threads can take before the master returns.\<close>

primrec weight :: "('t, 'r) thread_state \<Rightarrow> nat" where
  "weight Outside = 0"
| "weight (AtLock k l) = 3"
| "weight (Waiting b k l) = (if b then 2 else 1)"
| "weight (Working cs d l) = 4"

definition work_left :: "nat \<Rightarrow> ('t, 'r) CCheckQueue \<Rightarrow> nat" where
  "work_left n q = 5 * length (cq_queue q) + (\<Sum>i\<le>n. weight (threads q i))"

lemma work_left_set_thread:
  "i \<le> n \<Longrightarrow> work_left n (set_thread i t q) + weight (threads q i) = work_left n q + weight t"
  using sum_set_thread [of i n weight t q] by (simp add: work_left_def)

lemma work_left_irrelevant [simp]:
  "work_left n (q\<lparr>nTotal := x\<rparr>) = work_left n q" "work_left n (q\<lparr>nIdle := x\<rparr>) = work_left n q"
  "work_left n (q\<lparr>m_result := r\<rparr>) = work_left n q" "work_left n (q\<lparr>nTodo := x\<rparr>) = work_left n q"
  by (simp_all add: work_left_def)

lemma work_left_notify: "work_left n (notify_master q) \<le> work_left n q + 1"
proof -
  have "weight (notify t) \<le> weight t + 1" for t :: "('t, 'r) thread_state"
    by (cases t) auto
  from this [of "threads q 0"] show ?thesis
    using work_left_set_thread [of 0 n "notify (threads q 0)" q] unfolding notify_master_def by linarith
qed

lemma work_left_Loop_take:
  assumes "i \<le> n" "Loop_take i k l q = (r, q')"
  shows "work_left n q' + weight (threads q i) \<le> work_left n q + 1"
proof (cases "cq_queue q = [] \<or> m_request_stop q")
  case True
  then have "\<exists>q0 t. q' = set_thread i t q0 \<and> threads q0 = threads q \<and> work_left n q0 = work_left n q \<and> weight t \<le> 1"
    using assms(2) by (force simp: Loop_take_def split: if_splits)
  then show ?thesis
    using work_left_set_thread [OF assms(1)] by (metis add_left_mono)
next
  case False
  let ?n = "length (cq_queue q) - batch_size q"
  have q': "q' = set_thread i (Working (drop ?n (cq_queue q)) (m_result q = None) l) (q\<lparr>cq_queue := take ?n (cq_queue q)\<rparr>)"
    using assms(2) False by (auto simp: Loop_take_def Let_def)
  have "work_left n (q\<lparr>cq_queue := take ?n (cq_queue q)\<rparr>) + 5 \<le> work_left n q"
    using batch_size_le [of q] False by (auto simp: work_left_def)
  then show ?thesis
    unfolding q' using work_left_set_thread [OF assms(1), of "Working (drop ?n (cq_queue q)) (m_result q = None) l" "q\<lparr>cq_queue := take ?n (cq_queue q)\<rparr>"]
    by simp
qed

lemma Loop_take_thread_state:
  assumes "Loop_take i k l q = (r, q')"
  shows "j \<noteq> i \<Longrightarrow> threads q' j = threads q j" "r = None \<Longrightarrow> threads q' i \<noteq> Outside"
  using assms by (auto simp: Loop_take_def Let_def split: if_splits)

lemma Loop_cleanup_work_left:
  assumes "Loop_cleanup i k l q = (l', q')" "threads q i = AtLock k l"
  shows "work_left n q' \<le> work_left n q + 1" "threads q' i = AtLock k l" "threads q' 0 = Outside \<longleftrightarrow> threads q 0 = Outside"
  using assms work_left_notify [of n "q\<lparr>m_result := x, nTodo := y\<rparr>" for x y] work_left_notify [of n "q\<lparr>nTodo := 0\<rparr>"]
  by (auto simp: Loop_cleanup_def Let_def notify_master_def threads_set_thread split: if_splits)

text \<open>A step inside the loop returns from \<open>Complete\<close> or brings the return nearer.\<close>

lemma cq_step_progress:
  assumes "cq_inv check n added q" "threads q 0 \<noteq> Outside" "cq_step check n q ev q'" "ev \<noteq> Spurious"
  shows "(\<exists>r. ev = Completed r) \<or> ev = Thread \<and> threads q' 0 \<noteq> Outside \<and> work_left n q' < work_left n q"
  using assms(3)
proof cases
  case (enter i k l l' q'' r)
  then show ?thesis
    using Loop_cleanup_work_left(1) [OF enter(4,3), of n] Loop_cleanup_work_left(2,3) [OF enter(4,3)] work_left_Loop_take [OF enter(2,5)] Loop_take_thread_state [OF enter(5)] assms(2)
    by (cases "i = 0") (auto simp: loop_event_def split: option.splits)
next
  case (wake i k l r)
  then show ?thesis
    using work_left_Loop_take [OF wake(2,4)] Loop_take_thread_state [OF wake(4)] assms(2)
    by (cases "i = 0") (auto simp: loop_event_def split: option.splits)
next
  case (spurious i k l r)
  have "\<not> m_request_stop q"
    using assms(1,2) by (auto simp: cq_inv_def)
  moreover have "r \<noteq> None"
    using assms(4) spurious(1) by (metis (full_types))
  ultimately have "i = 0"
    using spurious(4) by (auto simp: Loop_take_def Let_def split: if_splits)
  then show ?thesis
    using spurious(1) \<open>r \<noteq> None\<close> by (auto simp: loop_event_def)
next
  case (work i cs d l)
  then show ?thesis
    using work_left_set_thread [OF work(3), of "AtLock (length cs) (if d then run_checks check cs l else l)" q] assms(2)
    by (auto simp: threads_set_thread)
qed (use assms(2,4) in auto)


lemma cq_step_possible:
  assumes "cq_inv check n added q" "threads q 0 \<noteq> Outside"
  shows "\<exists>ev q'. cq_step check n q ev q' \<and> ev \<noteq> Spurious"
proof -
  have enter: "\<exists>ev q'. cq_step check n q ev q' \<and> ev \<noteq> Spurious" if "i \<le> n" "threads q i = AtLock k l" for i k l
  proof -
    obtain l' q' where a: "Loop_cleanup i k l q = (l', q')"
      by fastforce
    obtain r q'' where "Loop_take i k l' q' = (r, q'')"
      by fastforce
    from cq_step.enter [OF that a this, of check] show ?thesis
      by (intro exI conjI) (auto simp: loop_event_def split: option.splits if_splits)
  qed
  have wake: "\<exists>ev q'. cq_step check n q ev q' \<and> ev \<noteq> Spurious" if "i \<le> n" "threads q i = Waiting True k l" for i k l
  proof -
    obtain r q' where "Loop_take i k l (q\<lparr>nIdle := nIdle q - 1\<rparr>) = (r, q')"
      by fastforce
    from cq_step.wake [OF that this, of check] show ?thesis
      by (intro exI conjI) (auto simp: loop_event_def split: option.splits if_splits)
  qed
  have work: "\<exists>ev q'. cq_step check n q ev q' \<and> ev \<noteq> Spurious" if "i \<le> n" "threads q i = Working cs d l" for i cs d l
    using cq_step.work [OF that, of check] by (intro exI conjI) auto
  show ?thesis
  proof (cases "\<exists>k l. threads q 0 = Waiting False k l")
    case True
    then have "nTodo q > 0" "cq_queue q = []" "nTodo q = length (cq_queue q) + (\<Sum>i\<le>n. unreported (threads q i))"
      using assms(1) unfolding cq_inv_def by blast+
    then obtain i where "i \<le> n" "unreported (threads q i) \<noteq> 0"
      by (metis add_0 atMost_iff list.size(3) not_less_zero sum.neutral)
    then show ?thesis
      using enter work by (cases "threads q i") auto
  next
    case False
    then show ?thesis
      using assms(2) enter [of 0] wake [of 0] work [of 0] by (cases "threads q 0") auto
  qed
qed

text \<open>There is a run in which \<open>Complete\<close> returns.\<close>

lemma cq_reach_completed:
  assumes "cq_reach check b n added q" "threads q 0 \<noteq> Outside"
  shows "\<exists>q' r q''. cq_reach check b n added q' \<and> cq_step check n q' (Completed r) q''"
  using assms
proof (induction "work_left n q" arbitrary: q rule: less_induct)
  case less
  have inv: "cq_inv check n added q"
    using less.prems(1) by (rule cq_reach_inv)
  obtain ev q' where step: "cq_step check n q ev q'" "ev \<noteq> Spurious"
    using cq_step_possible [OF inv less.prems(2)] by blast
  from cq_step_progress [OF inv less.prems(2) step] show ?case
  proof
    assume "\<exists>r. ev = Completed r"
    then show ?thesis
      using less.prems(1) step(1) by blast
  next
    assume "ev = Thread \<and> threads q' 0 \<noteq> Outside \<and> work_left n q' < work_left n q"
    then show ?thesis
      using less.hyps [of q'] cq_reach.other [OF less.prems(1) step(1)] by blast
  qed
qed

lemma cq_reach_added:
  "\<exists>q r q'. cq_reach check b n cs q \<and> cq_step check n q (Completed r) q'"
proof -
  let ?q = "CCheckQueue_Add cs 0 (CCheckQueue_new b n)"
  have "cq_step check n (CCheckQueue_new b n) (AddChecks cs) ?q"
    by (rule cq_step.add) (simp_all add: CCheckQueue_new_def)
  then have "cq_reach check b n ([] @ cs) ?q"
    by (rule cq_reach.add [OF cq_reach.init])
  moreover have "cq_step check n ?q CallComplete (set_thread 0 (AtLock 0 None) ?q)"
    by (rule cq_step.complete) (simp_all add: CCheckQueue_Add_def CCheckQueue_new_def)
  ultimately have "cq_reach check b n cs (set_thread 0 (AtLock 0 None) ?q)"
    using cq_reach.other by fastforce
  then show ?thesis
    by (rule cq_reach_completed) simp
qed

text \<open>
  C6.  \<open>Complete\<close> returns: while the master is in the loop, some thread can take a step, so
  there is no deadlock and no lost notification; and in every infinite sequence of steps without
  spurious wake-ups \<open>Complete\<close> returns, whatever threads the scheduler prefers.
\<close>
theorem CheckQueue_completes:
  assumes "cq_reach check b n added q" "threads q 0 \<noteq> Outside"
  shows "(\<exists>ev q'. cq_step check n q ev q' \<and> ev \<noteq> Spurious) \<and>
    (\<forall>qs evs. qs 0 = q \<and> (\<forall>i. cq_step check n (qs i) (evs i) (qs (Suc i)) \<and> evs i \<noteq> Spurious) \<longrightarrow> (\<exists>k r. evs k = Completed r))"
proof (intro conjI allI impI)
  have inv: "cq_inv check n added q"
    using assms(1) by (rule cq_reach_inv)
  show "\<exists>ev q'. cq_step check n q ev q' \<and> ev \<noteq> Spurious"
    using inv assms(2) by (rule cq_step_possible)
  fix qs and evs :: "nat \<Rightarrow> ('a, 'b) cq_event"
  assume run: "qs 0 = q \<and> (\<forall>i. cq_step check n (qs i) (evs i) (qs (Suc i)) \<and> evs i \<noteq> Spurious)"
  show "\<exists>k r. evs k = Completed r"
  proof (rule ccontr)
    assume no: "\<not> (\<exists>k r. evs k = Completed r)"
    have "cq_inv check n added (qs i) \<and> threads (qs i) 0 \<noteq> Outside \<and> work_left n (qs i) + i \<le> work_left n q" for i
    proof (induction i)
      case 0
      then show ?case
        using run inv assms(2) by simp
    next
      case (Suc i)
      then have step: "evs i = Thread \<and> threads (qs (Suc i)) 0 \<noteq> Outside \<and> work_left n (qs (Suc i)) < work_left n (qs i)"
        using cq_step_progress [of check n added "qs i" "evs i" "qs (Suc i)"] run no by blast
      moreover have "cq_inv check n (added_after (evs i) added) (qs (Suc i))"
        using cq_inv_step run Suc by blast
      ultimately show ?case
        using Suc by (simp add: added_after_def)
    qed
    from this [of "Suc (work_left n q)"] show False
      by simp
  qed
qed

theorem CheckQueue_completes_witness:
  "let q = set_thread 0 (AtLock 0 None) (CCheckQueue_new 128 1) :: (nat, nat) CCheckQueue in
   cq_reach (\<lambda>c. None) 128 1 [] q \<and> threads q 0 \<noteq> Outside \<and> (\<exists>ev q'. cq_step (\<lambda>c. None) 1 q ev q' \<and> ev \<noteq> Spurious)"
proof -
  let ?check = "\<lambda>c :: nat. None :: nat option"
  let ?q = "set_thread 0 (AtLock 0 None) (CCheckQueue_new 128 1)"
  have "cq_step ?check 1 (CCheckQueue_new 128 1) CallComplete ?q"
    by (rule cq_step.complete) (simp_all add: CCheckQueue_new_def)
  then have reach: "cq_reach ?check 128 1 [] ?q"
    by (rule cq_reach.other [OF cq_reach.init]) simp
  then show ?thesis
    using CheckQueue_completes [OF reach] by (simp add: Let_def)
qed

end
