(* ===== verification/Validation.thy ===== *)
theory Validation
  imports VerifySafety SigCache CheckQueue
begin

text \<open>
  The script checks of block and mempool validation (\<open>src/validation.cpp\<close>): one
  \<open>CScriptCheck\<close> for each input, \<open>CheckInputScripts\<close> with its second look at
  failures of policy-only flags, and the flags that blocks enforce; the flag sets of
  \<open>src/policy/policy.h\<close>.  The coins view is a map from outpoints to unspent outputs.  Checks
  are run one after the other or handed to the check queue.  The checker is the one without the
  signature cache, which \<open>SigCache\<close> shows to give the same results.
\<close>

section \<open>Flags\<close>

definition MANDATORY_SCRIPT_VERIFY_FLAGS :: script_flags where
  "MANDATORY_SCRIPT_VERIFY_FLAGS =
    SCRIPT_VERIFY_P2SH OR SCRIPT_VERIFY_DERSIG OR SCRIPT_VERIFY_NULLDUMMY OR SCRIPT_VERIFY_CHECKLOCKTIMEVERIFY OR
    SCRIPT_VERIFY_CHECKSEQUENCEVERIFY OR SCRIPT_VERIFY_WITNESS OR SCRIPT_VERIFY_TAPROOT OR SCRIPT_VERIFY_QUANTUM_SIGS"

definition STANDARD_SCRIPT_VERIFY_FLAGS :: script_flags where
  "STANDARD_SCRIPT_VERIFY_FLAGS =
    MANDATORY_SCRIPT_VERIFY_FLAGS OR SCRIPT_VERIFY_STRICTENC OR SCRIPT_VERIFY_MINIMALDATA OR
    SCRIPT_VERIFY_DISCOURAGE_UPGRADABLE_NOPS OR SCRIPT_VERIFY_CLEANSTACK OR SCRIPT_VERIFY_MINIMALIF OR
    SCRIPT_VERIFY_NULLFAIL OR SCRIPT_VERIFY_LOW_S OR SCRIPT_VERIFY_DISCOURAGE_UPGRADABLE_WITNESS_PROGRAM OR
    SCRIPT_VERIFY_WITNESS_PUBKEYTYPE OR SCRIPT_VERIFY_CONST_SCRIPTCODE OR
    SCRIPT_VERIFY_DISCOURAGE_UPGRADABLE_TAPROOT_VERSION OR SCRIPT_VERIFY_DISCOURAGE_OP_SUCCESS OR
    SCRIPT_VERIFY_DISCOURAGE_UPGRADABLE_PUBKEYTYPE OR SCRIPT_VERIFY_QUANTUM_SIGS"

definition STANDARD_NOT_MANDATORY_VERIFY_FLAGS :: script_flags where
  "STANDARD_NOT_MANDATORY_VERIFY_FLAGS = STANDARD_SCRIPT_VERIFY_FLAGS AND NOT MANDATORY_SCRIPT_VERIFY_FLAGS"

datatype BuriedOrBIP9 = DEPLOYMENT_DERSIG | DEPLOYMENT_CLTV | DEPLOYMENT_CSV | DEPLOYMENT_SEGWIT | DEPLOYMENT_QUANTUM_SIGS

text \<open>
  \<open>GetBlockScriptFlags\<close>: the deployments active at the block and the exceptions of the
  chain, with the hash of the block.
\<close>

definition GetBlockScriptFlags :: "(BuriedOrBIP9 \<Rightarrow> bool) \<Rightarrow> (uint256 \<Rightarrow> script_flags option) \<Rightarrow> uint256 \<Rightarrow> script_flags" where
  "GetBlockScriptFlags DeploymentActiveAt script_flag_exceptions block_hash =
    (let flags = SCRIPT_VERIFY_P2SH OR SCRIPT_VERIFY_WITNESS OR SCRIPT_VERIFY_TAPROOT;
         flags = (case script_flag_exceptions block_hash of Some f \<Rightarrow> f | None \<Rightarrow> flags);
         flags = (if DeploymentActiveAt DEPLOYMENT_DERSIG then flags OR SCRIPT_VERIFY_DERSIG else flags);
         flags = (if DeploymentActiveAt DEPLOYMENT_CLTV then flags OR SCRIPT_VERIFY_CHECKLOCKTIMEVERIFY else flags);
         flags = (if DeploymentActiveAt DEPLOYMENT_CSV then flags OR SCRIPT_VERIFY_CHECKSEQUENCEVERIFY else flags);
         flags = (if DeploymentActiveAt DEPLOYMENT_SEGWIT then flags OR SCRIPT_VERIFY_NULLDUMMY else flags);
         flags = (if DeploymentActiveAt DEPLOYMENT_QUANTUM_SIGS then flags OR SCRIPT_VERIFY_QUANTUM_SIGS else flags)
     in flags)"


section \<open>Checking the inputs\<close>

definition script_check_env :: "verify_ops \<Rightarrow> script_flags \<Rightarrow> TransactionChecker \<Rightarrow> EvalEnv" where
  "script_check_env ops nFlags ck =
    \<lparr>env_flags = nFlags, env_checker = GenericTransactionSignatureChecker ops ck, env_sigversion = BASE,
     env_hashes = vo_hashes ops, env_CheckLowS = vo_CheckLowS ops\<rparr>"

definition CScriptCheck ::
  "verify_ops \<Rightarrow> CTxOut \<Rightarrow> CTransaction \<Rightarrow> nat \<Rightarrow> script_flags \<Rightarrow> PrecomputedTransactionData \<Rightarrow> ScriptError + unit" where
  "CScriptCheck ops m_tx_out txTo nIn nFlags txdata =
    (let ck = \<lparr>ck_txTo = txTo, ck_mdb = MDB_ASSERT_FAIL, ck_nIn = nIn, ck_amount = txout_nValue m_tx_out, ck_txdata = Some txdata\<rparr>;
         txin = tx_vin txTo ! nIn in
     VerifyScript (CheckTapTweak (vo_xonly ops)) (script_check_env ops nFlags ck)
       (txin_scriptSig txin) (txout_scriptPubKey m_tx_out) (txin_scriptWitness txin))"

datatype TxValidationResult =
  TX_RESULT_UNSET | TX_CONSENSUS | TX_INPUTS_NOT_STANDARD | TX_NOT_STANDARD | TX_MISSING_INPUTS | TX_PREMATURE_SPEND
| TX_WITNESS_MUTATED | TX_WITNESS_STRIPPED | TX_CONFLICT | TX_MEMPOOL_POLICY | TX_NO_MEMPOOL | TX_RECONSIDERABLE | TX_UNKNOWN

text \<open>The outputs that the inputs spend; a spent coin is an assertion failure.\<close>

primrec collect_spent :: "(COutPoint \<Rightarrow> CTxOut option) \<Rightarrow> CTxIn list \<Rightarrow> ScriptError + CTxOut list" where
  "collect_spent coins [] = Inr []"
| "collect_spent coins (txin # vin) = (case coins (txin_prevout txin) of
     None \<Rightarrow> Inl ASSERT_FAIL
   | Some out \<Rightarrow> bindE (collect_spent coins vin) (\<lambda>outs. Inr (out # outs)))"

text \<open>
  One input: \<^term>\<open>None\<close> when it verifies, otherwise how the transaction is invalid and
  with which script error.
\<close>

definition check_input ::
  "verify_ops \<Rightarrow> CTransaction \<Rightarrow> script_flags \<Rightarrow> PrecomputedTransactionData \<Rightarrow> nat \<Rightarrow> (TxValidationResult \<times> ScriptError) option" where
  "check_input ops tx flags txdata i =
    (let check = (\<lambda>flags. CScriptCheck ops (m_spent_outputs txdata ! i) tx i flags txdata) in
     case check flags of
       Inr _ \<Rightarrow> None
     | Inl e \<Rightarrow>
         if flags AND STANDARD_NOT_MANDATORY_VERIFY_FLAGS \<noteq> 0 then
           (case check (flags AND NOT STANDARD_NOT_MANDATORY_VERIFY_FLAGS) of
              Inr _ \<Rightarrow> Some (TX_NOT_STANDARD, e)
            | Inl e' \<Rightarrow> Some (TX_CONSENSUS, e'))
         else Some (TX_CONSENSUS, e))"

primrec check_inputs ::
  "verify_ops \<Rightarrow> CTransaction \<Rightarrow> script_flags \<Rightarrow> PrecomputedTransactionData \<Rightarrow> nat list \<Rightarrow> (TxValidationResult \<times> ScriptError) option" where
  "check_inputs ops tx flags txdata [] = None"
| "check_inputs ops tx flags txdata (i # is) = (case check_input ops tx flags txdata i of
     None \<Rightarrow> check_inputs ops tx flags txdata is
   | Some r \<Rightarrow> Some r)"

definition GetWitnessHash :: "Hashes \<Rightarrow> CTransaction \<Rightarrow> uint256" where
  "GetWitnessHash hs tx = Hash256 hs (SerializeTransaction True tx)"

record ValidationCache =
  vc_nonce :: uint256
  m_script_execution_cache :: "uint256 cache"

definition ValidationCache_new :: "(32 word \<Rightarrow> byte) \<Rightarrow> uint256 \<Rightarrow> nat \<Rightarrow> ValidationCache" where
  "ValidationCache_new log2 nonce script_execution_cache_bytes =
    \<lparr>vc_nonce = nonce, m_script_execution_cache = setup_bytes log2 uint256_ZERO 32 script_execution_cache_bytes\<rparr>"

definition script_cache_entry :: "verify_ops \<Rightarrow> ValidationCache \<Rightarrow> CTransaction \<Rightarrow> script_flags \<Rightarrow> uint256" where
  "script_cache_entry ops vc tx flags =
    SHA256 (vo_hashes ops) (vc_nonce vc @ vc_nonce vc @ GetWitnessHash (vo_hashes ops) tx @ ser_uint32 flags)"

text \<open>A check as it is put on the queue, and its execution there: the error, if it fails.\<close>

record ScriptCheck =
  sk_tx_out :: CTxOut
  sk_txTo :: CTransaction
  sk_nIn :: nat
  sk_nFlags :: script_flags
  sk_txdata :: PrecomputedTransactionData

definition run_ScriptCheck :: "verify_ops \<Rightarrow> ScriptCheck \<Rightarrow> ScriptError option" where
  "run_ScriptCheck ops c = (case CScriptCheck ops (sk_tx_out c) (sk_txTo c) (sk_nIn c) (sk_nFlags c) (sk_txdata c) of
     Inr _ \<Rightarrow> None | Inl e \<Rightarrow> Some e)"

lemma run_ScriptCheck_None:
  "run_ScriptCheck ops c = None \<longleftrightarrow> CScriptCheck ops (sk_tx_out c) (sk_txTo c) (sk_nIn c) (sk_nFlags c) (sk_txdata c) = Inr ()"
  by (cases "CScriptCheck ops (sk_tx_out c) (sk_txTo c) (sk_nIn c) (sk_nFlags c) (sk_txdata c)") (auto simp: run_ScriptCheck_def)

text \<open>
  \<open>CheckInputScripts\<close> returns how the transaction is invalid, if it is, and updates the
  script execution cache, the precomputed data and the list of checks, if one is given.
\<close>

definition CheckInputScripts ::
  "verify_ops \<Rightarrow> CTransaction \<Rightarrow> (COutPoint \<Rightarrow> CTxOut option) \<Rightarrow> script_flags \<Rightarrow> bool \<Rightarrow> PrecomputedTransactionData \<Rightarrow>
   ValidationCache \<Rightarrow> ScriptCheck list option \<Rightarrow>
   ScriptError + (TxValidationResult \<times> ScriptError) option \<times> PrecomputedTransactionData \<times> ValidationCache \<times> ScriptCheck list option" where
  "CheckInputScripts ops tx inputs flags cacheFullScriptStore txdata vc pvChecks =
    (if IsCoinBase tx then Inr (None, txdata, vc, pvChecks)
     else
       let entry = script_cache_entry ops vc tx flags;
           (hit, c) = cache_contains SignatureCacheHasher (m_script_execution_cache vc) entry (\<not> cacheFullScriptStore);
           vc = vc\<lparr>m_script_execution_cache := c\<rparr> in
       if hit then Inr (None, txdata, vc, pvChecks)
       else bindE (if \<not> m_spent_outputs_ready txdata then
                     bindE (collect_spent inputs (tx_vin tx)) (\<lambda>spent_outputs.
                       PrecomputedTransactionData_Init (vo_hashes ops) tx spent_outputs False txdata)
                   else Inr txdata)
         (\<lambda>txdata.
            if length (m_spent_outputs txdata) \<noteq> length (tx_vin tx) then Inl ASSERT_FAIL
            else case pvChecks of
              Some checks \<Rightarrow>
                Inr (None, txdata, vc, Some (checks @ map (\<lambda>i. \<lparr>sk_tx_out = m_spent_outputs txdata ! i, sk_txTo = tx, sk_nIn = i,
                  sk_nFlags = flags, sk_txdata = txdata\<rparr>) [0..<length (tx_vin tx)]))
            | None \<Rightarrow>
                let r = check_inputs ops tx flags txdata [0..<length (tx_vin tx)] in
                Inr (r, txdata,
                     if r = None \<and> cacheFullScriptStore
                     then vc\<lparr>m_script_execution_cache := cache_insert SignatureCacheHasher (m_script_execution_cache vc) entry\<rparr>
                     else vc,
                     None)))"


section \<open>The data for the checks\<close>

lemma collect_spent_Inr:
  "(\<forall>txin \<in> set vin. \<exists>out. coins (txin_prevout txin) = Some out) \<Longrightarrow>
   collect_spent coins vin = Inr (map (\<lambda>txin. the (coins (txin_prevout txin))) vin)"
  by (induction vin) (auto split: option.split)

lemma scan_inputs_keeps_taproot: "scan_inputs ready spent vin sw True = (sw', t') \<Longrightarrow> t'"
  by (induction vin arbitrary: spent sw) (auto split: if_splits)

lemma scan_inputs_taproot:
  assumes "scan_inputs True spent vin sw t = (sw', t')" "length spent = length vin" "i < length vin"
    "txin_scriptWitness (vin ! i) \<noteq> []" "length (txout_scriptPubKey (spent ! i)) = 34"
    "unat (txout_scriptPubKey (spent ! i) ! 0) = OP_1"
  shows t'
  using assms
proof (induction vin arbitrary: spent sw t i)
  case (Cons txin vin)
  then obtain out spent' where "spent = out # spent'"
    by (cases spent) auto
  with Cons show ?case
    by (cases i) (auto split: if_splits dest: scan_inputs_keeps_taproot)
qed simp

lemma Init_taproot_ready:
  assumes "PrecomputedTransactionData_Init hs tx spent False empty_precomputed = Inr d" "i < length (tx_vin tx)"
    "spent \<noteq> []" "txin_scriptWitness (tx_vin tx ! i) \<noteq> []"
    "length (txout_scriptPubKey (spent ! i)) = 34" "unat (txout_scriptPubKey (spent ! i) ! 0) = OP_1"
  shows "m_bip341_taproot_ready d \<and> m_spent_outputs_ready d"
  using assms scan_inputs_taproot [of spent "tx_vin tx" False False]
  by (auto simp: PrecomputedTransactionData_Init_def empty_precomputed_def Let_def split: prod.splits if_splits)

lemma Init_defined:
  assumes "length spent = length (tx_vin tx)"
  shows "\<exists>d. PrecomputedTransactionData_Init hs tx spent force empty_precomputed = Inr d \<and> m_spent_outputs d = spent"
  using assms by (auto simp: PrecomputedTransactionData_Init_def empty_precomputed_def Let_def split: prod.split)

lemma taproot_program_script:
  "IsWitnessProgram spk = Some (1, program) \<Longrightarrow> length program = 32 \<Longrightarrow> length spk = 34 \<and> unat (spk ! 0) = OP_1"
  by (auto simp: IsWitnessProgram_def DecodeOP_N_def split: if_splits)

lemma Generic_taproot_checker_ok:
  assumes "amount_known ck" "spent_outputs_known ck"
  shows "taproot_checker_ok (GenericTransactionSignatureChecker ops ck)"
proof -
  have "Generic_CheckSchnorrSignature ops ck sig key TAPROOT ed \<noteq> Inl ASSERT_FAIL" if "m_annex ed \<noteq> None" "length key = 32" for sig key ed
    using Generic_Schnorr_no_assert [of ck ed key TAPROOT ops sig] assms that
    by (cases "Generic_CheckSchnorrSignature ops ck sig key TAPROOT ed") (auto simp: amount_known_def)
  then show ?thesis
    using Generic_checker_ok [of ck TAPSCRIPT ops] assms
    by (simp add: taproot_checker_ok_def GenericTransactionSignatureChecker_def)
qed

lemma CScriptCheck_no_assert:
  assumes "hash_sizes (vo_hashes ops)" "flags_consistent flags" "i < length (tx_vin tx)" "length spent = length (tx_vin tx)"
    "PrecomputedTransactionData_Init (vo_hashes ops) tx spent False empty_precomputed = Inr d" "sint (txout_nValue (spent ! i)) \<ge> 0"
  shows "CScriptCheck ops (spent ! i) tx i flags d \<noteq> Inl ASSERT_FAIL"
proof -
  let ?ck = "\<lparr>ck_txTo = tx, ck_mdb = MDB_ASSERT_FAIL, ck_nIn = i, ck_amount = txout_nValue (spent ! i), ck_txdata = Some d\<rparr>"
  have a: "amount_known ?ck"
    using assms by (simp add: amount_known_def)
  have "spent_outputs_known ?ck"
    if "IsWitnessProgram (txout_scriptPubKey (spent ! i)) = Some (1, program)" "length program = 32"
      "txin_scriptWitness (tx_vin tx ! i) \<noteq> []" for program
  proof -
    have "spent \<noteq> []"
      using assms(3,4) by auto
    then show ?thesis
      using Init_taproot_ready [OF assms(5,3) _ that(3)] taproot_program_script [OF that(1,2)]
      by (simp add: spent_outputs_known_def)
  qed
  then have "verify_ready (script_check_env ops flags ?ck) (txout_scriptPubKey (spent ! i)) (txin_scriptWitness (tx_vin tx ! i))"
    using assms(1,2) a Generic_checker_ok [OF a] Generic_taproot_checker_ok [OF a]
    by (auto simp: verify_ready_def script_check_env_def)
  then show ?thesis
    using VerifyScript_no_assert_aux by (simp add: CScriptCheck_def Let_def runs_iff_no_assert)
qed

lemma check_inputs_cases:
  "check_inputs ops tx flags d is = None \<longleftrightarrow> (\<forall>i \<in> set is. check_input ops tx flags d i = None)"
  "check_inputs ops tx flags d is = Some r \<Longrightarrow> \<exists>i \<in> set is. check_input ops tx flags d i = Some r"
  by (induction "is") (auto split: option.splits)

lemma not_mandatory_flags: "STANDARD_NOT_MANDATORY_VERIFY_FLAGS = 0x1df1ca"
  by (simp add: STANDARD_NOT_MANDATORY_VERIFY_FLAGS_def STANDARD_SCRIPT_VERIFY_FLAGS_def MANDATORY_SCRIPT_VERIFY_FLAGS_def)

definition mandatory_part :: "script_flags \<Rightarrow> script_flags" where
  "mandatory_part flags = flags AND NOT STANDARD_NOT_MANDATORY_VERIFY_FLAGS"

lemma has_flag_mandatory:
  "has_flag (mandatory_part flags) 0x1 = has_flag flags 0x1" "has_flag (mandatory_part flags) 0x800 = has_flag flags 0x800"
  "has_flag (mandatory_part flags) 0x200000 = has_flag flags 0x200000" "\<not> has_flag (mandatory_part flags) 0x100"
  by (simp_all add: mandatory_part_def has_flag_def not_mandatory_flags and.assoc)

lemma flags_consistent_mandatory: "flags_consistent flags \<Longrightarrow> flags_consistent (mandatory_part flags)"
  by (simp add: flags_consistent_def has_flag_mandatory)

definition coins_known :: "(COutPoint \<Rightarrow> CTxOut option) \<Rightarrow> CTransaction \<Rightarrow> bool" where
  "coins_known coins tx \<longleftrightarrow>
    (\<forall>txin \<in> set (tx_vin tx). \<exists>out. coins (txin_prevout txin) = Some out \<and> sint (txout_nValue out) \<ge> 0)"

definition spent_by :: "(COutPoint \<Rightarrow> CTxOut option) \<Rightarrow> CTransaction \<Rightarrow> CTxOut list" where
  "spent_by coins tx = map (\<lambda>txin. the (coins (txin_prevout txin))) (tx_vin tx)"

text \<open>The cases of \<open>CheckInputScripts\<close>, when the spent outputs are known.\<close>

definition cached :: "verify_ops \<Rightarrow> ValidationCache \<Rightarrow> CTransaction \<Rightarrow> script_flags \<Rightarrow> bool" where
  "cached ops vc tx flags = fst (cache_contains SignatureCacheHasher (m_script_execution_cache vc) (script_cache_entry ops vc tx flags) False)"

definition pending_checks :: "CTransaction \<Rightarrow> script_flags \<Rightarrow> PrecomputedTransactionData \<Rightarrow> ScriptCheck list" where
  "pending_checks tx flags d = map (\<lambda>i. \<lparr>sk_tx_out = m_spent_outputs d ! i, sk_txTo = tx, sk_nIn = i, sk_nFlags = flags, sk_txdata = d\<rparr>)
    [0..<length (tx_vin tx)]"

lemma CheckInputScripts_skip:
  assumes "IsCoinBase tx \<or> cached ops vc tx flags"
  shows "\<exists>vc'. CheckInputScripts ops tx coins flags full d vc pv = Inr (None, d, vc', pv)"
proof (cases "IsCoinBase tx")
  case False
  obtain h c where hit: "cache_contains SignatureCacheHasher (m_script_execution_cache vc) (script_cache_entry ops vc tx flags) (\<not> full) = (h, c)"
    by fastforce
  moreover have h
    using assms False hit by (metis cached_def cache_contains_iff fst_conv)
  ultimately show ?thesis
    using False by (simp add: CheckInputScripts_def Let_def)
qed (simp add: CheckInputScripts_def)

lemma CheckInputScripts_eq:
  assumes "coins_known coins tx" "\<not> IsCoinBase tx" "\<not> cached ops vc tx flags"
  shows "\<exists>d c. PrecomputedTransactionData_Init (vo_hashes ops) tx (spent_by coins tx) False empty_precomputed = Inr d \<and>
    m_spent_outputs d = spent_by coins tx \<and>
    cache_contains SignatureCacheHasher (m_script_execution_cache vc) (script_cache_entry ops vc tx flags) (\<not> full) = (False, c) \<and>
    CheckInputScripts ops tx coins flags full empty_precomputed vc pv =
      (let vc = vc\<lparr>m_script_execution_cache := c\<rparr> in
       case pv of
         Some checks \<Rightarrow> Inr (None, d, vc, Some (checks @ pending_checks tx flags d))
       | None \<Rightarrow>
           let r = check_inputs ops tx flags d [0..<length (tx_vin tx)] in
           Inr (r, d,
             if r = None \<and> full
             then vc\<lparr>m_script_execution_cache := cache_insert SignatureCacheHasher c (script_cache_entry ops vc tx flags)\<rparr>
             else vc, None))"
proof -
  have c: "collect_spent coins (tx_vin tx) = Inr (spent_by coins tx)"
    using assms(1) collect_spent_Inr [of "tx_vin tx" coins] by (auto simp: coins_known_def spent_by_def)
  have l: "length (spent_by coins tx) = length (tx_vin tx)"
    by (simp add: spent_by_def)
  obtain d where d: "PrecomputedTransactionData_Init (vo_hashes ops) tx (spent_by coins tx) False empty_precomputed = Inr d"
    "m_spent_outputs d = spent_by coins tx"
    using Init_defined [OF l] by blast
  obtain h c' where hit: "cache_contains SignatureCacheHasher (m_script_execution_cache vc) (script_cache_entry ops vc tx flags) (\<not> full) = (h, c')"
    by fastforce
  have "\<not> h"
    using assms(3) hit by (metis cached_def cache_contains_iff fst_conv)
  moreover have "\<not> m_spent_outputs_ready empty_precomputed"
    by (simp add: empty_precomputed_def)
  ultimately show ?thesis
    using c d l hit assms(2) by (simp add: CheckInputScripts_def pending_checks_def script_cache_entry_def Let_def split: option.split)
qed


definition demo_ops :: verify_ops where
  "demo_ops = \<lparr>vo_crypto = demo_crypto,
    vo_xonly = \<lparr>VerifySchnorr = (\<lambda>p h s. False), CheckTapTweak = (\<lambda>q p m parity. False)\<rparr>,
    vo_hashes = padded_hashes, vo_CheckLowS = (\<lambda>_. True)\<rparr>"

lemma demo_ops_hash_sizes: "hash_sizes (vo_hashes demo_ops)"
  by (auto simp: hash_sizes_def demo_ops_def padded_hashes_def min_def)

definition demo_coins :: "CScript \<Rightarrow> COutPoint \<Rightarrow> CTxOut option" where
  "demo_coins spk p = Some \<lparr>txout_nValue = 5000, txout_scriptPubKey = spk\<rparr>"

lemma demo_coins_known: "coins_known (demo_coins spk) tx"
  by (simp add: coins_known_def demo_coins_def)

lemma standard_flags: "STANDARD_SCRIPT_VERIFY_FLAGS = 0x3fffdf" "MANDATORY_SCRIPT_VERIFY_FLAGS = 0x220e15"
  by (simp_all add: STANDARD_SCRIPT_VERIFY_FLAGS_def MANDATORY_SCRIPT_VERIFY_FLAGS_def)

lemma standard_flags_consistent: "flags_consistent STANDARD_SCRIPT_VERIFY_FLAGS"
  by (simp add: flags_consistent_def has_flag_def standard_flags)

definition demo_vc :: ValidationCache where
  "demo_vc = ValidationCache_new (\<lambda>_. 4) (replicate 32 1) 1024"



section \<open>What the result means\<close>

definition input_verifies ::
  "verify_ops \<Rightarrow> CTransaction \<Rightarrow> (COutPoint \<Rightarrow> CTxOut option) \<Rightarrow> script_flags \<Rightarrow> PrecomputedTransactionData \<Rightarrow> nat \<Rightarrow> ScriptError + unit" where
  "input_verifies ops tx coins flags d i = CScriptCheck ops (spent_by coins tx ! i) tx i flags d"

lemma check_input_None: 
  "m_spent_outputs d = spent_by coins tx \<Longrightarrow> check_input ops tx flags d i = None \<longleftrightarrow> input_verifies ops tx coins flags d i = Inr ()"
  by (auto simp: check_input_def input_verifies_def Let_def split: sum.split)

lemma check_input_Some:
  assumes "m_spent_outputs d = spent_by coins tx" "check_input ops tx flags d i = Some (r, e)"
  shows "input_verifies ops tx coins flags d i \<noteq> Inr () \<and> (r = TX_NOT_STANDARD \<and> input_verifies ops tx coins flags d i = Inl e \<and>
        input_verifies ops tx coins (flags AND NOT STANDARD_NOT_MANDATORY_VERIFY_FLAGS) d i = Inr () \<or>
      r = TX_CONSENSUS \<and> input_verifies ops tx coins (flags AND NOT STANDARD_NOT_MANDATORY_VERIFY_FLAGS) d i = Inl e)"
proof -
  have "flags AND NOT STANDARD_NOT_MANDATORY_VERIFY_FLAGS = flags" if "flags AND STANDARD_NOT_MANDATORY_VERIFY_FLAGS = 0"
    using that by (simp add: bit_eq_iff bit_simps) blast
  then show ?thesis
    using assms by (auto simp: check_input_def input_verifies_def Let_def split: sum.splits if_splits)
qed

lemma check_inputs_None:
  "m_spent_outputs d = spent_by coins tx \<Longrightarrow> check_inputs ops tx flags d [0..<length (tx_vin tx)] = None \<longleftrightarrow>
   (\<forall>i < length (tx_vin tx). input_verifies ops tx coins flags d i = Inr ())"
  by (auto simp: check_inputs_cases(1) check_input_None)

text \<open>
  C24.  How \<open>CheckInputScripts\<close> classifies a transaction, when its result is not in the
  cache.  It accepts exactly when every input verifies under the flags.  It reports
  \<open>TX_NOT_STANDARD\<close> only for an input that fails under the flags but verifies without
  the ones that are standard but not mandatory, and \<open>TX_CONSENSUS\<close> only for an input that
  fails even so, with the error of that run.
\<close>
theorem CheckInputScripts_classifies:
  assumes "coins_known coins tx" "\<not> IsCoinBase tx" "\<not> cached ops vc tx flags"
  shows "\<exists>d. PrecomputedTransactionData_Init (vo_hashes ops) tx (spent_by coins tx) False empty_precomputed = Inr d \<and>
    (case CheckInputScripts ops tx coins flags full empty_precomputed vc None of
      Inr (None, _) \<Rightarrow> \<forall>i < length (tx_vin tx). input_verifies ops tx coins flags d i = Inr ()
    | Inr (Some (r, e), _) \<Rightarrow> \<exists>i < length (tx_vin tx). input_verifies ops tx coins flags d i \<noteq> Inr () \<and>
        (r = TX_NOT_STANDARD \<and> input_verifies ops tx coins flags d i = Inl e \<and>
           input_verifies ops tx coins (flags AND NOT STANDARD_NOT_MANDATORY_VERIFY_FLAGS) d i = Inr () \<or>
         r = TX_CONSENSUS \<and>
           input_verifies ops tx coins (flags AND NOT STANDARD_NOT_MANDATORY_VERIFY_FLAGS) d i = Inl e)
    | Inl e \<Rightarrow> False)"
proof -
  obtain d c where d: "PrecomputedTransactionData_Init (vo_hashes ops) tx (spent_by coins tx) False empty_precomputed = Inr d"
      "m_spent_outputs d = spent_by coins tx"
    and eq: "\<exists>x. CheckInputScripts ops tx coins flags full empty_precomputed vc None = Inr (check_inputs ops tx flags d [0..<length (tx_vin tx)], x)"
    using CheckInputScripts_eq [OF assms, of full None] by (auto simp: Let_def)
  show ?thesis
  proof (cases "check_inputs ops tx flags d [0..<length (tx_vin tx)]")
    case None
    then have "\<forall>i < length (tx_vin tx). input_verifies ops tx coins flags d i = Inr ()"
      by (simp add: check_inputs_None [OF d(2)])
    then show ?thesis
      using d(1) eq by (auto simp: None)
  next
    case (Some re)
    then obtain i where i: "i < length (tx_vin tx)" "check_input ops tx flags d i = Some re"
      using check_inputs_cases(2) [OF Some] by auto
    obtain r e where re: "re = (r, e)"
      by fastforce
    obtain x where "CheckInputScripts ops tx coins flags full empty_precomputed vc None = Inr (Some (r, e), x)"
      using eq unfolding Some re by blast
    then show ?thesis
      using d(1) check_input_Some [OF d(2) i(2) [unfolded re]] i(1) by (intro exI [of _ d]) (simp; blast)
  qed
qed

lemma demo_not_cached: "\<not> cached demo_ops demo_vc demo_tx flags"
proof -
  have wf: "wf_cache (m_script_execution_cache demo_vc)"
    unfolding demo_vc_def ValidationCache_new_def setup_bytes_def by (simp add: wf_setup_cache)
  have "set (c_table (m_script_execution_cache demo_vc)) \<subseteq> {uint256_ZERO}"
    by (simp add: demo_vc_def ValidationCache_new_def setup_bytes_def setup_cache_def Let_def)
  moreover have "script_cache_entry demo_ops demo_vc demo_tx flags \<noteq> uint256_ZERO"
    by (simp add: script_cache_entry_def demo_ops_def padded_hashes_def demo_vc_def ValidationCache_new_def uint256_ZERO_def)
  ultimately show ?thesis
    using found_in_table [OF wf] by (auto simp: cached_def cache_contains_iff)
qed

theorem CheckInputScripts_classifies_witness:
  "coins_known (demo_coins [0x51]) demo_tx \<and> \<not> IsCoinBase demo_tx \<and> \<not> cached demo_ops demo_vc demo_tx STANDARD_SCRIPT_VERIFY_FLAGS \<and>
   (\<exists>d. PrecomputedTransactionData_Init (vo_hashes demo_ops) demo_tx (spent_by (demo_coins [0x51]) demo_tx) False empty_precomputed = Inr d)"
proof -
  have "\<not> IsCoinBase demo_tx"
    by (simp add: IsCoinBase_def demo_tx_def)
  then show ?thesis
    using CheckInputScripts_classifies [OF demo_coins_known _ demo_not_cached, where flags = STANDARD_SCRIPT_VERIFY_FLAGS and full = True]
      demo_coins_known demo_not_cached by blast
qed


section \<open>Checks in parallel\<close>

text \<open>
  C5.  Checking scripts in parallel gives the same verdict as checking them one after the other:
  if \<open>CheckInputScripts\<close> hands its checks to the queue and the queue is completed, in
  whatever way its threads interleave, then the queue reports no error exactly when
  \<open>CheckInputScripts\<close> without the queue accepts the transaction.
\<close>
theorem CheckInputScripts_parallel:
  assumes "coins_known coins tx"
    and "CheckInputScripts ops tx coins flags full empty_precomputed vc (Some []) = Inr (r, d, vc', Some checks)"
    and "cq_reach (run_ScriptCheck ops) b n checks q" "cq_step (run_ScriptCheck ops) n q (Completed result) q'"
  shows "r = None \<and>
    (result = None \<longleftrightarrow> (\<exists>x. CheckInputScripts ops tx coins flags full' empty_precomputed vc None = Inr (None, x)))"
proof -
  have result: "result = None \<longleftrightarrow> (\<forall>c \<in> set checks. run_ScriptCheck ops c = None)"
    using cq_inv_step [OF assms(4) cq_reach_inv [OF assms(3)]] by (cases result) (auto simp: result_ok_def)
  show ?thesis
  proof (cases "IsCoinBase tx \<or> cached ops vc tx flags")
    case True
    then show ?thesis
      using CheckInputScripts_skip [OF True, of coins full empty_precomputed "Some []"]
        CheckInputScripts_skip [OF True, of coins full' empty_precomputed None] assms(2) result by auto
  next
    case False
    then obtain d' where d: "PrecomputedTransactionData_Init (vo_hashes ops) tx (spent_by coins tx) False empty_precomputed = Inr d'"
        "m_spent_outputs d' = spent_by coins tx" and "r = None" "checks = pending_checks tx flags d'"
      using CheckInputScripts_eq [OF assms(1), of ops vc flags full "Some []"] assms(2) by (auto simp: Let_def)
    moreover have "\<exists>x. CheckInputScripts ops tx coins flags full' empty_precomputed vc None =
        Inr (check_inputs ops tx flags d' [0..<length (tx_vin tx)], x)"
      using CheckInputScripts_eq [OF assms(1), of ops vc flags full' None] False d(1) by (auto simp: Let_def)
    moreover have "(\<forall>c \<in> set (pending_checks tx flags d'). run_ScriptCheck ops c = None) \<longleftrightarrow>
        check_inputs ops tx flags d' [0..<length (tx_vin tx)] = None"
      unfolding check_inputs_None [OF d(2)]
      by (auto simp: pending_checks_def run_ScriptCheck_None input_verifies_def d(2))
    ultimately show ?thesis
      using result by auto
  qed
qed


theorem CheckInputScripts_parallel_witness:
  "\<exists>d vc checks q result q'.
     CheckInputScripts demo_ops demo_tx (demo_coins [0x51]) STANDARD_SCRIPT_VERIFY_FLAGS True empty_precomputed demo_vc (Some []) =
       Inr (None, d, vc, Some checks) \<and> length checks = 2 \<and>
     cq_reach (run_ScriptCheck demo_ops) 128 3 checks q \<and> cq_step (run_ScriptCheck demo_ops) 3 q (Completed result) q' \<and>
     (result = None \<longleftrightarrow> (\<exists>x. CheckInputScripts demo_ops demo_tx (demo_coins [0x51]) STANDARD_SCRIPT_VERIFY_FLAGS True
        empty_precomputed demo_vc None = Inr (None, x)))"
proof -
  have cb: "\<not> IsCoinBase demo_tx"
    by (simp add: IsCoinBase_def demo_tx_def)
  obtain d vc checks where c: "CheckInputScripts demo_ops demo_tx (demo_coins [0x51]) STANDARD_SCRIPT_VERIFY_FLAGS True empty_precomputed demo_vc (Some []) =
       Inr (None, d, vc, Some checks)" "length checks = 2"
    using CheckInputScripts_eq [OF demo_coins_known cb demo_not_cached, of "[0x51]" STANDARD_SCRIPT_VERIFY_FLAGS True "Some []"]
    by (auto simp: Let_def pending_checks_def demo_tx_def)
  obtain q result q' where q: "cq_reach (run_ScriptCheck demo_ops) 128 3 checks q" "cq_step (run_ScriptCheck demo_ops) 3 q (Completed result) q'"
    using cq_reach_added by blast
  show ?thesis
    using c q CheckInputScripts_parallel [OF demo_coins_known c(1) q, of True] by blast
qed


section \<open>The script execution cache\<close>

text \<open>
  Entries of the cache stand for transactions all of whose inputs verify; the coins view is one
  that never changes what an outpoint stands for.
\<close>

definition scripts_ok :: "verify_ops \<Rightarrow> (COutPoint \<Rightarrow> CTxOut option) \<Rightarrow> CTransaction \<times> script_flags \<Rightarrow> bool" where
  "scripts_ok ops coins k \<longleftrightarrow> (case k of (tx, flags) \<Rightarrow> tx_ok True tx \<and>
    (\<exists>d. PrecomputedTransactionData_Init (vo_hashes ops) tx (spent_by coins tx) False empty_precomputed = Inr d \<and>
      (\<forall>i < length (tx_vin tx). input_verifies ops tx coins flags d i = Inr ())))"

definition script_cache_ok :: "verify_ops \<Rightarrow> (COutPoint \<Rightarrow> CTxOut option) \<Rightarrow> ValidationCache \<Rightarrow> bool" where
  "script_cache_ok ops coins vc \<longleftrightarrow> wf_cache (m_script_execution_cache vc) \<and>
    set (c_table (m_script_execution_cache vc)) \<subseteq>
      {uint256_ZERO} \<union> (\<lambda>(tx, flags). script_cache_entry ops vc tx flags) ` {k. scripts_ok ops coins k}"

definition entry_unique :: "verify_ops \<Rightarrow> (COutPoint \<Rightarrow> CTxOut option) \<Rightarrow> ValidationCache \<Rightarrow> CTransaction \<Rightarrow> script_flags \<Rightarrow> bool" where
  "entry_unique ops coins vc tx flags \<longleftrightarrow> script_cache_entry ops vc tx flags \<noteq> uint256_ZERO \<and>
    (\<forall>tx' flags'. scripts_ok ops coins (tx', flags') \<and> script_cache_entry ops vc tx' flags' = script_cache_entry ops vc tx flags \<longrightarrow>
      tx' = tx \<and> flags' = flags)"

lemma script_cache_entry_vc [simp]: "script_cache_entry ops (vc\<lparr>m_script_execution_cache := c\<rparr>) = script_cache_entry ops vc"
  by (simp add: script_cache_entry_def fun_eq_iff)


definition injective_ops :: verify_ops where
  "injective_ops = demo_ops\<lparr>vo_hashes := \<lparr>SHA256 = (\<lambda>x. x), SHA1 = (\<lambda>x. x), RIPEMD160 = (\<lambda>x. x)\<rparr>\<rparr>"



section \<open>Policy and consensus\<close>

lemma block_flags_le_standard:
  assumes "exceptions h = None"
  shows "flags_le (GetBlockScriptFlags active exceptions h) STANDARD_SCRIPT_VERIFY_FLAGS"
  using assms by (simp add: flags_le_def GetBlockScriptFlags_def Let_def standard_flags)

lemma block_flags_quantum:
  assumes "exceptions h = None"
  shows "has_flag (GetBlockScriptFlags active exceptions h) SCRIPT_VERIFY_QUANTUM_SIGS = active DEPLOYMENT_QUANTUM_SIGS"
    "flags_consistent (GetBlockScriptFlags active exceptions h)"
  using assms by (simp_all add: flags_consistent_def GetBlockScriptFlags_def Let_def has_flag_def)

text \<open>
  C2.  What the mempool accepts is valid in a block: once quantum signatures are deployed, and
  for a block that is not one of the historical exceptions, a transaction whose inputs verify
  under the standard flags has inputs that verify under the flags of the block.  So the check of
  the mempool against the current block flags cannot fail.
\<close>
theorem policy_implies_consensus:
  assumes "active DEPLOYMENT_QUANTUM_SIGS" "exceptions block_hash = None"
    and "CScriptCheck ops out tx i STANDARD_SCRIPT_VERIFY_FLAGS txdata = Inr ()"
  shows "CScriptCheck ops out tx i (GetBlockScriptFlags active exceptions block_hash) txdata = Inr ()"
proof -
  let ?flags = "GetBlockScriptFlags active exceptions block_hash"
  note q = block_flags_quantum [of exceptions block_hash active, OF assms(2)]
  have "fork_of (script_check_env ops ?flags ck) (script_check_env ops STANDARD_SCRIPT_VERIFY_FLAGS ck)" for ck
    using block_flags_le_standard [of exceptions block_hash active, OF assms(2)] q(1) assms(1)
    by (simp add: fork_of_def script_check_env_def) (simp add: has_flag_def standard_flags)
  moreover have "flags_consistent (env_flags (script_check_env ops ?flags ck))" for ck
    using q(2) by (simp add: script_check_env_def)
  ultimately show ?thesis
    using VerifyScript_le assms(3) unfolding CScriptCheck_def Let_def res_le_def by blast
qed

theorem policy_implies_consensus_witness:
  "CScriptCheck demo_ops \<lparr>txout_nValue = 5000, txout_scriptPubKey = [0x51]\<rparr> demo_tx 0 (GetBlockScriptFlags (\<lambda>_. True) (\<lambda>_. None) []) empty_precomputed = Inr ()"
proof -
  have "CScriptCheck demo_ops \<lparr>txout_nValue = 5000, txout_scriptPubKey = [0x51]\<rparr> demo_tx 0 STANDARD_SCRIPT_VERIFY_FLAGS empty_precomputed = Inr ()"
    using standard_flags_consistent
    by (simp add: CScriptCheck_def Let_def demo_coins_def demo_tx_def VerifyScript_OP_TRUE script_check_env_def)
  from policy_implies_consensus [OF _ _ this, of "\<lambda>_. True" "\<lambda>_. None" "[]"] show ?thesis
    by simp
qed

end
