(* ===== verification/Sign.thy ===== *)
theory Sign
  imports Validation
begin

text \<open>
  Producing signatures (\<open>src/script/sign.h\<close>, \<open>sign.cpp\<close>): the signature creator of
  a transaction input, \<open>SignStep\<close> for one script and \<open>ProduceSignature\<close>, which
  checks what it made with \<open>VerifyScript\<close>.  A signing provider is a record of lookups.
  Two parts are arguments: the signing of Taproot outputs and the Miniscript satisfier.  Logging is
  left out.
\<close>

section \<open>Data\<close>

type_synonym CKeyID = valtype

record KeyOriginInfo =
  fingerprint :: valtype
  path :: "32 word list"

record SigningProvider =
  sp_GetCScript :: "valtype \<Rightarrow> CScript option"
  sp_GetPubKey :: "CKeyID \<Rightarrow> valtype option"
  sp_GetKey :: "CKeyID \<Rightarrow> (valtype \<times> bool) option"
  sp_GetQuantumKey :: "CKeyID \<Rightarrow> CQuantumKey option"
  sp_GetKeyOrigin :: "CKeyID \<Rightarrow> KeyOriginInfo option"

record SignatureData =
  sd_complete :: bool
  sd_witness :: bool
  sd_scriptSig :: CScript
  redeem_script :: CScript
  witness_script :: CScript
  sd_scriptWitness :: "valtype list"
  sd_signatures :: "CKeyID \<Rightarrow> (valtype \<times> valtype) option"
  misc_pubkeys :: "CKeyID \<Rightarrow> (valtype \<times> KeyOriginInfo) option"
  tap_pubkeys :: "CKeyID \<Rightarrow> valtype option"
  missing_pubkeys :: "CKeyID list"
  missing_sigs :: "CKeyID list"
  missing_redeem_script :: valtype
  missing_witness_script :: uint256

definition SignatureData_new :: SignatureData where
  "SignatureData_new = \<lparr>sd_complete = False, sd_witness = False, sd_scriptSig = [], redeem_script = [], witness_script = [],
    sd_scriptWitness = [], sd_signatures = (\<lambda>_. None), misc_pubkeys = (\<lambda>_. None), tap_pubkeys = (\<lambda>_. None),
    missing_pubkeys = [], missing_sigs = [], missing_redeem_script = replicate 20 0, missing_witness_script = uint256_ZERO\<rparr>"

text \<open>A creator makes a signature for a key, or does not, and has a checker for what it makes.\<close>

record SignatureCreator =
  sc_CreateSig :: "SigningProvider \<Rightarrow> CKeyID \<Rightarrow> CScript \<Rightarrow> SigVersion \<Rightarrow> ScriptError + valtype option"
  sc_Checker :: SignatureChecker

record Mutable_creator =
  mc_txto :: CTransaction
  mc_nIn :: nat
  mc_nHashType :: "32 word"
  mc_amount :: CAmount
  mc_txdata :: "PrecomputedTransactionData option"

definition creator_hashtype :: "Mutable_creator \<Rightarrow> 32 word" where
  "creator_hashtype mc = (if mc_nHashType mc = 0 then 1 else mc_nHashType mc)"

definition MAX_MONEY :: int where "MAX_MONEY = 2100000000000000"
definition MoneyRange :: "CAmount \<Rightarrow> bool" where "MoneyRange v = (sint v \<ge> 0 \<and> sint v \<le> MAX_MONEY)"


section \<open>The creator for a transaction input\<close>

definition scheme_of_key :: "CQuantumKey \<Rightarrow> byte" where
  "scheme_of_key qkey = (if m_type qkey = ML_DSA_65 then SCHEME_ML_DSA_65 else SCHEME_SLH_DSA_192F)"

definition Mutable_CreateSig ::
  "verify_ops \<Rightarrow> valtype \<Rightarrow> Mutable_creator \<Rightarrow> SigningProvider \<Rightarrow> CKeyID \<Rightarrow> CScript \<Rightarrow> SigVersion \<Rightarrow> ScriptError + valtype option" where
  "Mutable_CreateSig ops rnd mc provider address scriptCode sigversion =
    (if \<not> (sigversion = BASE \<or> sigversion = WITNESS_V0) then Inl ASSERT_FAIL
     else
       let hashtype = creator_hashtype mc;
           sighash = SignatureHash (vo_hashes ops) scriptCode (mc_txto mc) (mc_nIn mc) hashtype (mc_amount mc) sigversion (mc_txdata mc) in
       case sp_GetQuantumKey provider address of
         Some qkey \<Rightarrow>
           bindE sighash (\<lambda>hash.
             case key_Sign (vo_crypto ops) rnd qkey hash of
               None \<Rightarrow> Inr None
             | Some qsig \<Rightarrow>
                 if sigversion = WITNESS_V0 then Inr (Some ([scheme_of_key qkey] @ qsig @ [ucast hashtype]))
                 else Inr (Some (qs_Serialize \<lparr>scheme_id = scheme_of_key qkey, q_signature = qsig,
                                   q_pubkey = pk_data (key_GetPubKey (vo_crypto ops) qkey)\<rparr> @ [ucast hashtype])))
       | None \<Rightarrow>
           (case sp_GetKey provider address of
              None \<Rightarrow> Inr None
            | Some (key, compressed) \<Rightarrow>
                if sigversion = WITNESS_V0 \<and> \<not> compressed then Inr None
                else if sigversion = WITNESS_V0 \<and> \<not> MoneyRange (mc_amount mc) then Inr None
                else bindE sighash (\<lambda>hash.
                  case CKey_Sign (cr_ecdsa (vo_crypto ops)) key hash of
                    None \<Rightarrow> Inr None
                  | Some vchSig \<Rightarrow> Inr (Some (vchSig @ [ucast hashtype])))))"

definition MutableTransactionSignatureCreator :: "verify_ops \<Rightarrow> valtype \<Rightarrow> Mutable_creator \<Rightarrow> SignatureCreator" where
  "MutableTransactionSignatureCreator ops rnd mc =
    \<lparr>sc_CreateSig = Mutable_CreateSig ops rnd mc,
     sc_Checker = GenericTransactionSignatureChecker ops
       \<lparr>ck_txTo = mc_txto mc, ck_mdb = MDB_FAIL, ck_nIn = mc_nIn mc, ck_amount = mc_amount mc, ck_txdata = mc_txdata mc\<rparr>\<rparr>"


section \<open>Signing one script\<close>

definition GetCScript :: "Hashes \<Rightarrow> SigningProvider \<Rightarrow> SignatureData \<Rightarrow> valtype \<Rightarrow> CScript option" where
  "GetCScript hs provider sigdata scriptid = (case sp_GetCScript provider scriptid of
     Some script \<Rightarrow> Some script
   | None \<Rightarrow>
       if Hash160 hs (redeem_script sigdata) = scriptid then Some (redeem_script sigdata)
       else if Hash160 hs (witness_script sigdata) = scriptid then Some (witness_script sigdata)
       else None)"

definition GetPubKey :: "SigningProvider \<Rightarrow> SignatureData \<Rightarrow> CKeyID \<Rightarrow> valtype option" where
  "GetPubKey provider sigdata address = (case sd_signatures sigdata address of
     Some (pubkey, _) \<Rightarrow> Some pubkey
   | None \<Rightarrow> (case misc_pubkeys sigdata address of
       Some (pubkey, _) \<Rightarrow> Some pubkey
     | None \<Rightarrow> (case tap_pubkeys sigdata address of
         Some xonly \<Rightarrow> Some (0x02 # xonly)
       | None \<Rightarrow> sp_GetPubKey provider address)))"

text \<open>The signature if one is known or can be made, and the updated data.\<close>

definition CreateSig ::
  "Hashes \<Rightarrow> SignatureCreator \<Rightarrow> SigningProvider \<Rightarrow> SignatureData \<Rightarrow> valtype \<Rightarrow> CScript \<Rightarrow> SigVersion \<Rightarrow>
   ScriptError + valtype option \<times> SignatureData" where
  "CreateSig hs creator provider sigdata pubkey scriptcode sigversion =
    (let keyid = Hash160 hs pubkey in
     case sd_signatures sigdata keyid of
       Some (_, sig) \<Rightarrow> Inr (Some sig, sigdata)
     | None \<Rightarrow>
         let sigdata = (case sp_GetKeyOrigin provider keyid of
               Some info \<Rightarrow>
                 (if misc_pubkeys sigdata keyid = None
                  then sigdata\<lparr>misc_pubkeys := (misc_pubkeys sigdata)(keyid := Some (pubkey, info))\<rparr> else sigdata)
             | None \<Rightarrow> sigdata) in
         bindE (sc_CreateSig creator provider keyid scriptcode sigversion) (\<lambda>r. case r of
           Some sig \<Rightarrow> Inr (Some sig, sigdata\<lparr>sd_signatures := (sd_signatures sigdata)(keyid := Some (pubkey, sig))\<rparr>)
         | None \<Rightarrow> Inr (None, sigdata\<lparr>missing_sigs := missing_sigs sigdata @ [keyid]\<rparr>)))"

text \<open>
  The witness scripts of quantum keys, which no template matches: the key identifier and its owner
  are found from the first push.
\<close>

definition quantum_script_key :: "CScript \<Rightarrow> (byte \<times> valtype) option" where
  "quantum_script_key script = (case GetOp script of
     None \<Rightarrow> None
   | Some (_, vchData, pc) \<Rightarrow>
       let (algo_id, vchPubKey) =
         (if length vchData = 1 then (vchData ! 0, case GetOp pc of Some (_, v, _) \<Rightarrow> v | None \<Rightarrow> [])
          else if length vchData = 1952 then (SCHEME_ML_DSA_65, vchData)
          else if length vchData > 30000 then (SCHEME_SLH_DSA_192F, vchData)
          else (0, [])) in
       if algo_id \<noteq> 0 \<and> vchPubKey \<noteq> [] then Some (algo_id, vchPubKey) else None)"

definition sign_quantum_script ::
  "Hashes \<Rightarrow> SignatureCreator \<Rightarrow> SigningProvider \<Rightarrow> CScript \<Rightarrow> SigVersion \<Rightarrow> ScriptError + valtype list option" where
  "sign_quantum_script hs creator provider script sigversion =
    (if sigversion = WITNESS_V0 \<and> script \<noteq> [] \<and> unat (last script) = OP_CHECKSIG_EX then
       (case quantum_script_key script of
          None \<Rightarrow> Inr None
        | Some (algo_id, vchPubKey) \<Rightarrow>
            (case (if algo_id = SCHEME_ML_DSA_65 then Some ML_DSA_65
                   else if algo_id = SCHEME_SLH_DSA_192F then Some SLH_DSA_192F else None) of
               None \<Rightarrow> Inr None
             | Some keyType \<Rightarrow>
                 let qPubKey = \<lparr>pk_type = keyType, pk_data = vchPubKey\<rparr> in
                 if CQuantumPubKey_IsValid qPubKey
                 then bindE (sc_CreateSig creator provider (CQuantumPubKey_GetID hs qPubKey) script sigversion)
                   (\<lambda>r. case r of None \<Rightarrow> Inr None | Some sig \<Rightarrow> Inr (Some [sig]))
                 else Inr None))
     else Inr None)"

text \<open>The signatures of a multisig script: all that can be made, the first ones kept.\<close>

primrec sign_multisig ::
  "Hashes \<Rightarrow> SignatureCreator \<Rightarrow> SigningProvider \<Rightarrow> CScript \<Rightarrow> SigVersion \<Rightarrow> nat \<Rightarrow> valtype list \<Rightarrow> valtype list \<times> SignatureData \<Rightarrow>
   ScriptError + valtype list \<times> SignatureData" where
  "sign_multisig hs creator provider script sigversion required [] res = Inr res"
| "sign_multisig hs creator provider script sigversion required (key # keys) res =
    bindE (CreateSig hs creator provider (snd res) (CPubKey_Set key) script sigversion) (\<lambda>(sig, sigdata).
      sign_multisig hs creator provider script sigversion required keys
        (case sig of Some s \<Rightarrow> if length (fst res) < required + 1 then fst res @ [s] else fst res | None \<Rightarrow> fst res, sigdata))"

text \<open>Missing signatures are padded with empty ones; the bound of the loop counts each of them twice.\<close>

function pad_signatures :: "nat \<Rightarrow> nat \<Rightarrow> valtype list \<Rightarrow> valtype list" where
  "pad_signatures required i ret = (if i + length ret < required + 1 then pad_signatures required (i + 1) (ret @ [[]]) else ret)"
  by auto
termination
  by (relation "measure (\<lambda>(required, i, ret). required + 1 - (i + length ret))") auto

declare pad_signatures.simps [simp del]

text \<open>
  \<open>SignStep\<close>: whether the script is satisfied, the stack elements, the type of the script
  and the updated data.
\<close>

type_synonym sign_result = "bool \<times> valtype list \<times> TxoutType \<times> SignatureData"

definition SignStep ::
  "verify_ops \<Rightarrow> (valtype \<Rightarrow> SignatureData \<Rightarrow> valtype list option \<times> SignatureData) \<Rightarrow> SigningProvider \<Rightarrow> SignatureCreator \<Rightarrow>
   CScript \<Rightarrow> SigVersion \<Rightarrow> SignatureData \<Rightarrow> ScriptError + sign_result" where
  "SignStep ops SignTaproot provider creator scriptPubKey sigversion sigdata =
    (let hs = vo_hashes ops; (whichType, vSolutions) = Solver scriptPubKey in
     case whichType of
       NONSTANDARD \<Rightarrow>
         bindE (sign_quantum_script hs creator provider scriptPubKey sigversion) (\<lambda>r. case r of
           Some ret \<Rightarrow> Inr (True, ret, whichType, sigdata) | None \<Rightarrow> Inr (False, [], whichType, sigdata))
     | NULL_DATA \<Rightarrow> Inr (False, [], whichType, sigdata)
     | WITNESS_UNKNOWN \<Rightarrow> Inr (False, [], whichType, sigdata)
     | PUBKEY \<Rightarrow>
         bindE (CreateSig hs creator provider sigdata (CPubKey_Set (vSolutions ! 0)) scriptPubKey sigversion) (\<lambda>(sig, sigdata).
           case sig of None \<Rightarrow> Inr (False, [], whichType, sigdata) | Some s \<Rightarrow> Inr (True, [s], whichType, sigdata))
     | PUBKEYHASH \<Rightarrow>
         (case GetPubKey provider sigdata (vSolutions ! 0) of
            None \<Rightarrow> Inr (False, [], whichType, sigdata\<lparr>missing_pubkeys := missing_pubkeys sigdata @ [vSolutions ! 0]\<rparr>)
          | Some pubkey \<Rightarrow>
              bindE (CreateSig hs creator provider sigdata pubkey scriptPubKey sigversion) (\<lambda>(sig, sigdata).
                case sig of None \<Rightarrow> Inr (False, [], whichType, sigdata) | Some s \<Rightarrow> Inr (True, [s, pubkey], whichType, sigdata)))
     | SCRIPTHASH \<Rightarrow>
         (case GetCScript hs provider sigdata (vSolutions ! 0) of
            Some scriptRet \<Rightarrow> Inr (True, [scriptRet], whichType, sigdata)
          | None \<Rightarrow> Inr (False, [], whichType, sigdata\<lparr>missing_redeem_script := vSolutions ! 0\<rparr>))
     | MULTISIG \<Rightarrow>
         let required = unat (hd (hd vSolutions)) in
         bindE (sign_multisig hs creator provider scriptPubKey sigversion required (butlast (tl vSolutions)) ([[]], sigdata))
           (\<lambda>(ret, sigdata). Inr (length ret = required + 1, pad_signatures required 0 ret, whichType, sigdata))
     | WITNESS_V0_KEYHASH \<Rightarrow> Inr (True, [vSolutions ! 0], whichType, sigdata)
     | WITNESS_V0_SCRIPTHASH \<Rightarrow>
         (case GetCScript hs provider sigdata (RIPEMD160 hs (vSolutions ! 0)) of
            Some scriptRet \<Rightarrow> Inr (True, [scriptRet], whichType, sigdata)
          | None \<Rightarrow> Inr (False, [], whichType, sigdata\<lparr>missing_witness_script := vSolutions ! 0\<rparr>))
     | WITNESS_V1_TAPROOT \<Rightarrow>
         (case SignTaproot (vSolutions ! 0) sigdata of
            (Some ret, sigdata) \<Rightarrow> Inr (True, ret, whichType, sigdata)
          | (None, sigdata) \<Rightarrow> Inr (False, [], whichType, sigdata))
     | ANCHOR \<Rightarrow> Inr (True, [], whichType, sigdata))"

primrec PushAll :: "valtype list \<Rightarrow> CScript" where
  "PushAll [] = []"
| "PushAll (v # values) =
    (if length v = 0 then push_opcode OP_0
     else if length v = 1 \<and> v ! 0 \<ge> 1 \<and> v ! 0 \<le> 16 then push_opcode (EncodeOP_N (unat (v ! 0)))
     else if length v = 1 \<and> v ! 0 = 0x81 then push_opcode OP_1NEGATE
     else if length v > MAX_SCRIPT_ELEMENT_SIZE then push_opcode OP_0
     else push_data v) @ PushAll values"


section \<open>Signing an output\<close>

text \<open>
  The steps of \<open>ProduceSignature\<close>: the redeem script, the witness program, and the test
  of the solution.
\<close>

definition sign_redeem_script ::
  "verify_ops \<Rightarrow> (valtype \<Rightarrow> SignatureData \<Rightarrow> valtype list option \<times> SignatureData) \<Rightarrow> SigningProvider \<Rightarrow> SignatureCreator \<Rightarrow>
   sign_result \<Rightarrow> ScriptError + sign_result \<times> CScript option" where
  "sign_redeem_script ops SignTaproot provider creator res = (case res of (solved, result, whichType, sigdata) \<Rightarrow>
     if solved \<and> whichType = SCRIPTHASH then
       let subscript = result ! 0; sigdata = sigdata\<lparr>redeem_script := subscript\<rparr> in
       bindE (SignStep ops SignTaproot provider creator subscript BASE sigdata) (\<lambda>(solved, result, whichType, sigdata).
         Inr ((solved \<and> whichType \<noteq> SCRIPTHASH, result, whichType, sigdata), Some subscript))
     else Inr (res, None))"

definition sign_witness ::
  "verify_ops \<Rightarrow> (valtype \<Rightarrow> SignatureData \<Rightarrow> valtype list option \<times> SignatureData) \<Rightarrow>
   (CScript \<Rightarrow> SignatureData \<Rightarrow> bool \<times> valtype list \<times> SignatureData) \<Rightarrow> SigningProvider \<Rightarrow> SignatureCreator \<Rightarrow>
   bool \<Rightarrow> sign_result \<Rightarrow> ScriptError + bool \<times> valtype list \<times> SignatureData" where
  "sign_witness ops SignTaproot ms_satisfy provider creator P2SH res = (case res of (solved, result, whichType, sigdata) \<Rightarrow>
     if solved \<and> whichType = WITNESS_V0_KEYHASH then
       let witnessscript = push_opcode OP_DUP @ push_opcode OP_HASH160 @ push_data (result ! 0) @
             push_opcode OP_EQUALVERIFY @ push_opcode OP_CHECKSIG in
       bindE (SignStep ops SignTaproot provider creator witnessscript WITNESS_V0 sigdata) (\<lambda>(solved, result, _, sigdata).
         Inr (solved, [], sigdata\<lparr>sd_scriptWitness := result, sd_witness := True\<rparr>))
     else if solved \<and> whichType = WITNESS_V0_SCRIPTHASH then
       let witnessscript = result ! 0; sigdata = sigdata\<lparr>witness_script := witnessscript\<rparr> in
       bindE (SignStep ops SignTaproot provider creator witnessscript WITNESS_V0 sigdata) (\<lambda>(solved, result, subType, sigdata).
         let solved = (solved \<and> subType \<noteq> SCRIPTHASH \<and> subType \<noteq> WITNESS_V0_SCRIPTHASH \<and> subType \<noteq> WITNESS_V0_KEYHASH);
             (solved, result, sigdata) =
               (if \<not> solved \<and> result = [] then ms_satisfy witnessscript sigdata else (solved, result, sigdata)) in
         Inr (solved, [], sigdata\<lparr>sd_scriptWitness := result @ [witnessscript], sd_witness := True\<rparr>))
     else if whichType = WITNESS_V1_TAPROOT \<and> \<not> P2SH then
       Inr (solved, [], sigdata\<lparr>sd_witness := True,
         sd_scriptWitness := (if solved then result else sd_scriptWitness sigdata)\<rparr>)
     else if solved \<and> whichType = WITNESS_UNKNOWN then Inr (solved, result, sigdata\<lparr>sd_witness := True\<rparr>)
     else Inr (solved, result, sigdata))"

definition ProduceSignature ::
  "verify_ops \<Rightarrow> (valtype \<Rightarrow> SignatureData \<Rightarrow> valtype list option \<times> SignatureData) \<Rightarrow>
   (CScript \<Rightarrow> SignatureData \<Rightarrow> bool \<times> valtype list \<times> SignatureData) \<Rightarrow> SigningProvider \<Rightarrow> SignatureCreator \<Rightarrow>
   CScript \<Rightarrow> SignatureData \<Rightarrow> ScriptError + bool \<times> SignatureData" where
  "ProduceSignature ops SignTaproot ms_satisfy provider creator fromPubKey sigdata =
    (if sd_complete sigdata then Inr (True, sigdata)
     else
       bindE (SignStep ops SignTaproot provider creator fromPubKey BASE sigdata) (\<lambda>res.
       bindE (sign_redeem_script ops SignTaproot provider creator res) (\<lambda>(res, subscript).
       bindE (sign_witness ops SignTaproot ms_satisfy provider creator (subscript \<noteq> None) res) (\<lambda>(solved, result, sigdata).
         let sigdata = (if \<not> sd_witness sigdata then sigdata\<lparr>sd_scriptWitness := []\<rparr> else sigdata);
             result = (case subscript of Some s \<Rightarrow> result @ [s] | None \<Rightarrow> result);
             sigdata = sigdata\<lparr>sd_scriptSig := PushAll result\<rparr> in
         if solved then
           let env = \<lparr>env_flags = STANDARD_SCRIPT_VERIFY_FLAGS, env_checker = sc_Checker creator, env_sigversion = BASE,
                      env_hashes = vo_hashes ops, env_CheckLowS = vo_CheckLowS ops\<rparr>;
               verify_result = VerifyScript (CheckTapTweak (vo_xonly ops)) env (sd_scriptSig sigdata) fromPubKey (sd_scriptWitness sigdata) in
           if verify_result = Inl ASSERT_FAIL then Inl ASSERT_FAIL
           else Inr (verify_result = Inr (), sigdata\<lparr>sd_complete := (verify_result = Inr ())\<rparr>)
         else Inr (False, sigdata\<lparr>sd_complete := False\<rparr>)))))"

end
