(* ===== verification/QuantumSpend.thy ===== *)
theory QuantumSpend
  imports Sign
begin

text \<open>
  Spending outputs of quantum keys: what the wallet's signing code and the script verification do
  together, for the witness scripts of \<open>src/script/quantum_witness.cpp\<close> and the ones of the
  descriptors of \<open>src/script/descriptor.cpp\<close>.
\<close>

section \<open>Pay-to-witness-script-hash\<close>

lemma eval_base_P2WSH:
  assumes "length h = 32"
  shows "eval_base env [] (push_opcode OP_0 @ push_data h) = Inr [h, []]"
proof -
  let ?env = "env\<lparr>env_sigversion := BASE\<rparr>"
  have S: "push_opcode OP_0 @ push_data h = concat (map push_data [[], h])"
    by (simp add: push_opcode_def push_data_short)
  have ok: "list_all (push_size_ok ?env) [[], h]" "list_all minimal_push [[], h]"
    using assms by (simp_all add: push_size_ok_def minimal_push_def)
  have "length (concat (map push_data [[], h])) \<le> MAX_SCRIPT_SIZE"
    using assms by (simp add: push_data_short)
  then show ?thesis
    unfolding S eval_base_def EvalScript_stack_def
    using ok EvalScript_loop_pushes [of "init_state [] (concat (map push_data [[], h])) empty_execdata" ?env "[[], h]" "[]"]
    by (simp add: EvalScript_small init_state_def)
qed

lemma P2WSH_program:
  assumes "length h = 32"
  shows "IsWitnessProgram (push_opcode OP_0 @ push_data h) = Some (0, h)" "\<not> IsPayToScriptHash (push_opcode OP_0 @ push_data h)"
  using assms by (simp_all add: IsWitnessProgram_def IsPayToScriptHash_def push_opcode_def push_data_short DecodeOP_N_def)

lemma VerifyScript_P2WSH:
  assumes "flags_consistent (env_flags env)" "has_flag (env_flags env) SCRIPT_VERIFY_WITNESS" "hash_sizes (env_hashes env)"
    and "h = SHA256 (env_hashes env) script"
  shows "VerifyScript tweak env scriptSig (push_opcode OP_0 @ push_data h) (stack @ [script]) = Inr () \<longleftrightarrow>
    scriptSig = [] \<and> CastToBool h \<and> ExecuteWitnessScript (env\<lparr>env_sigversion := WITNESS_V0\<rparr>) stack script empty_execdata = Inr ()"
proof -
  have len: "length h = 32"
    using assms(3,4) by (simp add: hash_sizes_def)
  show ?thesis
  proof (cases "scriptSig = []")
    case True
    then show ?thesis
      using assms eval_base_P2WSH [OF len, of env] P2WSH_program [OF len] len
      by (auto simp: VerifyScript_def eval_base_OP_TRUE stack_true_def verify_bare_witness_def verify_p2sh_def verify_final_def
          VerifyWitnessProgram_def Let_def IsPushOnly.simps flags_consistent_def bindE_eq_Inr)
  next
    case False
    then show ?thesis
      using assms(2) P2WSH_program [OF len]
      by (auto simp: VerifyScript_def verify_bare_witness_def bindE_eq_Inr)
  qed
qed


section \<open>The witness script of a quantum key\<close>

lemma quantum_script_bytes:
  "length (pk_data pk) = 48 \<Longrightarrow> CreateQuantumWitnessScript pk = [48] @ pk_data pk @ [179]"
  "length (pk_data pk) = 1952 \<Longrightarrow> CreateQuantumWitnessScript pk = [0x4d, 0xa0, 0x07] @ pk_data pk @ [179]"
proof -
  have "le_bytes 2 1952 = [0xa0, 0x07]"
    by code_simp
  then show "length (pk_data pk) = 1952 \<Longrightarrow> CreateQuantumWitnessScript pk = [0x4d, 0xa0, 0x07] @ pk_data pk @ [179]"
    by (simp add: CreateQuantumWitnessScript_def push_data_def AppendDataSize_def push_opcode_def)
qed (simp add: CreateQuantumWitnessScript_def push_data_def AppendDataSize_def push_opcode_def)

lemma Solver_quantum_script:
  assumes "length (pk_data pk) = 1952 \<or> length (pk_data pk) = 48"
  shows "Solver (CreateQuantumWitnessScript pk) = (NONSTANDARD, [])"
proof -
  define script where "script = CreateQuantumWitnessScript pk"
  have l: "length script = 1956 \<or> length script = 50" and last: "unat (last script) = 179"
    using assms unfolding script_def by (auto simp: quantum_script_bytes)
  have first: "unat (script ! 0) \<noteq> OP_RETURN"
    using assms unfolding script_def by (auto simp: quantum_script_bytes)
  have "IsPayToScriptHash script = False" "IsWitnessProgram script = None" "MatchPayToPubkey script = None"
    "MatchPayToPubkeyHash script = None" "MatchMultisig script = None"
    using l last by (auto simp: IsPayToScriptHash_def IsWitnessProgram_def MatchPayToPubkey_def MatchPayToPubkeyHash_def MatchMultisig_def)
  then show ?thesis
    using first unfolding script_def [symmetric] Solver_def by simp
qed

lemma quantum_key_of_script:
  assumes "length (pk_data pk) = 1952 \<or> length (pk_data pk) = 48"
  shows "quantum_script_key (CreateQuantumWitnessScript pk) =
    (if length (pk_data pk) = 1952 then Some (SCHEME_ML_DSA_65, pk_data pk) else None)"
  using assms GetOp_witness_script [of pk "[]"] by (auto simp: quantum_script_key_def Let_def)

lemma SignStep_quantum:
  assumes "length (pk_data pk) = 1952 \<or> length (pk_data pk) = 48"
  shows "SignStep ops SignTaproot provider creator (CreateQuantumWitnessScript pk) WITNESS_V0 sigdata =
    (if length (pk_data pk) = 48 then Inr (False, [], NONSTANDARD, sigdata)
     else bindE (sc_CreateSig creator provider (CQuantumPubKey_GetID (vo_hashes ops) \<lparr>pk_type = ML_DSA_65, pk_data = pk_data pk\<rparr>)
         (CreateQuantumWitnessScript pk) WITNESS_V0)
       (\<lambda>r. case r of None \<Rightarrow> Inr (False, [], NONSTANDARD, sigdata) | Some sig \<Rightarrow> Inr (True, [sig], NONSTANDARD, sigdata)))"
proof -
  have "CreateQuantumWitnessScript pk \<noteq> []" "unat (last (CreateQuantumWitnessScript pk)) = OP_CHECKSIG_EX"
    using assms by (auto simp: quantum_script_bytes)
  moreover have "CQuantumPubKey_IsValid \<lparr>pk_type = ML_DSA_65, pk_data = pk_data pk\<rparr>" if "length (pk_data pk) = 1952"
    using that by (simp add: CQuantumPubKey_IsValid_def)
  ultimately have "sign_quantum_script (vo_hashes ops) creator provider (CreateQuantumWitnessScript pk) WITNESS_V0 =
    (if length (pk_data pk) = 48 then Inr None
     else bindE (sc_CreateSig creator provider (CQuantumPubKey_GetID (vo_hashes ops) \<lparr>pk_type = ML_DSA_65, pk_data = pk_data pk\<rparr>)
         (CreateQuantumWitnessScript pk) WITNESS_V0)
       (\<lambda>r. case r of None \<Rightarrow> Inr None | Some sig \<Rightarrow> Inr (Some [sig])))"
    using assms by (auto simp: sign_quantum_script_def quantum_key_of_script)
  then show ?thesis
    unfolding SignStep_def Solver_quantum_script [OF assms] Let_def
    by (cases "sc_CreateSig creator provider (CQuantumPubKey_GetID (vo_hashes ops) \<lparr>pk_type = ML_DSA_65, pk_data = pk_data pk\<rparr>)
         (CreateQuantumWitnessScript pk) WITNESS_V0") (simp_all split: option.split)
qed

lemma SignStep_P2WSH:
  assumes "length h = 32"
  shows "SignStep ops SignTaproot provider creator (push_opcode OP_0 @ push_data h) BASE sigdata =
    (case GetCScript (vo_hashes ops) provider sigdata (RIPEMD160 (vo_hashes ops) h) of
       Some script \<Rightarrow> Inr (True, [script], WITNESS_V0_SCRIPTHASH, sigdata)
     | None \<Rightarrow> Inr (False, [], WITNESS_V0_SCRIPTHASH, sigdata\<lparr>missing_witness_script := h\<rparr>))"
proof -
  have "Solver (push_opcode OP_0 @ push_data h) = (WITNESS_V0_SCRIPTHASH, [h])"
    using assms Solver_witness [of 0 h] by (simp add: EncodeOP_N_def)
  then show ?thesis
    by (simp add: SignStep_def Let_def split: option.split)
qed


text \<open>The check of a signature that the creator made.\<close>

lemma quantum_signature_checks:
  assumes "key_Verify (vo_crypto ops) sighash sig \<lparr>pk_type = ML_DSA_65, pk_data = pk\<rparr>" "length pk = 1952"
    and "SignatureHash (vo_hashes ops) code (ck_txTo ck) (ck_nIn ck) hashtype (ck_amount ck) v (ck_txdata ck) = Inr sighash"
    and "hashtype < 256" "sint (ck_amount ck) \<ge> 0" "env_checker env = GenericTransactionSignatureChecker ops ck" "env_sigversion env = v"
  shows "EvalChecksigQuantum ([SCHEME_ML_DSA_65] @ sig @ [ucast hashtype]) pk code env = Inr True"
proof -
  have "ucast (ucast hashtype :: byte) = hashtype"
    using assms(4) by (simp add: word_unat_eq_iff word_less_nat_alt unsigned_ucast_eq take_bit_eq_mod unat_mod)
  then show ?thesis
    using assms
    by (simp add: EvalChecksigQuantum_def GenericTransactionSignatureChecker_def Generic_CheckQuantumSignature_def missing_amount_def
        ck_SignatureHash_def CQuantumPubKey_IsValid_def Let_def)
qed

lemma ExecuteWitnessScript_quantum:
  assumes "has_flag (env_flags env) SCRIPT_VERIFY_QUANTUM_SIGS" "length (pk_data pk) = 1952" "env_sigversion env = WITNESS_V0"
    and "EvalChecksigQuantum sig (pk_data pk) (CreateQuantumWitnessScript pk) env = Inr True" "3310 \<le> length sig" "length sig \<le> 3320"
  shows "ExecuteWitnessScript env [sig] (CreateQuantumWitnessScript pk) ed = Inr ()"
proof -
  have "push_size_ok env (pk_data pk)"
    using assms(1,2) by (simp add: push_size_ok_def quantum_push_allowed_def)
  then have "EvalScript env [sig] (CreateQuantumWitnessScript pk) ed = Inr ([bool_vch True], ed\<lparr>m_codeseparator_pos := Some 0xffffffff\<rparr>)"
    using assms EvalScript_quantum_witness_script [of env pk "[]" sig ed] by simp
  then show ?thesis
    using assms by (simp add: ExecuteWitnessScript_def witness_element_ok_def Let_def bool_vch_def vchTrue_def)
qed


section \<open>The wallet signs for ML-DSA keys\<close>

lemma sign_P2WSH:
  assumes "hash_sizes (vo_hashes ops)" "h = SHA256 (vo_hashes ops) script"
    and "sp_GetCScript provider (RIPEMD160 (vo_hashes ops) h) = Some script" "\<not> sd_complete sigdata"
    and "SignStep ops SignTaproot provider creator script WITNESS_V0 (sigdata\<lparr>witness_script := script\<rparr>) = Inr (True, ret, NONSTANDARD, sigdata')"
    and "VerifyScript (CheckTapTweak (vo_xonly ops)) \<lparr>env_flags = STANDARD_SCRIPT_VERIFY_FLAGS, env_checker = sc_Checker creator,
      env_sigversion = BASE, env_hashes = vo_hashes ops, env_CheckLowS = vo_CheckLowS ops\<rparr> [] (push_opcode OP_0 @ push_data h) (ret @ [script]) = Inr ()"
  shows "ProduceSignature ops SignTaproot ms_satisfy provider creator (push_opcode OP_0 @ push_data h) sigdata =
    Inr (True, sigdata'\<lparr>sd_scriptWitness := ret @ [script], sd_witness := True, sd_scriptSig := [], sd_complete := True\<rparr>)"
proof -
  have len: "length h = 32"
    using assms(1,2) by (simp add: hash_sizes_def)
  have step: "SignStep ops SignTaproot provider creator (push_opcode OP_0 @ push_data h) BASE sigdata = Inr (True, [script], WITNESS_V0_SCRIPTHASH, sigdata)"
    unfolding SignStep_P2WSH [OF len] using assms(3) by (simp add: GetCScript_def)
  show ?thesis
    using assms(4-6) unfolding ProduceSignature_def step
    by (simp add: sign_redeem_script_def sign_witness_def Let_def)
qed

text \<open>
  C9.  A wallet can spend what is paid to its ML-DSA key: if the provider knows the key, made by
  \<open>MakeNewKey\<close>, and its witness script, and liboqs makes the signature of full size for the
  signature hash, then \<open>ProduceSignature\<close> for the output of \<open>CreateQuantumP2WSH\<close>
  returns a complete result: an empty signature script and the witness of signature, tagged with
  the algorithm and the hash type, and witness script, which \<open>VerifyScript\<close> accepts under
  the standard flags.
\<close>
theorem quantum_P2WSH_signed:
  assumes lib: "liboqs_correct (cr_oqs (vo_crypto ops))" "hash_sizes (vo_hashes ops)"
    and key: "OQS_SIG_keypair (alg_of (vo_crypto ops) ML_DSA_65) rnd = Some (pk, sk)" "key = MakeNewKey (vo_crypto ops) rnd ML_DSA_65 empty_key"
      "pub = key_GetPubKey (vo_crypto ops) key"
    and script: "script = CreateQuantumWitnessScript pub" "CastToBool (SHA256 (vo_hashes ops) script)"
    and provider: "sp_GetQuantumKey provider (CQuantumPubKey_GetID (vo_hashes ops) pub) = Some key"
      "sp_GetCScript provider (RIPEMD160 (vo_hashes ops) (SHA256 (vo_hashes ops) script)) = Some script"
    and input: "sint (mc_amount mc) \<ge> 0" "creator_hashtype mc < 256"
      "SignatureHash (vo_hashes ops) script (mc_txto mc) (mc_nIn mc) (creator_hashtype mc) (mc_amount mc) WITNESS_V0 (mc_txdata mc) = Inr sighash"
    and sig: "key_Sign (vo_crypto ops) rnd' key sighash = Some sig" "length sig = ML_DSA_65_SIG_SIZE"
    and fresh: "\<not> sd_complete sigdata"
  shows "\<exists>sigdata'. ProduceSignature ops SignTaproot ms_satisfy provider (MutableTransactionSignatureCreator ops rnd' mc)
      (CreateQuantumP2WSH (vo_hashes ops) pub) sigdata = Inr (True, sigdata') \<and>
    sd_complete sigdata' \<and> sd_scriptSig sigdata' = [] \<and>
    sd_scriptWitness sigdata' = [[SCHEME_ML_DSA_65] @ sig @ [ucast (creator_hashtype mc)], script]"
proof -
  let ?hs = "vo_hashes ops" and ?sig = "[SCHEME_ML_DSA_65] @ sig @ [ucast (creator_hashtype mc)]"
  let ?creator = "MutableTransactionSignatureCreator ops rnd' mc"
  let ?env = "\<lparr>env_flags = STANDARD_SCRIPT_VERIFY_FLAGS, env_checker = sc_Checker ?creator, env_sigversion = BASE,
    env_hashes = ?hs, env_CheckLowS = vo_CheckLowS ops\<rparr>"
  have t: "quantum_type ML_DSA_65"
    by (simp add: quantum_type_def)
  note new = new_key_signs [OF lib(1) t key(1) sig(1) [unfolded key(2)]]
  have pub: "pub = \<lparr>pk_type = ML_DSA_65, pk_data = pk\<rparr>" "length pk = 1952"
    using new key(2,3) by (auto simp: CQuantumPubKey_IsValid_def)
  have ver: "key_Verify (vo_crypto ops) sighash sig \<lparr>pk_type = ML_DSA_65, pk_data = pk\<rparr>"
    using new by metis
  have type: "m_type key = ML_DSA_65"
    using MakeNewKey_quantum [OF t key(1), of empty_key] key(2) by simp
  have step: "SignStep ops SignTaproot provider ?creator script WITNESS_V0 sd = Inr (True, [?sig], NONSTANDARD, sd)" for sd
    using SignStep_quantum [of pub ops SignTaproot provider ?creator sd] pub provider(1) input(3) sig(1) type
    by (simp add: script(1) MutableTransactionSignatureCreator_def Mutable_CreateSig_def Let_def scheme_of_key_def)
  have "EvalChecksigQuantum ?sig pk script (?env\<lparr>env_sigversion := WITNESS_V0\<rparr>) = Inr True"
    using ver pub input
    by (intro quantum_signature_checks [where sighash = sighash and ops = ops and v = WITNESS_V0 and
        ck = "\<lparr>ck_txTo = mc_txto mc, ck_mdb = MDB_FAIL, ck_nIn = mc_nIn mc, ck_amount = mc_amount mc, ck_txdata = mc_txdata mc\<rparr>"])
      (simp_all add: MutableTransactionSignatureCreator_def)
  then have "ExecuteWitnessScript (?env\<lparr>env_sigversion := WITNESS_V0\<rparr>) [?sig] script empty_execdata = Inr ()"
    using pub sig(2) unfolding script(1)
    by (intro ExecuteWitnessScript_quantum) (simp_all, simp add: has_flag_def standard_flags)
  then have "VerifyScript (CheckTapTweak (vo_xonly ops)) ?env [] (push_opcode OP_0 @ push_data (SHA256 ?hs script)) ([?sig] @ [script]) = Inr ()"
    using VerifyScript_P2WSH [of ?env "SHA256 ?hs script" script "CheckTapTweak (vo_xonly ops)" "[]" "[?sig]"] standard_flags_consistent lib(2) script(2)
    by (simp add: has_flag_def standard_flags)
  from sign_P2WSH [OF lib(2) refl provider(2) fresh step this, of ms_satisfy]
  show ?thesis
    by (simp add: CreateQuantumP2WSH_def script(1) Let_def)
qed

definition spend_demo :: Mutable_creator where
  "spend_demo = \<lparr>mc_txto = demo_tx, mc_nIn = 0, mc_nHashType = 1, mc_amount = 5000, mc_txdata = None\<rparr>"

definition spend_demo_key :: CQuantumKey where
  "spend_demo_key = MakeNewKey demo_crypto [] ML_DSA_65 empty_key"

definition spend_demo_provider :: SigningProvider where
  "spend_demo_provider = \<lparr>sp_GetCScript = (\<lambda>_. Some (CreateQuantumWitnessScript (key_GetPubKey demo_crypto spend_demo_key))),
    sp_GetPubKey = (\<lambda>_. None), sp_GetKey = (\<lambda>_. None), sp_GetQuantumKey = (\<lambda>_. Some spend_demo_key), sp_GetKeyOrigin = (\<lambda>_. None)\<rparr>"

theorem quantum_P2WSH_signed_witness:
  "\<exists>sigdata'. ProduceSignature demo_ops (\<lambda>_ sd. (None, sd)) (\<lambda>_ sd. (False, [], sd)) spend_demo_provider
      (MutableTransactionSignatureCreator demo_ops [] spend_demo)
      (CreateQuantumP2WSH (vo_hashes demo_ops) (key_GetPubKey demo_crypto spend_demo_key)) SignatureData_new = Inr (True, sigdata') \<and>
    sd_complete sigdata' \<and> sd_scriptSig sigdata' = [] \<and>
    sd_scriptWitness sigdata' = [[2] @ replicate 3309 5 @ [1], CreateQuantumWitnessScript (key_GetPubKey demo_crypto spend_demo_key)]"
proof -
  let ?pub = "key_GetPubKey demo_crypto spend_demo_key"
  have t: "quantum_type ML_DSA_65"
    by (simp add: quantum_type_def)
  have ops: "vo_crypto demo_ops = demo_crypto" "vo_hashes demo_ops = padded_hashes"
    by (simp_all add: demo_ops_def)
  have gen: "OQS_SIG_keypair (alg_of demo_crypto ML_DSA_65) [] = Some (replicate 1952 7, replicate 4032 9)"
    by (simp add: alg_of_def demo_crypto_def demo_alg_def)
  have sign: "key_Sign demo_crypto [] spend_demo_key h = Some (replicate 3309 5)" for h
    unfolding spend_demo_key_def MakeNewKey_quantum [OF t gen]
    by (simp add: key_Sign_def OQS_Sign_def alg_of_def demo_crypto_def demo_alg_def)
  have pub: "pk_data ?pub = replicate 1952 7"
    using new_key_signs [OF demo_crypto_correct t gen sign [unfolded spend_demo_key_def]] by (simp add: spend_demo_key_def)
  have cast: "CastToBool (SHA256 padded_hashes (CreateQuantumWitnessScript ?pub))"
  proof -
    have "CastToBool (take 32 (0x4d # v))" for v
      by (simp add: take_Cons')
    moreover obtain v where "CreateQuantumWitnessScript ?pub = 0x4d # v"
      using quantum_script_bytes(2) [of ?pub] pub by auto
    ultimately show ?thesis
      by (simp add: padded_hashes_def)
  qed
  have ht: "creator_hashtype spend_demo = 1"
    by (simp add: creator_hashtype_def spend_demo_def)
  obtain sighash where sighash: "SignatureHash padded_hashes (CreateQuantumWitnessScript ?pub) (mc_txto spend_demo) (mc_nIn spend_demo)
    (creator_hashtype spend_demo) (mc_amount spend_demo) WITNESS_V0 (mc_txdata spend_demo) = Inr sighash"
    by (simp add: SignatureHash_def spend_demo_def demo_tx_def ht)
  show ?thesis
    using quantum_P2WSH_signed [of demo_ops "[]" "replicate 1952 7" "replicate 4032 9" spend_demo_key ?pub "CreateQuantumWitnessScript ?pub"
        spend_demo_provider spend_demo sighash "[]" "replicate 3309 5" SignatureData_new]
      demo_crypto_correct demo_ops_hash_sizes gen sign cast sighash ht
    by (simp add: ops spend_demo_key_def [symmetric] spend_demo_provider_def spend_demo_def SignatureData_new_def)
qed


section \<open>The wallet does not sign for SLH-DSA keys\<close>

text \<open>
  C11.  For a key of SLH-DSA, whose public keys have 48 bytes, \<open>ProduceSignature\<close> never
  completes, whatever keys and signature creator it is given: \<open>SignStep\<close> expects more than
  30000 bytes.  Assumed: a script known for the hash is the witness script itself, and it is not a
  Miniscript.
\<close>
theorem quantum_SLH_not_signed:
  assumes "hash_sizes (vo_hashes ops)" "CQuantumPubKey_IsValid pub" "pk_type pub = SLH_DSA_192F"
    and "script = CreateQuantumWitnessScript pub"
    and known: "\<And>s. GetCScript (vo_hashes ops) provider sigdata (RIPEMD160 (vo_hashes ops) (SHA256 (vo_hashes ops) script)) = Some s \<Longrightarrow> s = script"
    and miniscript: "\<And>sd. \<exists>stack sd'. ms_satisfy script sd = (False, stack, sd')"
    and fresh: "\<not> sd_complete sigdata"
  shows "\<exists>sigdata'. ProduceSignature ops SignTaproot ms_satisfy provider creator (CreateQuantumP2WSH (vo_hashes ops) pub) sigdata =
      Inr (False, sigdata') \<and> \<not> sd_complete sigdata'"
proof -
  let ?hs = "vo_hashes ops" let ?h = "SHA256 ?hs script"
  have len: "length ?h = 32" "length (pk_data pub) = 48"
    using assms(1-3) by (simp_all add: hash_sizes_def CQuantumPubKey_IsValid_def)
  have spk: "CreateQuantumP2WSH ?hs pub = push_opcode OP_0 @ push_data ?h"
    by (simp add: CreateQuantumP2WSH_def assms(4) Let_def)
  have step: "SignStep ops SignTaproot provider creator script WITNESS_V0 sd = Inr (False, [], NONSTANDARD, sd)" for sd
    unfolding assms(4) using len(2) by (simp add: SignStep_quantum)
  show ?thesis
  proof (cases "GetCScript ?hs provider sigdata (RIPEMD160 ?hs ?h)")
    case None
    then show ?thesis
      unfolding spk ProduceSignature_def SignStep_P2WSH [OF len(1)]
      using fresh by (simp add: sign_redeem_script_def sign_witness_def Let_def)
  next
    case (Some s)
    then have s: "GetCScript ?hs provider sigdata (RIPEMD160 ?hs ?h) = Some script"
      using known by simp
    obtain stack sd' where "ms_satisfy script (sigdata\<lparr>witness_script := script\<rparr>) = (False, stack, sd')"
      using miniscript by blast
    then show ?thesis
      unfolding spk ProduceSignature_def SignStep_P2WSH [OF len(1)] s
      using fresh by (simp add: sign_redeem_script_def sign_witness_def step Let_def)
  qed
qed

theorem quantum_SLH_not_signed_witness:
  "CQuantumPubKey_IsValid \<lparr>pk_type = SLH_DSA_192F, pk_data = replicate 48 7\<rparr> \<and>
   (\<exists>sigdata'. ProduceSignature demo_ops (\<lambda>_ sd. (None, sd)) (\<lambda>_ sd. (False, [], sd))
      (spend_demo_provider\<lparr>sp_GetCScript := (\<lambda>_. Some (CreateQuantumWitnessScript \<lparr>pk_type = SLH_DSA_192F, pk_data = replicate 48 7\<rparr>))\<rparr>)
      (MutableTransactionSignatureCreator demo_ops [] spend_demo)
      (CreateQuantumP2WSH (vo_hashes demo_ops) \<lparr>pk_type = SLH_DSA_192F, pk_data = replicate 48 7\<rparr>) SignatureData_new = Inr (False, sigdata') \<and>
    \<not> sd_complete sigdata')"
proof -
  have v: "CQuantumPubKey_IsValid \<lparr>pk_type = SLH_DSA_192F, pk_data = replicate 48 7\<rparr>"
    by (simp add: CQuantumPubKey_IsValid_def)
  then show ?thesis
    by (intro conjI quantum_SLH_not_signed [OF demo_ops_hash_sizes v _ refl])
      (simp_all add: GetCScript_def SignatureData_new_def)
qed


section \<open>The scripts of the quantum descriptors\<close>

text \<open>
  \<open>QPKDescriptor::MakeScripts\<close> gives the witness script for \<open>wsh(qpk(KEY))\<close>, and
  \<open>QPKHDescriptor::MakeScripts\<close> the pay-to-witness-script-hash output and the script it adds to
  the provider.  They return no script for other kinds of keys.
\<close>

definition algo_prefix :: "KeyType \<Rightarrow> CScript option" where
  "algo_prefix t = (case t of
     ML_DSA_65 \<Rightarrow> Some (push_data [SCHEME_ML_DSA_65])
   | SLH_DSA_192F \<Rightarrow> Some (push_data [SCHEME_SLH_DSA_192F])
   | _ \<Rightarrow> None)"

definition QPK_MakeScripts :: "(CKeyID \<Rightarrow> CQuantumPubKey option) \<Rightarrow> CKeyID \<Rightarrow> CScript list" where
  "QPK_MakeScripts provider_GetQuantumPubKey keyid = (case provider_GetQuantumPubKey keyid of
     None \<Rightarrow> []
   | Some qpubkey \<Rightarrow> (case algo_prefix (pk_type qpubkey) of
       None \<Rightarrow> []
     | Some algo \<Rightarrow> [algo @ push_data (pk_data qpubkey) @ push_opcode OP_CHECKSIG_EX]))"

definition QPKH_MakeScripts :: "Hashes \<Rightarrow> byte \<Rightarrow> CQuantumPubKey \<Rightarrow> (valtype \<Rightarrow> CScript option) \<Rightarrow> CScript list \<times> (valtype \<Rightarrow> CScript option)" where
  "QPKH_MakeScripts hs scheme qpubkey out_scripts =
    (if scheme = SCHEME_ML_DSA_65 \<or> scheme = SCHEME_SLH_DSA_192F then
       let witnessScript = push_data [scheme] @ push_data (pk_data qpubkey) @ push_opcode OP_CHECKSIG_EX;
           script = push_opcode OP_0 @ push_data (SHA256 hs witnessScript) in
       ([script],
        if out_scripts (Hash160 hs witnessScript) = None then out_scripts(Hash160 hs witnessScript := Some witnessScript) else out_scripts)
     else ([], out_scripts))"

text \<open>A push that does not fail puts its value on the stack.\<close>

lemma EvalScript_loop_push_Inr:
  assumes "all_true (st_vfExec st)" "length x < 2 ^ 32" "EvalScript_loop env (push_data x @ rest) st = Inr st'"
  shows "EvalScript_loop env rest (next_pos (set_stack st (x # st_stack st))) = Inr st'"
proof -
  obtain st1 where step: "EvalScript_step env (push_op (length x)) x rest st = Inr st1"
    and loop: "EvalScript_loop env rest (next_pos st1) = Inr st'"
    using assms(3) by (auto simp: EvalScript_loop_GetOp [OF GetOp_push_data [OF assms(2)]] bindE_eq_Inr)
  have "st1 = set_stack st (x # st_stack st)"
    using step assms(1) push_op_le [of "length x"]
    by (auto simp: EvalScript_step_def Let_def disabled_opcode_def exec_instruction_def set_stack_def bindE_eq_Inr split: if_splits)
  then show ?thesis
    using loop by simp
qed

lemma empty_quantum_signature:
  assumes "env_checker env = GenericTransactionSignatureChecker ops ck"
  shows "EvalChecksigQuantum [scheme] pk code env \<noteq> Inr True"
  using assms
  by (cases "ck_mdb ck") (auto simp: EvalChecksigQuantum_def GenericTransactionSignatureChecker_def Generic_CheckQuantumSignature_def key_Verify_def
      bindE_eq_Inr Let_def split: if_splits)

lemma descriptor_script_result:
  assumes "env_checker env = GenericTransactionSignatureChecker ops ck" "env_sigversion env = WITNESS_V0" "length pk < 2 ^ 32"
    and "EvalScript env stack (push_data [scheme] @ push_data pk @ push_opcode OP_CHECKSIG_EX) ed = Inr (stack', ed')"
  shows "length stack' \<noteq> 1 \<or> \<not> CastToBool (hd stack')"
proof -
  let ?script = "push_data [scheme] @ push_data pk @ push_opcode OP_CHECKSIG_EX"
  let ?st1 = "next_pos (set_stack (init_state stack ?script ed) ([scheme] # stack))"
  let ?st2 = "next_pos (set_stack ?st1 (pk # [scheme] # stack))"
  obtain st where loop: "EvalScript_loop env ?script (init_state stack ?script ed) = Inr st" and st: "stack' = st_stack st"
    using assms(2,4) by (auto simp: EvalScript_def bindE_eq_Inr split: if_splits)
  have "EvalScript_loop env (push_data pk @ push_opcode OP_CHECKSIG_EX) ?st1 = Inr st"
    using EvalScript_loop_push_Inr [OF _ _ loop] by simp
  then have "EvalScript_loop env (push_opcode OP_CHECKSIG_EX) ?st2 = Inr st"
    using EvalScript_loop_push_Inr [of ?st1 pk env "push_opcode OP_CHECKSIG_EX" st] assms(3) by simp
  then have "st_stack st = pk # [scheme] # stack \<or> (\<exists>ok. EvalChecksigQuantum [scheme] pk ?script env = Inr ok \<and> st_stack st = bool_vch ok # stack)"
    using assms(2)
    by (auto simp: push_opcode_def EvalScript_loop_exec disabled_opcode_def exec_opcode_def op_checksig_ex_def bindE_eq_Inr split: if_splits)
  then show ?thesis
  proof
    assume "\<exists>ok. EvalChecksigQuantum [scheme] pk ?script env = Inr ok \<and> st_stack st = bool_vch ok # stack"
    then show ?thesis
      using empty_quantum_signature [OF assms(1), of scheme pk ?script] st by (auto simp: bool_vch_def vchFalse_def)
  qed (simp add: st)
qed

text \<open>
  C10.  An output of \<open>QPKHDescriptor\<close> cannot be spent.  Its witness script pushes the
  algorithm identifier and the key, so that \<open>OP_CHECKSIG_EX\<close> takes the identifier for the
  signature.  Whatever the signature script, the witness, the transaction and the consistent flags
  with \<open>WITNESS\<close> are, \<open>VerifyScript\<close> fails, unless the witness has another script of the
  same hash.
\<close>
theorem QPKH_output_unspendable:
  assumes "QPKH_MakeScripts (env_hashes env) scheme qpubkey scripts = ([scriptPubKey], scripts')" "CQuantumPubKey_IsValid qpubkey"
    and "script = push_data [scheme] @ push_data (pk_data qpubkey) @ push_opcode OP_CHECKSIG_EX"
    and "hash_sizes (env_hashes env)" "env_checker env = GenericTransactionSignatureChecker ops ck"
    and "flags_consistent (env_flags env)" "has_flag (env_flags env) SCRIPT_VERIFY_WITNESS"
    and no_clash: "SHA256 (env_hashes env) (last witness) = SHA256 (env_hashes env) script \<Longrightarrow> last witness = script"
  shows "VerifyScript tweak env scriptSig scriptPubKey witness \<noteq> Inr ()"
proof
  assume ok: "VerifyScript tweak env scriptSig scriptPubKey witness = Inr ()"
  let ?h = "SHA256 (env_hashes env) script"
  have spk: "scriptPubKey = push_opcode OP_0 @ push_data ?h"
    using assms(1,3) by (auto simp: QPKH_MakeScripts_def Let_def split: if_splits)
  have h: "length ?h = 32"
    using assms(4) by (simp add: hash_sizes_def)
  have prog: "witness \<noteq> [] \<and> SHA256 (env_hashes env) (last witness) = ?h"
    using ok assms(7) P2WSH_program [OF h] h unfolding spk
    by (auto simp: VerifyScript_def verify_bare_witness_def VerifyWitnessProgram_def Let_def bindE_eq_Inr split: if_splits)
  then have "witness = butlast witness @ [script]"
    using no_clash append_butlast_last_id by force
  then have "ExecuteWitnessScript (env\<lparr>env_sigversion := WITNESS_V0\<rparr>) (butlast witness) script empty_execdata = Inr ()"
    using ok VerifyScript_P2WSH [OF assms(6,7,4) refl, of tweak scriptSig script "butlast witness"] unfolding spk by simp
  moreover have "length (pk_data qpubkey) < 2 ^ 32"
    using assms(2) by (auto simp: CQuantumPubKey_IsValid_def split: KeyType.splits if_splits)
  ultimately show False
    using descriptor_script_result [of "env\<lparr>env_sigversion := WITNESS_V0\<rparr>" ops ck "pk_data qpubkey" _ scheme] assms(5)
    unfolding assms(3) by (auto simp: ExecuteWitnessScript_def bindE_eq_Inr split: if_splits)
qed

theorem QPKH_output_unspendable_witness:
  "let pub = \<lparr>pk_type = SLH_DSA_192F, pk_data = replicate 48 7\<rparr>;
       script = push_data [3] @ push_data (replicate 48 7) @ push_opcode OP_CHECKSIG_EX;
       env = \<lparr>env_flags = STANDARD_SCRIPT_VERIFY_FLAGS, env_checker = GenericTransactionSignatureChecker demo_ops cache_demo_ck,
         env_sigversion = BASE, env_hashes = padded_hashes, env_CheckLowS = (\<lambda>_. True)\<rparr> in
   CQuantumPubKey_IsValid pub \<and>
   QPKH_MakeScripts padded_hashes 3 pub (\<lambda>_. None) =
     ([push_opcode OP_0 @ push_data (SHA256 padded_hashes script)], (\<lambda>_. None)(Hash160 padded_hashes script := Some script)) \<and>
   VerifyScript (\<lambda>_ _ _ _. False) env [] (push_opcode OP_0 @ push_data (SHA256 padded_hashes script)) [replicate 9 5, script] \<noteq> Inr ()"
proof -
  let ?pub = "\<lparr>pk_type = SLH_DSA_192F, pk_data = replicate 48 7\<rparr>" and ?hs = padded_hashes
  let ?script = "push_data [3] @ push_data (replicate 48 7) @ push_opcode OP_CHECKSIG_EX"
  let ?env = "\<lparr>env_flags = STANDARD_SCRIPT_VERIFY_FLAGS, env_checker = GenericTransactionSignatureChecker demo_ops cache_demo_ck,
    env_sigversion = BASE, env_hashes = ?hs, env_CheckLowS = (\<lambda>_. True)\<rparr>"
  have v: "CQuantumPubKey_IsValid ?pub"
    by (simp add: CQuantumPubKey_IsValid_def)
  have m: "QPKH_MakeScripts ?hs 3 ?pub (\<lambda>_. None) =
     ([push_opcode OP_0 @ push_data (SHA256 ?hs ?script)], (\<lambda>_. None)(Hash160 ?hs ?script := Some ?script))"
    unfolding QPKH_MakeScripts_def by (simp only: Let_def CQuantumPubKey.simps refl simp_thms if_True)
  have "VerifyScript (\<lambda>_ _ _ _. False) ?env [] (push_opcode OP_0 @ push_data (SHA256 ?hs ?script)) [replicate 9 5, ?script] \<noteq> Inr ()"
    using demo_ops_hash_sizes
    by (intro QPKH_output_unspendable [where env = ?env and scheme = 3 and scripts = "\<lambda>_. None", unfolded EvalEnv.simps, OF m v _ _ refl standard_flags_consistent])
      (simp_all add: demo_ops_def has_flag_def standard_flags)
  then show ?thesis
    unfolding Let_def using v m by blast
qed

end
