(* ===== verification/CoinsList.thy ===== *)
theory CoinsList
  imports Script Transaction
begin

text \<open>
  Coins and the entries of the coins cache (\<open>src/coins.h\<close>), with the doubly linked list of
  flagged entries that the cache keeps through them.  The list is modelled with its pointers: a
  pointer is null, the sentinel or the address of an entry, which its key stands for.  What the
  pointers represent is a list of keys, and each operation on pointers is shown to be one on that
  list.
\<close>

section \<open>Coins\<close>

definition CTxOut_Null :: CTxOut where
  "CTxOut_Null = \<lparr>txout_nValue = -1, txout_scriptPubKey = []\<rparr>"

definition txout_IsNull :: "CTxOut \<Rightarrow> bool" where
  "txout_IsNull out = (txout_nValue out = -1)"

record Coin =
  coin_out :: CTxOut
  coin_fCoinBase :: bool
  coin_nHeight :: "31 word"

definition Coin_new :: "CTxOut \<Rightarrow> 32 word \<Rightarrow> bool \<Rightarrow> Coin" where
  "Coin_new outIn nHeightIn fCoinBaseIn = \<lparr>coin_out = outIn, coin_fCoinBase = fCoinBaseIn, coin_nHeight = ucast nHeightIn\<rparr>"

definition coinEmpty :: Coin where
  "coinEmpty = \<lparr>coin_out = CTxOut_Null, coin_fCoinBase = False, coin_nHeight = 0\<rparr>"

definition IsSpent :: "Coin \<Rightarrow> bool" where
  "IsSpent coin = txout_IsNull (coin_out coin)"

lemma IsSpent_coinEmpty [simp]: "IsSpent coinEmpty"
  by (simp add: IsSpent_def coinEmpty_def txout_IsNull_def CTxOut_Null_def)


section \<open>Entries and their list\<close>

datatype pair_ptr = Nullptr | Sentinel | Entry COutPoint

record CCoinsCacheEntry =
  e_coin :: Coin
  IsDirty :: bool
  IsFresh :: bool
  m_prev :: pair_ptr
  m_next :: pair_ptr

definition CCoinsCacheEntry_new :: "Coin \<Rightarrow> CCoinsCacheEntry" where
  "CCoinsCacheEntry_new coin = \<lparr>e_coin = coin, IsDirty = False, IsFresh = False, m_prev = Nullptr, m_next = Nullptr\<rparr>"

text \<open>The map of the cache and the pointers of its sentinel.\<close>

record CCoinsMap =
  entries :: "COutPoint \<Rightarrow> CCoinsCacheEntry option"
  sentinel_prev :: pair_ptr
  sentinel_next :: pair_ptr

definition CCoinsMap_new :: CCoinsMap where
  "CCoinsMap_new = \<lparr>entries = (\<lambda>_. None), sentinel_prev = Sentinel, sentinel_next = Sentinel\<rparr>"

definition modify :: "COutPoint \<Rightarrow> (CCoinsCacheEntry \<Rightarrow> CCoinsCacheEntry) \<Rightarrow> CCoinsMap \<Rightarrow> CCoinsMap" where
  "modify k f m = m\<lparr>entries := (entries m)(k := map_option f (entries m k))\<rparr>"

primrec get_next :: "CCoinsMap \<Rightarrow> pair_ptr \<Rightarrow> pair_ptr" where
  "get_next m Nullptr = Nullptr"
| "get_next m Sentinel = sentinel_next m"
| "get_next m (Entry k) = (case entries m k of Some e \<Rightarrow> m_next e | None \<Rightarrow> Nullptr)"

primrec get_prev :: "CCoinsMap \<Rightarrow> pair_ptr \<Rightarrow> pair_ptr" where
  "get_prev m Nullptr = Nullptr"
| "get_prev m Sentinel = sentinel_prev m"
| "get_prev m (Entry k) = (case entries m k of Some e \<Rightarrow> m_prev e | None \<Rightarrow> Nullptr)"

primrec set_next :: "pair_ptr \<Rightarrow> pair_ptr \<Rightarrow> CCoinsMap \<Rightarrow> CCoinsMap" where
  "set_next Nullptr v m = m"
| "set_next Sentinel v m = m\<lparr>sentinel_next := v\<rparr>"
| "set_next (Entry k) v m = modify k (\<lambda>e. e\<lparr>m_next := v\<rparr>) m"

primrec set_prev :: "pair_ptr \<Rightarrow> pair_ptr \<Rightarrow> CCoinsMap \<Rightarrow> CCoinsMap" where
  "set_prev Nullptr v m = m"
| "set_prev Sentinel v m = m\<lparr>sentinel_prev := v\<rparr>"
| "set_prev (Entry k) v m = modify k (\<lambda>e. e\<lparr>m_prev := v\<rparr>) m"

definition has_flags :: "CCoinsMap \<Rightarrow> COutPoint \<Rightarrow> bool" where
  "has_flags m k = (case entries m k of Some e \<Rightarrow> IsDirty e \<or> IsFresh e | None \<Rightarrow> False)"

definition AddFlags :: "bool \<Rightarrow> bool \<Rightarrow> COutPoint \<Rightarrow> CCoinsMap \<Rightarrow> CCoinsMap" where
  "AddFlags dirty fresh k m =
    modify k (\<lambda>e. e\<lparr>IsDirty := IsDirty e \<or> dirty, IsFresh := IsFresh e \<or> fresh\<rparr>)
     (if has_flags m k then m
      else
        let m = set_prev (Entry k) (sentinel_prev m) m;
            m = set_next (Entry k) Sentinel m;
            m = m\<lparr>sentinel_prev := Entry k\<rparr>
        in set_next (get_prev m (Entry k)) (Entry k) m)"

definition SetDirty :: "COutPoint \<Rightarrow> CCoinsMap \<Rightarrow> CCoinsMap" where
  "SetDirty = AddFlags True False"

definition SetFresh :: "COutPoint \<Rightarrow> CCoinsMap \<Rightarrow> CCoinsMap" where
  "SetFresh = AddFlags False True"

definition SetClean :: "COutPoint \<Rightarrow> CCoinsMap \<Rightarrow> CCoinsMap" where
  "SetClean k m =
    (if \<not> has_flags m k then m
     else
       let m = set_prev (get_next m (Entry k)) (get_prev m (Entry k)) m;
           m = set_next (get_prev m (Entry k)) (get_next m (Entry k)) m
       in modify k (\<lambda>e. e\<lparr>IsDirty := False, IsFresh := False, m_prev := Nullptr, m_next := Nullptr\<rparr>) m)"

text \<open>Erasing an entry runs its destructor, which takes it off the list.\<close>

definition map_erase :: "COutPoint \<Rightarrow> CCoinsMap \<Rightarrow> CCoinsMap" where
  "map_erase k m = (let m = SetClean k m in m\<lparr>entries := (entries m)(k := None)\<rparr>)"

definition try_emplace :: "COutPoint \<Rightarrow> Coin \<Rightarrow> CCoinsMap \<Rightarrow> CCoinsMap" where
  "try_emplace k coin m = (if entries m k = None then m\<lparr>entries := (entries m)(k \<mapsto> CCoinsCacheEntry_new coin)\<rparr> else m)"

definition set_coin :: "COutPoint \<Rightarrow> Coin \<Rightarrow> CCoinsMap \<Rightarrow> CCoinsMap" where
  "set_coin k coin = modify k (\<lambda>e. e\<lparr>e_coin := coin\<rparr>)"


section \<open>Segments of linked pointers\<close>

text \<open>
  \<open>seg N P a xs b\<close>: following the next pointers \<open>N\<close> from \<open>a\<close> leads through
  the entries \<open>xs\<close> to \<open>b\<close>, and the previous pointers \<open>P\<close> lead back.
\<close>

fun seg :: "(pair_ptr \<Rightarrow> pair_ptr) \<Rightarrow> (pair_ptr \<Rightarrow> pair_ptr) \<Rightarrow> pair_ptr \<Rightarrow> COutPoint list \<Rightarrow> pair_ptr \<Rightarrow> bool" where
  "seg N P a [] b \<longleftrightarrow> N a = b \<and> P b = a"
| "seg N P a (x # xs) b \<longleftrightarrow> N a = Entry x \<and> P (Entry x) = a \<and> seg N P (Entry x) xs b"

lemma seg_append: "seg N P a (xs @ y # ys) b \<longleftrightarrow> seg N P a xs (Entry y) \<and> seg N P (Entry y) ys b"
  by (induction xs arbitrary: a) auto

lemma seg_cong:
  assumes "seg N P a xs b" "\<And>p. p \<in> insert a (Entry ` set xs) \<Longrightarrow> N' p = N p" "\<And>p. p \<in> insert b (Entry ` set xs) \<Longrightarrow> P' p = P p"
  shows "seg N' P' a xs b"
  using assms by (induction xs arbitrary: a) auto

lemma seg_last: "seg N P a xs b \<Longrightarrow> P b = last (a # map Entry xs)"
  by (induction xs arbitrary: a) auto

lemma seg_redirect:
  assumes "seg N P a xs b" "distinct xs" "a \<notin> Entry ` set xs" "b' \<notin> Entry ` set xs"
  shows "seg (N(P b := b')) (P(b' := P b)) a xs b'"
proof (cases xs rule: rev_cases)
  case (snoc ys y)
  have s: "seg N P a ys (Entry y)" "N (Entry y) = b" "P b = Entry y"
    using assms(1) by (simp_all add: snoc seg_append)
  have "seg (N(P b := b')) (P(b' := P b)) a ys (Entry y)"
    using assms(2-4) by (intro seg_cong [OF s(1)]) (auto simp: snoc s(3))
  then show ?thesis
    using s by (simp add: snoc seg_append)
qed (use assms in auto)

lemma seg_delete:
  assumes "seg N P a (xs @ k # ys) b" "distinct (xs @ k # ys)" "a \<notin> Entry ` set (xs @ k # ys)" "b \<notin> Entry ` set (xs @ k # ys)"
    and "p = P (Entry k)" "n = N (Entry k)"
  shows "seg (N(p := n)) (P(n := p)) a (xs @ ys) b"
proof -
  have s: "seg N P a xs (Entry k)" "seg N P (Entry k) ys b"
    using assms(1) by (simp_all add: seg_append)
  have n: "n \<notin> Entry ` set xs"
    using s(2) assms(2,4,6) by (cases ys) auto
  have x: "seg (N(p := n)) (P(n := p)) a xs n"
    using seg_redirect [OF s(1), of n] assms(2,3,5) n by auto
  show ?thesis
  proof (cases ys)
    case Nil
    then show ?thesis
      using x s(2) assms(6) by simp
  next
    case (Cons y zs)
    have "p = a \<or> p \<in> Entry ` set xs"
      using seg_last [OF s(1)] assms(5) by (cases xs rule: rev_cases) auto
    then have p: "p \<noteq> Entry y" "p \<notin> Entry ` set zs"
      using assms(2,3) by (auto simp: Cons)
    have n: "n = Entry y" and zs: "seg N P (Entry y) zs b"
      using s(2) assms(6) by (simp_all add: Cons)
    have "seg (N(p := n)) (P(n := p)) (Entry y) zs b"
      using p assms(2,4) by (intro seg_cong [OF zs]) (auto simp: n Cons)
    then show ?thesis
      using x by (simp add: n Cons seg_append)
  qed
qed

lemma seg_snoc:
  assumes "seg N P Sentinel xs Sentinel" "distinct xs" "k \<notin> set xs"
  shows "seg (N(Entry k := Sentinel, P Sentinel := Entry k)) (P(Entry k := P Sentinel, Sentinel := Entry k)) Sentinel (xs @ [k]) Sentinel"
proof -
  have "seg (N(P Sentinel := Entry k)) (P(Entry k := P Sentinel)) Sentinel xs (Entry k)"
    using assms by (intro seg_redirect) auto
  note r = this
  have p: "P Sentinel \<noteq> Entry k"
    using seg_last [OF assms(1)] assms(3) by (cases xs rule: rev_cases) auto
  have "seg (N(Entry k := Sentinel, P Sentinel := Entry k)) (P(Entry k := P Sentinel, Sentinel := Entry k)) Sentinel xs (Entry k)"
    using assms(3) p by (intro seg_cong [OF r]) auto
  then show ?thesis
    using p by (simp add: seg_append)
qed


section \<open>What the operations do\<close>

text \<open>The coins and flags of the entries, without the pointers.\<close>

definition view :: "CCoinsMap \<Rightarrow> COutPoint \<Rightarrow> (Coin \<times> bool \<times> bool) option" where
  "view m k = map_option (\<lambda>e. (e_coin e, IsDirty e, IsFresh e)) (entries m k)"

lemma view_simps [simp]:
  "entries (modify k f m) = (entries m)(k := map_option f (entries m k))"
  "view (m\<lparr>sentinel_next := v\<rparr>) = view m" "view (m\<lparr>sentinel_prev := v\<rparr>) = view m"
  "view CCoinsMap_new = (\<lambda>_. None)"
  by (auto simp: view_def modify_def fun_eq_iff CCoinsMap_new_def)

lemma view_entries: "view m k = None \<longleftrightarrow> entries m k = None"
  by (simp add: view_def)

lemma has_flags_view: "has_flags m k \<longleftrightarrow> (\<exists>c d f. view m k = Some (c, d, f) \<and> (d \<or> f))"
  by (auto simp: has_flags_def view_def split: option.split)

lemma view_modify:
  assumes "\<And>e. (e_coin (g e), IsDirty (g e), IsFresh (g e)) = h (e_coin e, IsDirty e, IsFresh e)"
  shows "view (modify k g m) = (view m)(k := map_option h (view m k))"
  using assms by (auto simp: view_def fun_eq_iff option.map_comp comp_def)

lemma view_set_ptr [simp]: "view (set_next a v m) = view m" "view (set_prev a v m) = view m"
proof -
  have "view (modify k g m) = view m" if "\<And>e. e_coin (g e) = e_coin e \<and> IsDirty (g e) = IsDirty e \<and> IsFresh (g e) = IsFresh e" for k g
    using that by (simp add: view_modify [where h = "\<lambda>x. x"] option.map_ident)
  then show "view (set_next a v m) = view m" "view (set_prev a v m) = view m"
    by (cases a; simp)+
qed

lemma view_AddFlags [simp]:
  "view (AddFlags d f k m) = (view m)(k := map_option (\<lambda>(c, d', f'). (c, d' \<or> d, f' \<or> f)) (view m k))"
  unfolding AddFlags_def
  by (subst view_modify [where h = "\<lambda>(c, d', f'). (c, d' \<or> d, f' \<or> f)"]) (simp_all add: Let_def del: set_next.simps set_prev.simps)

lemma view_SetClean [simp]:
  "view (SetClean k m) = (view m)(k := map_option (\<lambda>(c, _, _). (c, False, False)) (view m k))"
proof (cases "has_flags m k")
  case True
  then show ?thesis
    unfolding SetClean_def
    by (simp add: Let_def view_modify [where h = "\<lambda>(c, _, _). (c, False, False)"])
next
  case False
  then have "map_option (\<lambda>(c, _, _). (c, False, False)) (view m k) = view m k"
    by (cases "view m k") (auto simp: has_flags_view)
  then show ?thesis
    using False by (simp add: SetClean_def fun_upd_idem)
qed

lemma view_map_erase [simp]: "view (map_erase k m) = (view m)(k := None)"
proof -
  have "view (m\<lparr>entries := (entries m)(k := None)\<rparr>) = (view m)(k := None)" for m
    by (auto simp: view_def fun_eq_iff)
  then show ?thesis
    by (simp add: map_erase_def Let_def)
qed

lemma view_try_emplace [simp]:
  "view (try_emplace k c m) = (if view m k = None then (view m)(k \<mapsto> (c, False, False)) else view m)"
  by (auto simp: try_emplace_def view_entries) (auto simp: view_def fun_eq_iff CCoinsCacheEntry_new_def)

lemma view_set_coin [simp]:
  "view (set_coin k c m) = (view m)(k := map_option (\<lambda>(_, d, f). (c, d, f)) (view m k))"
  unfolding set_coin_def by (subst view_modify [where h = "\<lambda>(_, d, f). (c, d, f)"]) simp_all

lemma view_SetDirty [simp]: "view (SetDirty k m) = (view m)(k := map_option (\<lambda>(c, d, f). (c, True, f)) (view m k))"
  and view_SetFresh [simp]: "view (SetFresh k m) = (view m)(k := map_option (\<lambda>(c, d, f). (c, d, True)) (view m k))"
  by (simp_all add: SetDirty_def SetFresh_def)


text \<open>The list of flagged entries that the pointers represent.\<close>

definition linked :: "CCoinsMap \<Rightarrow> COutPoint list \<Rightarrow> bool" where
  "linked m xs \<longleftrightarrow> distinct xs \<and> set xs = {k. has_flags m k} \<and> seg (get_next m) (get_prev m) Sentinel xs Sentinel"

definition valid_ptr :: "CCoinsMap \<Rightarrow> pair_ptr \<Rightarrow> bool" where
  "valid_ptr m p \<longleftrightarrow> p = Sentinel \<or> (\<exists>k. p = Entry k \<and> view m k \<noteq> None)"

lemma get_set_ptr:
  "valid_ptr m a \<Longrightarrow> get_next (set_next a v m) = (get_next m)(a := v)"
  "valid_ptr m a \<Longrightarrow> get_prev (set_prev a v m) = (get_prev m)(a := v)"
  "get_prev (set_next a v m) = get_prev m" "get_next (set_prev a v m) = get_next m"
proof -
  have case_split: "f = g" if "f Nullptr = g Nullptr" "f Sentinel = g Sentinel" "\<And>k. f (Entry k) = g (Entry k)" for f g :: "pair_ptr \<Rightarrow> pair_ptr"
    by (rule ext, rule pair_ptr.induct) (rule that)+
  show "valid_ptr m a \<Longrightarrow> get_next (set_next a v m) = (get_next m)(a := v)"
    "valid_ptr m a \<Longrightarrow> get_prev (set_prev a v m) = (get_prev m)(a := v)"
    "get_prev (set_next a v m) = get_prev m" "get_next (set_prev a v m) = get_next m"
    by (cases a; rule case_split; auto simp: valid_ptr_def view_entries modify_def split: option.split)+
qed

lemma get_ptr_modify:
  "(\<And>e. m_next (g e) = m_next e) \<Longrightarrow> get_next (modify k g m) = get_next m"
  "(\<And>e. m_prev (g e) = m_prev e) \<Longrightarrow> get_prev (modify k g m) = get_prev m"
  by (rule ext, rule pair_ptr.induct; auto simp: modify_def split: option.split)+

lemma has_flags_cong: "view m = view m' \<Longrightarrow> has_flags m k = has_flags m' k"
  by (simp add: has_flags_view)

lemma seg_valid:
  assumes "seg N (get_prev m) Sentinel xs Sentinel" "\<And>k. k \<in> set xs \<Longrightarrow> has_flags m k"
  shows "valid_ptr m (get_prev m Sentinel)"
proof (cases xs rule: rev_cases)
  case (snoc ys y)
  then show ?thesis
    using seg_last [OF assms(1)] assms(2) [of y] by (auto simp: valid_ptr_def has_flags_view)
qed (use seg_last [OF assms(1)] in \<open>simp add: valid_ptr_def\<close>)

lemma linked_modify:
  assumes "linked m xs" "\<And>e. m_next (g e) = m_next e \<and> m_prev (g e) = m_prev e \<and> IsDirty (g e) = IsDirty e \<and> IsFresh (g e) = IsFresh e"
  shows "linked (modify k g m) xs"
proof -
  have "has_flags (modify k g m) j = has_flags m j" for j
    using assms(2) by (auto simp: has_flags_def split: option.split)
  then show ?thesis
    using assms by (simp add: linked_def get_ptr_modify)
qed

lemma linked_AddFlags:
  assumes l: "linked m xs" and k: "view m k \<noteq> None" and df: "d \<or> f"
  shows "linked (AddFlags d f k m) (if k \<in> set xs then xs else xs @ [k])"
proof -
  let ?g = "\<lambda>e. e\<lparr>IsDirty := IsDirty e \<or> d, IsFresh := IsFresh e \<or> f\<rparr>"
  have flags: "has_flags (AddFlags d f k m) j \<longleftrightarrow> has_flags m j \<or> j = k" for j
    using k df by (auto simp: has_flags_view)
  have xs: "distinct xs" "set xs = {k. has_flags m k}" "seg (get_next m) (get_prev m) Sentinel xs Sentinel"
    using l by (simp_all add: linked_def)
  show ?thesis
  proof (cases "has_flags m k")
    case True
    then have "AddFlags d f k m = modify k ?g m" "k \<in> set xs"
      using xs(2) by (simp_all add: AddFlags_def)
    then show ?thesis
      using xs flags True by (auto simp: linked_def get_ptr_modify)
  next
    case False
    define m1 where "m1 = (set_next (Entry k) Sentinel (set_prev (Entry k) (sentinel_prev m) m))\<lparr>sentinel_prev := Entry k\<rparr>"
    have m1: "m1 = set_prev Sentinel (Entry k) (set_next (Entry k) Sentinel (set_prev (Entry k) (get_prev m Sentinel) m))"
      by (simp add: m1_def)
    have ok: "valid_ptr m (Entry k)" "valid_ptr m Sentinel" "valid_ptr m (get_prev m Sentinel)"
      using k seg_valid [OF xs(3)] xs(2) by (auto simp: valid_ptr_def)
    have "view m1 = view m"
      by (simp add: m1_def del: set_next.simps set_prev.simps)
    then have ok1: "valid_ptr m1 (get_prev m Sentinel)"
      using ok(3) by (simp add: valid_ptr_def)
    have ptrs: "get_next m1 = (get_next m)(Entry k := Sentinel)" "get_prev m1 = (get_prev m)(Entry k := get_prev m Sentinel, Sentinel := Entry k)"
      using ok unfolding m1 by (simp_all add: get_set_ptr valid_ptr_def del: set_next.simps set_prev.simps)
    have "AddFlags d f k m = modify k ?g (set_next (get_prev m Sentinel) (Entry k) m1)"
      using False ptrs by (simp add: AddFlags_def m1_def [symmetric] Let_def del: set_next.simps set_prev.simps get_prev.simps)
    then have "get_next (AddFlags d f k m) = (get_next m)(Entry k := Sentinel, get_prev m Sentinel := Entry k)"
      "get_prev (AddFlags d f k m) = (get_prev m)(Entry k := get_prev m Sentinel, Sentinel := Entry k)"
      using ok1 ptrs by (simp_all add: get_ptr_modify get_set_ptr)
    then show ?thesis
      using xs flags False seg_snoc [OF xs(3,1), of k] by (auto simp: linked_def)
  qed
qed

lemma linked_SetClean:
  assumes "linked m xs"
  shows "linked (SetClean k m) (remove1 k xs)"
proof (cases "has_flags m k")
  case True
  let ?g = "\<lambda>e. e\<lparr>IsDirty := False, IsFresh := False, m_prev := Nullptr, m_next := Nullptr\<rparr>"
  let ?n = "get_next m (Entry k)" and ?p = "get_prev m (Entry k)"
  have xs: "distinct xs" "set xs = {k. has_flags m k}" "seg (get_next m) (get_prev m) Sentinel xs Sentinel"
    using assms by (simp_all add: linked_def)
  then obtain ys zs where split: "xs = ys @ k # zs"
    using True by (metis mem_Collect_eq split_list)
  then have seg: "seg (get_next m) (get_prev m) Sentinel ys (Entry k)" "seg (get_next m) (get_prev m) (Entry k) zs Sentinel"
    using xs(3) by (simp_all add: seg_append)
  have valid: "valid_ptr m (Entry j)" if "j \<in> set xs" for j
    using that xs(2) by (auto simp: valid_ptr_def has_flags_view)
  have "?p = Sentinel \<or> (\<exists>j \<in> set ys. ?p = Entry j)"
    using seg_last [OF seg(1)] by (cases ys rule: rev_cases) simp_all
  then have p: "valid_ptr m ?p" "?p \<noteq> Entry k"
    using valid xs(1) unfolding split by (auto simp: valid_ptr_def)
  have "?n = Sentinel \<or> (\<exists>j \<in> set zs. ?n = Entry j)"
    using seg(2) by (cases zs) simp_all
  then have n: "valid_ptr m ?n" "?n \<noteq> Entry k"
    using valid xs(1) unfolding split by (auto simp: valid_ptr_def)
  define m2 where "m2 = set_next ?p ?n (set_prev ?n ?p m)"
  have ptrs: "get_next m2 = (get_next m)(?p := ?n)" "get_prev m2 = (get_prev m)(?n := ?p)"
    using p n by (simp_all add: m2_def get_set_ptr valid_ptr_def)
  have eq: "SetClean k m = modify k ?g m2"
    using True n by (simp add: SetClean_def Let_def m2_def get_set_ptr del: get_next.simps get_prev.simps)
  have "seg (get_next m2) (get_prev m2) Sentinel (ys @ zs) Sentinel"
    unfolding ptrs by (rule seg_delete [OF xs(3) [unfolded split]]) (use xs(1) split in auto)
  then have "seg (get_next (modify k ?g m2)) (get_prev (modify k ?g m2)) Sentinel (ys @ zs) Sentinel"
  proof (rule seg_cong)
    have "get_next (modify k ?g m2) q = get_next m2 q \<and> get_prev (modify k ?g m2) q = get_prev m2 q" if "q \<noteq> Entry k" for q
      using that by (cases q) (simp_all add: modify_def split: option.split)
    then show "get_next (modify k ?g m2) q = get_next m2 q" if "q \<in> insert Sentinel (Entry ` set (ys @ zs))" for q
      using that xs(1) split by auto
    show "get_prev (modify k ?g m2) q = get_prev m2 q" if "q \<in> insert Sentinel (Entry ` set (ys @ zs))" for q
      using that xs(1) split \<open>\<And>q. q \<noteq> Entry k \<Longrightarrow> get_next (modify k ?g m2) q = get_next m2 q \<and> get_prev (modify k ?g m2) q = get_prev m2 q\<close> by auto
  qed
  moreover have "has_flags (SetClean k m) j \<longleftrightarrow> has_flags m j \<and> j \<noteq> k" for j
    by (auto simp: has_flags_view)
  ultimately show ?thesis
    using xs split by (auto simp: linked_def eq remove1_append)
next
  case False
  then show ?thesis
    using assms by (simp add: SetClean_def linked_def remove1_idem)
qed

lemma linked_cong:
  assumes "linked m xs" "sentinel_next m' = sentinel_next m" "sentinel_prev m' = sentinel_prev m"
    and "\<And>j. has_flags m j \<Longrightarrow> entries m' j = entries m j" "\<And>j. has_flags m' j \<Longrightarrow> has_flags m j"
  shows "linked m' xs"
proof -
  have flags: "has_flags m' j = has_flags m j" for j
    using assms(4,5) [of j] by (auto simp: has_flags_def)
  have xs: "seg (get_next m) (get_prev m) Sentinel xs Sentinel" "\<And>j. j \<in> set xs \<Longrightarrow> entries m' j = entries m j"
    using assms(1,4) by (simp_all add: linked_def)
  have "seg (get_next m') (get_prev m') Sentinel xs Sentinel"
    using xs(1) by (rule seg_cong) (auto simp: assms(2,3) xs(2))
  then show ?thesis
    using assms(1) flags by (simp add: linked_def)
qed

lemma linked_map_erase: "linked m xs \<Longrightarrow> linked (map_erase k m) (remove1 k xs)"
proof (rule linked_cong [OF linked_SetClean])
  show "entries (map_erase k m) j = entries (SetClean k m) j" if "has_flags (SetClean k m) j" for j
    using that by (auto simp: map_erase_def Let_def has_flags_view)
qed (auto simp: map_erase_def Let_def has_flags_def split: if_splits)

lemma linked_try_emplace: "linked m xs \<Longrightarrow> linked (try_emplace k c m) xs"
  by (erule linked_cong) (auto simp: try_emplace_def has_flags_def CCoinsCacheEntry_new_def split: if_splits option.splits)

lemma linked_set_coin: "linked m xs \<Longrightarrow> linked (set_coin k c m) xs"
  unfolding set_coin_def by (rule linked_modify) simp_all

lemma linked_new [simp]: "linked CCoinsMap_new []"
  by (simp add: linked_def CCoinsMap_new_def has_flags_def)

text \<open>The flags of the entries are the only thing that the list depends on.\<close>

definition well_linked :: "CCoinsMap \<Rightarrow> bool" where
  "well_linked m \<longleftrightarrow> (\<exists>xs. linked m xs)"

lemma well_linked_ops [intro]:
  "well_linked CCoinsMap_new"
  "well_linked m \<Longrightarrow> view m k \<noteq> None \<Longrightarrow> well_linked (SetDirty k m)"
  "well_linked m \<Longrightarrow> view m k \<noteq> None \<Longrightarrow> well_linked (SetFresh k m)"
  "well_linked m \<Longrightarrow> well_linked (SetClean k m)"
  "well_linked m \<Longrightarrow> well_linked (map_erase k m)"
  "well_linked m \<Longrightarrow> well_linked (try_emplace k c m)"
  "well_linked m \<Longrightarrow> well_linked (set_coin k c m)"
  unfolding well_linked_def SetDirty_def SetFresh_def
  by (blast intro: linked_new linked_AddFlags linked_SetClean linked_map_erase linked_try_emplace linked_set_coin)+

end
