(* ===== verification/Coins.thy ===== *)
theory Coins
  imports CoinsList Sighash
begin

text \<open>
  The set of unspent coins and its caches (\<open>src/coins.h\<close>, \<open>coins.cpp\<close>) and the
  database below them (\<open>src/txdb.cpp\<close>).  A view is a state with the operations
  \<open>GetCoin\<close>, \<open>GetBestBlock\<close> and \<open>BatchWrite\<close>; a cache has a view as its base
  and is a view itself, so that caches are stacked.  Operations that fill a cache while reading
  return the changed state.  The accounting of memory is left out.
\<close>

section \<open>The cache\<close>

datatype coins_error = COINS_ASSERT | OVERWRITE_UNSPENT | FRESH_MISAPPLIED | NOT_CLEARED | BAD_POINTER

record 'b CCoinsViewCache =
  base :: 'b
  hashBlock :: uint256
  cacheCoins :: CCoinsMap

definition CCoinsViewCache_new :: "'b \<Rightarrow> 'b CCoinsViewCache" where
  "CCoinsViewCache_new baseIn = \<lparr>base = baseIn, hashBlock = uint256_ZERO, cacheCoins = CCoinsMap_new\<rparr>"

type_synonym 'b GetCoin_op = "'b \<Rightarrow> COutPoint \<Rightarrow> Coin option \<times> 'b"

definition FetchCoin :: "'b GetCoin_op \<Rightarrow> COutPoint \<Rightarrow> 'b CCoinsViewCache \<Rightarrow> CCoinsCacheEntry option \<times> 'b CCoinsViewCache" where
  "FetchCoin base_GetCoin outpoint c = (case entries (cacheCoins c) outpoint of
     Some e \<Rightarrow> (Some e, c)
   | None \<Rightarrow> (case base_GetCoin (base c) outpoint of
       (None, b) \<Rightarrow> (None, c\<lparr>base := b\<rparr>)
     | (Some coin, b) \<Rightarrow>
         let m = try_emplace outpoint coin (cacheCoins c);
             m = (if IsSpent coin then SetFresh outpoint m else m)
         in (entries m outpoint, c\<lparr>base := b, cacheCoins := m\<rparr>)))"

definition cache_GetCoin :: "'b GetCoin_op \<Rightarrow> 'b CCoinsViewCache GetCoin_op" where
  "cache_GetCoin base_GetCoin c outpoint = (case FetchCoin base_GetCoin outpoint c of
     (Some e, c') \<Rightarrow> (if \<not> IsSpent (e_coin e) then Some (e_coin e) else None, c')
   | (None, c') \<Rightarrow> (None, c'))"

definition AddCoin :: "COutPoint \<Rightarrow> Coin \<Rightarrow> bool \<Rightarrow> 'b CCoinsViewCache \<Rightarrow> coins_error + 'b CCoinsViewCache" where
  "AddCoin outpoint coin possible_overwrite c =
    (if IsSpent coin then Inl COINS_ASSERT
     else if IsUnspendable (txout_scriptPubKey (coin_out coin)) then Inr c
     else
       let m = try_emplace outpoint coinEmpty (cacheCoins c);
           it = the (entries m outpoint) in
       if \<not> possible_overwrite \<and> \<not> IsSpent (e_coin it) then Inl OVERWRITE_UNSPENT
       else
         let fresh = (\<not> possible_overwrite \<and> \<not> IsDirty it);
             m = set_coin outpoint coin m;
             m = SetDirty outpoint m;
             m = (if fresh then SetFresh outpoint m else m)
         in Inr (c\<lparr>cacheCoins := m\<rparr>))"

definition EmplaceCoinInternalDANGER :: "COutPoint \<Rightarrow> Coin \<Rightarrow> 'b CCoinsViewCache \<Rightarrow> 'b CCoinsViewCache" where
  "EmplaceCoinInternalDANGER outpoint coin c =
    c\<lparr>cacheCoins := (if entries (cacheCoins c) outpoint = None
       then SetDirty outpoint (try_emplace outpoint coin (cacheCoins c)) else cacheCoins c)\<rparr>"

text \<open>\<open>SpendCoin\<close>: the coin that was moved out, or nothing.\<close>

definition SpendCoin :: "'b GetCoin_op \<Rightarrow> COutPoint \<Rightarrow> 'b CCoinsViewCache \<Rightarrow> Coin option \<times> 'b CCoinsViewCache" where
  "SpendCoin base_GetCoin outpoint c = (case FetchCoin base_GetCoin outpoint c of
     (None, c) \<Rightarrow> (None, c)
   | (Some it, c) \<Rightarrow>
       (Some (e_coin it),
        c\<lparr>cacheCoins := (if IsFresh it then map_erase outpoint (cacheCoins c)
          else set_coin outpoint coinEmpty (SetDirty outpoint (cacheCoins c)))\<rparr>))"

definition AccessCoin :: "'b GetCoin_op \<Rightarrow> COutPoint \<Rightarrow> 'b CCoinsViewCache \<Rightarrow> Coin \<times> 'b CCoinsViewCache" where
  "AccessCoin base_GetCoin outpoint c = (case FetchCoin base_GetCoin outpoint c of
     (None, c) \<Rightarrow> (coinEmpty, c) | (Some it, c) \<Rightarrow> (e_coin it, c))"

definition HaveCoin :: "'b GetCoin_op \<Rightarrow> COutPoint \<Rightarrow> 'b CCoinsViewCache \<Rightarrow> bool \<times> 'b CCoinsViewCache" where
  "HaveCoin base_GetCoin outpoint c = (case FetchCoin base_GetCoin outpoint c of
     (None, c) \<Rightarrow> (False, c) | (Some it, c) \<Rightarrow> (\<not> IsSpent (e_coin it), c))"

definition HaveCoinInCache :: "COutPoint \<Rightarrow> 'b CCoinsViewCache \<Rightarrow> bool" where
  "HaveCoinInCache outpoint c = (case entries (cacheCoins c) outpoint of None \<Rightarrow> False | Some it \<Rightarrow> \<not> IsSpent (e_coin it))"

definition cache_GetBestBlock :: "('b \<Rightarrow> uint256 \<times> 'b) \<Rightarrow> 'b CCoinsViewCache \<Rightarrow> uint256 \<times> 'b CCoinsViewCache" where
  "cache_GetBestBlock base_GetBestBlock c =
    (if hashBlock c = uint256_ZERO then let (h, b) = base_GetBestBlock (base c) in (h, c\<lparr>base := b, hashBlock := h\<rparr>)
     else (hashBlock c, c))"

definition SetBestBlock :: "uint256 \<Rightarrow> 'b CCoinsViewCache \<Rightarrow> 'b CCoinsViewCache" where
  "SetBestBlock hashBlockIn c = c\<lparr>hashBlock := hashBlockIn\<rparr>"

definition Uncache :: "COutPoint \<Rightarrow> 'b CCoinsViewCache \<Rightarrow> 'b CCoinsViewCache" where
  "Uncache hash c = (case entries (cacheCoins c) hash of
     Some it \<Rightarrow> if \<not> IsDirty it \<and> \<not> IsFresh it then c\<lparr>cacheCoins := map_erase hash (cacheCoins c)\<rparr> else c
   | None \<Rightarrow> c)"


section \<open>Writing to the base\<close>

text \<open>\<open>CoinsViewCacheCursor\<close>: the map and whether it is wiped afterwards.\<close>

definition NextAndMaybeErase :: "bool \<Rightarrow> COutPoint \<Rightarrow> CCoinsMap \<Rightarrow> pair_ptr \<times> CCoinsMap" where
  "NextAndMaybeErase will_erase current m =
    (get_next m (Entry current),
     if will_erase then m
     else case entries m current of
       Some e \<Rightarrow> if IsSpent (e_coin e) then map_erase current m else SetClean current m
     | None \<Rightarrow> m)"

text \<open>
  The loop over the flagged entries, with what the receiver does for one entry.  It ends at the
  sentinel; the other outcomes are a pointer that does not lead to an entry, and no result at all.
\<close>

partial_function (option) cursor_loop ::
  "('p \<Rightarrow> COutPoint \<Rightarrow> CCoinsCacheEntry \<Rightarrow> coins_error + 'p) \<Rightarrow> bool \<Rightarrow> pair_ptr \<Rightarrow> CCoinsMap \<Rightarrow> 'p \<Rightarrow>
   (coins_error + 'p \<times> CCoinsMap) option" where
  "cursor_loop write_entry will_erase it m p = (case it of
     Sentinel \<Rightarrow> Some (Inr (p, m))
   | Nullptr \<Rightarrow> Some (Inl BAD_POINTER)
   | Entry k \<Rightarrow> (case entries m k of
       None \<Rightarrow> Some (Inl BAD_POINTER)
     | Some e \<Rightarrow> (case write_entry p k e of
         Inl err \<Rightarrow> Some (Inl err)
       | Inr p' \<Rightarrow> cursor_loop write_entry will_erase (fst (NextAndMaybeErase will_erase k m)) (snd (NextAndMaybeErase will_erase k m)) p')))"

type_synonym 'b BatchWrite_op = "'b \<Rightarrow> uint256 \<Rightarrow> bool \<Rightarrow> CCoinsMap \<Rightarrow> (coins_error + bool \<times> 'b \<times> CCoinsMap) option"

definition cache_write_entry :: "'b CCoinsViewCache \<Rightarrow> COutPoint \<Rightarrow> CCoinsCacheEntry \<Rightarrow> coins_error + 'b CCoinsViewCache" where
  "cache_write_entry c k it =
    (if \<not> IsDirty it then Inr c
     else case entries (cacheCoins c) k of
       None \<Rightarrow>
         if IsFresh it \<and> IsSpent (e_coin it) then Inr c
         else
           let m = set_coin k (e_coin it) (try_emplace k coinEmpty (cacheCoins c));
               m = SetDirty k m;
               m = (if IsFresh it then SetFresh k m else m)
           in Inr (c\<lparr>cacheCoins := m\<rparr>)
     | Some itUs \<Rightarrow>
         if IsFresh it \<and> \<not> IsSpent (e_coin itUs) then Inl FRESH_MISAPPLIED
         else if IsFresh itUs \<and> IsSpent (e_coin it) then Inr (c\<lparr>cacheCoins := map_erase k (cacheCoins c)\<rparr>)
         else Inr (c\<lparr>cacheCoins := SetDirty k (set_coin k (e_coin it) (cacheCoins c))\<rparr>))"

definition cache_BatchWrite :: "'b CCoinsViewCache BatchWrite_op" where
  "cache_BatchWrite c hashBlockIn will_erase m = (case cursor_loop cache_write_entry will_erase (get_next m Sentinel) m c of
     None \<Rightarrow> None
   | Some (Inl e) \<Rightarrow> Some (Inl e)
   | Some (Inr (c', m')) \<Rightarrow> Some (Inr (True, c'\<lparr>hashBlock := hashBlockIn\<rparr>, m')))"

definition Flush :: "'b BatchWrite_op \<Rightarrow> 'b CCoinsViewCache \<Rightarrow> (coins_error + bool \<times> 'b CCoinsViewCache) option" where
  "Flush base_BatchWrite c = (case base_BatchWrite (base c) (hashBlock c) True (cacheCoins c) of
     None \<Rightarrow> None
   | Some (Inl e) \<Rightarrow> Some (Inl e)
   | Some (Inr (fOk, b, m)) \<Rightarrow> Some (Inr (fOk, c\<lparr>base := b, cacheCoins := (if fOk then CCoinsMap_new else m)\<rparr>)))"

definition Sync :: "'b BatchWrite_op \<Rightarrow> 'b CCoinsViewCache \<Rightarrow> (coins_error + bool \<times> 'b CCoinsViewCache) option" where
  "Sync base_BatchWrite c = (case base_BatchWrite (base c) (hashBlock c) False (cacheCoins c) of
     None \<Rightarrow> None
   | Some (Inl e) \<Rightarrow> Some (Inl e)
   | Some (Inr (fOk, b, m)) \<Rightarrow>
       if fOk \<and> get_next m Sentinel \<noteq> Sentinel then Some (Inl NOT_CLEARED)
       else Some (Inr (fOk, c\<lparr>base := b, cacheCoins := m\<rparr>)))"


section \<open>The database\<close>

text \<open>
  LevelDB is a map from keys to values that applies the operations of a batch; the keys are those of
  the coins, the best block and the marker of an unfinished write.
\<close>

record CCoinsViewDB =
  DB_COIN :: "COutPoint \<Rightarrow> Coin option"
  DB_BEST_BLOCK :: "uint256 option"
  DB_HEAD_BLOCKS :: "uint256 list option"

datatype batch_op = EraseCoin COutPoint | WriteCoin COutPoint Coin | BestBlock "uint256 option" | HeadBlocks "uint256 list option"

primrec apply_op :: "batch_op \<Rightarrow> CCoinsViewDB \<Rightarrow> CCoinsViewDB" where
  "apply_op (EraseCoin k) db = db\<lparr>DB_COIN := (DB_COIN db)(k := None)\<rparr>"
| "apply_op (WriteCoin k coin) db = db\<lparr>DB_COIN := (DB_COIN db)(k \<mapsto> coin)\<rparr>"
| "apply_op (BestBlock h) db = db\<lparr>DB_BEST_BLOCK := h\<rparr>"
| "apply_op (HeadBlocks hs) db = db\<lparr>DB_HEAD_BLOCKS := hs\<rparr>"

definition WriteBatch :: "batch_op list \<Rightarrow> CCoinsViewDB \<Rightarrow> CCoinsViewDB" where
  "WriteBatch = fold apply_op"

definition db_GetCoin :: "CCoinsViewDB GetCoin_op" where
  "db_GetCoin db outpoint = (DB_COIN db outpoint, db)"

definition db_GetBestBlock :: "CCoinsViewDB \<Rightarrow> uint256 \<times> CCoinsViewDB" where
  "db_GetBestBlock db = (case DB_BEST_BLOCK db of None \<Rightarrow> uint256_ZERO | Some h \<Rightarrow> h, db)"

definition db_write_entry ::
  "(batch_op list \<Rightarrow> nat) \<Rightarrow> nat \<Rightarrow> CCoinsViewDB \<times> batch_op list \<Rightarrow> COutPoint \<Rightarrow> CCoinsCacheEntry \<Rightarrow>
   coins_error + CCoinsViewDB \<times> batch_op list" where
  "db_write_entry ApproximateSize batch_write_bytes p k it =
    (let (db, batch) = p;
         batch = (if IsDirty it then batch @ [if IsSpent (e_coin it) then EraseCoin k else WriteCoin k (e_coin it)] else batch)
     in if ApproximateSize batch > batch_write_bytes then Inr (WriteBatch batch db, []) else Inr (db, batch))"

definition db_BatchWrite :: "(batch_op list \<Rightarrow> nat) \<Rightarrow> nat \<Rightarrow> CCoinsViewDB BatchWrite_op" where
  "db_BatchWrite ApproximateSize batch_write_bytes db hash will_erase m =
    (if hash = uint256_ZERO then Some (Inl COINS_ASSERT)
     else
       let old_tip = fst (db_GetBestBlock db);
           old_heads = (case DB_HEAD_BLOCKS db of None \<Rightarrow> [] | Some hs \<Rightarrow> hs) in
       if old_tip = uint256_ZERO \<and> length old_heads = 2 \<and> old_heads ! 0 \<noteq> hash then Some (Inl COINS_ASSERT)
       else
         let old_tip = (if old_tip = uint256_ZERO \<and> length old_heads = 2 then old_heads ! 1 else old_tip);
             batch = [BestBlock None, HeadBlocks (Some [hash, old_tip])] in
         case cursor_loop (db_write_entry ApproximateSize batch_write_bytes) will_erase (get_next m Sentinel) m (db, batch) of
           None \<Rightarrow> None
         | Some (Inl e) \<Rightarrow> Some (Inl e)
         | Some (Inr ((db, batch), m)) \<Rightarrow>
             Some (Inr (True, WriteBatch (batch @ [HeadBlocks None, BestBlock (Some hash)]) db, m)))"


section \<open>The sanity check of the cache\<close>

partial_function (option) sanity_loop :: "pair_ptr \<Rightarrow> CCoinsMap \<Rightarrow> nat \<Rightarrow> (coins_error + nat) option" where
  "sanity_loop it m count_linked = (case it of
     Sentinel \<Rightarrow> Some (Inr count_linked)
   | Nullptr \<Rightarrow> Some (Inl BAD_POINTER)
   | Entry k \<Rightarrow>
       if get_prev m (get_next m it) \<noteq> it then Some (Inl COINS_ASSERT)
       else if get_next m (get_prev m it) \<noteq> it then Some (Inl COINS_ASSERT)
       else if \<not> has_flags m k then Some (Inl COINS_ASSERT)
       else sanity_loop (get_next m it) m (Suc count_linked))"

definition attr_ok :: "CCoinsCacheEntry \<Rightarrow> bool" where
  "attr_ok e \<longleftrightarrow>
    (let attr = (if IsDirty e then 1 else 0) + (if IsFresh e then 2 else 0) + (if IsSpent (e_coin e) then 4 else 0 :: nat)
     in attr \<noteq> 2 \<and> attr \<noteq> 4 \<and> attr \<noteq> 7)"

definition SanityCheck :: "'b CCoinsViewCache \<Rightarrow> bool" where
  "SanityCheck c \<longleftrightarrow>
    (\<forall>e \<in> ran (entries (cacheCoins c)). attr_ok e) \<and>
    sanity_loop (get_next (cacheCoins c) Sentinel) (cacheCoins c) 0 = Some (Inr (card {k. has_flags (cacheCoins c) k}))"



section \<open>What a view promises\<close>

text \<open>
  The contract of a view: its state stands for a map from outpoints to unspent coins and a best
  block; reading does not change them.
\<close>

definition coin_opt :: "Coin \<Rightarrow> Coin option" where
  "coin_opt coin = (if IsSpent coin then None else Some coin)"

locale coins_view =
  fixes GetCoin :: "'b GetCoin_op" and GetBestBlock :: "'b \<Rightarrow> uint256 \<times> 'b"
    and utxo :: "'b \<Rightarrow> COutPoint \<Rightarrow> Coin option" and best :: "'b \<Rightarrow> uint256" and ok :: "'b \<Rightarrow> bool"
  assumes GetCoin_law: "ok b \<Longrightarrow> \<exists>b'. GetCoin b p = (utxo b p, b') \<and> ok b' \<and> utxo b' = utxo b \<and> best b' = best b"
    and GetBestBlock_law: "ok b \<Longrightarrow> \<exists>b'. GetBestBlock b = (best b, b') \<and> ok b' \<and> utxo b' = utxo b \<and> best b' = best b"
    and unspent: "ok b \<Longrightarrow> utxo b p = Some coin \<Longrightarrow> \<not> IsSpent coin"

text \<open>An entry of a cache over a base with the coins \<open>U\<close>, as its flags promise.\<close>

definition entry_ok :: "(COutPoint \<Rightarrow> Coin option) \<Rightarrow> COutPoint \<Rightarrow> Coin \<times> bool \<times> bool \<Rightarrow> bool" where
  "entry_ok U k e = (case e of (coin, dirty, fresh) \<Rightarrow>
     (fresh \<longrightarrow> U k = None) \<and> (\<not> dirty \<longrightarrow> coin_opt coin = U k) \<and>
     \<not> (\<not> dirty \<and> fresh \<and> \<not> IsSpent coin) \<and> \<not> (\<not> dirty \<and> \<not> fresh \<and> IsSpent coin) \<and> \<not> (dirty \<and> fresh \<and> IsSpent coin))"

definition map_ok :: "(COutPoint \<Rightarrow> Coin option) \<Rightarrow> CCoinsMap \<Rightarrow> bool" where
  "map_ok U m \<longleftrightarrow> well_linked m \<and> (\<forall>k e. view m k = Some e \<longrightarrow> entry_ok U k e)"

definition overlay :: "(COutPoint \<Rightarrow> (Coin \<times> bool \<times> bool) option) \<Rightarrow> (COutPoint \<Rightarrow> Coin option) \<Rightarrow> COutPoint \<Rightarrow> Coin option" where
  "overlay V U k = (case V k of Some (coin, _) \<Rightarrow> coin_opt coin | None \<Rightarrow> U k)"

definition cache_utxo :: "('b \<Rightarrow> COutPoint \<Rightarrow> Coin option) \<Rightarrow> 'b CCoinsViewCache \<Rightarrow> COutPoint \<Rightarrow> Coin option" where
  "cache_utxo utxo c = overlay (view (cacheCoins c)) (utxo (base c))"

definition cache_best :: "('b \<Rightarrow> uint256) \<Rightarrow> 'b CCoinsViewCache \<Rightarrow> uint256" where
  "cache_best best c = (if hashBlock c = uint256_ZERO then best (base c) else hashBlock c)"

definition cache_ok :: "('b \<Rightarrow> COutPoint \<Rightarrow> Coin option) \<Rightarrow> ('b \<Rightarrow> bool) \<Rightarrow> 'b CCoinsViewCache \<Rightarrow> bool" where
  "cache_ok utxo ok c \<longleftrightarrow> ok (base c) \<and> map_ok (utxo (base c)) (cacheCoins c)"

lemma overlay_simps [simp]:
  "overlay (V(k := None)) U = (overlay V U)(k := U k)"
  "overlay (V(k \<mapsto> (coin, d, f))) U = (overlay V U)(k := coin_opt coin)"
  "overlay (\<lambda>_. None) U = U"
  by (auto simp: overlay_def fun_eq_iff)

lemma overlay_None: "V k = None \<Longrightarrow> overlay V U k = U k"
  and overlay_Some: "V k = Some (coin, d, f) \<Longrightarrow> overlay V U k = coin_opt coin"
  by (simp_all add: overlay_def)

lemma coin_opt_simps [simp]: "IsSpent coin \<Longrightarrow> coin_opt coin = None" "\<not> IsSpent coin \<Longrightarrow> coin_opt coin = Some coin"
  by (simp_all add: coin_opt_def)

lemma entry_ok_simps [simp]:
  "entry_ok U k (coin, True, True) \<longleftrightarrow> U k = None \<and> \<not> IsSpent coin"
  "entry_ok U k (coin, True, False)"
  "entry_ok U k (coin, False, False) \<longleftrightarrow> U k = Some coin \<and> \<not> IsSpent coin"
  "entry_ok U k (coin, False, True) \<longleftrightarrow> U k = None \<and> IsSpent coin"
  by (auto simp: entry_ok_def coin_opt_def)

lemma map_okI: "well_linked m \<Longrightarrow> (\<And>k e. view m k = Some e \<Longrightarrow> entry_ok U k e) \<Longrightarrow> map_ok U m"
  by (simp add: map_ok_def)

lemma map_okD: "map_ok U m \<Longrightarrow> well_linked m" "map_ok U m \<Longrightarrow> view m k = Some e \<Longrightarrow> entry_ok U k e"
  unfolding map_ok_def by blast+

lemma map_ok_update:
  assumes "map_ok U m" "well_linked m'" "view m' = (view m)(k := x)" "\<And>e. x = Some e \<Longrightarrow> entry_ok U k e"
  shows "map_ok U m'"
  using assms by (auto simp: map_ok_def split: if_splits)

lemma view_Some: "view m k = Some (coin, d, f) \<longleftrightarrow> (\<exists>e. entries m k = Some e \<and> e_coin e = coin \<and> IsDirty e = d \<and> IsFresh e = f)"
  by (auto simp: view_def)

lemma entry_cases:
  obtains (None) "entries m k = None" "view m k = None"
    | (Some) e where "entries m k = Some e" "view m k = Some (e_coin e, IsDirty e, IsFresh e)"
  by (cases "entries m k") (auto simp: view_def)

lemma map_ok_map_erase: "map_ok U m \<Longrightarrow> map_ok U (map_erase k m)"
  by (rule map_ok_update [where k = k and x = None]) (simp_all add: map_okD(1) well_linked_ops)

lemma map_ok_try_emplace:
  assumes "map_ok U m" "view m k = None" "U k = Some coin" "\<not> IsSpent coin"
  shows "map_ok U (try_emplace k coin m)"
proof (rule map_ok_update [OF assms(1), where k = k and x = "Some (coin, False, False)"])
  show "well_linked (try_emplace k coin m)"
    by (rule well_linked_ops(6) [OF map_okD(1) [OF assms(1)]])
qed (use assms in auto)

context coins_view
begin

abbreviation "cok \<equiv> cache_ok utxo ok"
abbreviation "coins \<equiv> cache_utxo utxo"

text \<open>What a state and the next have in common when only the caching changed.\<close>

definition same :: "'b CCoinsViewCache \<Rightarrow> 'b CCoinsViewCache \<Rightarrow> bool" where
  "same c c' \<longleftrightarrow> cok c' \<and> coins c' = coins c \<and> cache_best best c' = cache_best best c \<and> hashBlock c' = hashBlock c \<and>
    utxo (base c') = utxo (base c)"

lemma FetchCoin_law:
  assumes "cok c"
  shows "\<exists>c'. FetchCoin GetCoin p c = (entries (cacheCoins c') p, c') \<and> same c c' \<and>
    (entries (cacheCoins c') p = None \<longrightarrow> coins c p = None)"
proof (cases "cacheCoins c" p rule: entry_cases)
  case (Some e)
  then show ?thesis
    using assms by (auto simp: FetchCoin_def same_def)
next
  case None
  obtain b' where b': "GetCoin (base c) p = (utxo (base c) p, b')" "ok b'" "utxo b' = utxo (base c)" "best b' = best (base c)"
    using GetCoin_law [of "base c" p] assms by (auto simp: cache_ok_def)
  show ?thesis
  proof (cases "utxo (base c) p")
    case no: None
    then show ?thesis
      using None b' assms by (auto simp: FetchCoin_def same_def cache_ok_def cache_utxo_def cache_best_def overlay_None)
  next
    case (Some coin)
    then have us: "\<not> IsSpent coin"
      using unspent assms by (auto simp: cache_ok_def)
    let ?c = "c\<lparr>base := b', cacheCoins := try_emplace p coin (cacheCoins c)\<rparr>"
    have "FetchCoin GetCoin p c = (entries (cacheCoins ?c) p, ?c)"
      using None Some b' us by (simp add: FetchCoin_def Let_def)
    moreover have "map_ok (utxo b') (try_emplace p coin (cacheCoins c))"
      using assms None Some us b'(3) by (simp add: cache_ok_def map_ok_try_emplace)
    moreover have "coins c p = Some coin"
      using None Some by (simp add: cache_utxo_def overlay_None)
    then have "coins ?c = coins c"
      using None b'(3) us by (simp add: cache_utxo_def fun_upd_idem)
    ultimately have "FetchCoin GetCoin p c = (entries (cacheCoins ?c) p, ?c)" "same c ?c"
      using b' by (simp_all add: same_def cache_ok_def cache_best_def)
    moreover have "entries (cacheCoins ?c) p \<noteq> None"
      by (simp add: try_emplace_def)
    ultimately show ?thesis
      by (intro exI [of _ ?c] conjI) auto
  qed
qed

lemma fetched:
  assumes "cok c"
  obtains (None) c' where "FetchCoin GetCoin p c = (None, c')" "same c c'" "coins c p = None"
    | (Some) e c' where "FetchCoin GetCoin p c = (Some e, c')" "same c c'" "entries (cacheCoins c') p = Some e" "coins c p = coin_opt (e_coin e)"
proof -
  obtain c' where c': "FetchCoin GetCoin p c = (entries (cacheCoins c') p, c')" "same c c'" "entries (cacheCoins c') p = None \<longrightarrow> coins c p = None"
    using FetchCoin_law [OF assms, of p] by auto
  show ?thesis
  proof (cases "cacheCoins c'" p rule: entry_cases)
    case none: None
    then show ?thesis
      using c' by (intro None [of c']) auto
  next
    case some: (Some e)
    have "coins c p = coins c' p"
      using c'(2) by (simp add: same_def)
    also have "\<dots> = coin_opt (e_coin e)"
      using some by (simp add: cache_utxo_def overlay_Some)
    finally show ?thesis
      using c' some by (intro Some [of e c']) auto
  qed
qed

lemma cache_GetCoin_law: "cok c \<Longrightarrow> \<exists>c'. cache_GetCoin GetCoin c p = (coins c p, c') \<and> same c c'"
  by (erule fetched [where p = p]) (auto simp: cache_GetCoin_def coin_opt_def)

lemma HaveCoin_law: "cok c \<Longrightarrow> \<exists>c'. HaveCoin GetCoin p c = (coins c p \<noteq> None, c') \<and> same c c'"
  by (erule fetched [where p = p]) (auto simp: HaveCoin_def coin_opt_def)

lemma AccessCoin_law:
  "cok c \<Longrightarrow> \<exists>coin c'. AccessCoin GetCoin p c = (coin, c') \<and> same c c' \<and> coin_opt coin = coins c p"
  by (erule fetched [where p = p]) (auto simp: AccessCoin_def)

lemma coins_unspent: "cok c \<Longrightarrow> coins c p = Some coin \<Longrightarrow> \<not> IsSpent coin"
  using unspent by (auto simp: cache_utxo_def overlay_def cache_ok_def coin_opt_def split: option.splits if_splits)

lemma cache_GetBestBlock_law:
  assumes "cok c"
  shows "\<exists>c'. cache_GetBestBlock GetBestBlock c = (cache_best best c, c') \<and> cok c' \<and> coins c' = coins c \<and>
    cache_best best c' = cache_best best c"
proof (cases "hashBlock c = uint256_ZERO")
  case True
  obtain b' where "GetBestBlock (base c) = (best (base c), b')" "ok b'" "utxo b' = utxo (base c)" "best b' = best (base c)"
    using GetBestBlock_law [of "base c"] assms by (auto simp: cache_ok_def)
  then show ?thesis
    using True assms by (auto simp: cache_GetBestBlock_def cache_best_def cache_ok_def cache_utxo_def)
qed (use assms in \<open>simp add: cache_GetBestBlock_def cache_best_def\<close>)

text \<open>A cache over a view is a view.\<close>

lemma cache_view: "coins_view (cache_GetCoin GetCoin) (cache_GetBestBlock GetBestBlock) coins (cache_best best) cok"
proof
  show "cok c \<Longrightarrow> \<exists>c'. cache_GetCoin GetCoin c p = (coins c p, c') \<and> cok c' \<and> coins c' = coins c \<and> cache_best best c' = cache_best best c" for c p
    using cache_GetCoin_law [of c p] by (auto simp: same_def)
qed (use cache_GetBestBlock_law coins_unspent in blast)+

text \<open>A change of one entry of the map.\<close>

lemma updated:
  assumes "cok c" "well_linked m" "view m = (view (cacheCoins c))(k := x)" "\<And>e. x = Some e \<Longrightarrow> entry_ok (utxo (base c)) k e"
  shows "cok (c\<lparr>cacheCoins := m\<rparr>)"
    "coins (c\<lparr>cacheCoins := m\<rparr>) = (coins c)(k := case x of None \<Rightarrow> utxo (base c) k | Some (coin, _) \<Rightarrow> coin_opt coin)"
proof -
  have "map_ok (utxo (base c)) m"
    by (rule map_ok_update [OF _ assms(2,3,4)]) (use assms(1) in \<open>simp add: cache_ok_def\<close>)
  then show "cok (c\<lparr>cacheCoins := m\<rparr>)"
    using assms(1) by (simp add: cache_ok_def)
  show "coins (c\<lparr>cacheCoins := m\<rparr>) = (coins c)(k := case x of None \<Rightarrow> utxo (base c) k | Some (coin, _) \<Rightarrow> coin_opt coin)"
    by (cases x) (auto simp: cache_utxo_def assms(3))
qed

lemma SpendCoin_law:
  assumes "cok c"
  shows "\<exists>c' r. SpendCoin GetCoin p c = (r, c') \<and> cok c' \<and> coins c' = (coins c)(p := None) \<and> hashBlock c' = hashBlock c \<and>
    cache_best best c' = cache_best best c \<and> (case r of None \<Rightarrow> None | Some coin \<Rightarrow> coin_opt coin) = coins c p"
proof (cases rule: fetched [OF assms, of p, case_names None Some])
  case (None c')
  then show ?thesis
    by (intro exI [of _ c'] exI [of _ None]) (auto simp: SpendCoin_def same_def)
next
  case (Some e c1)
  let ?m = "if IsFresh e then map_erase p (cacheCoins c1) else set_coin p coinEmpty (SetDirty p (cacheCoins c1))"
  have c1: "cok c1" "coins c1 = coins c" "cache_best best c1 = cache_best best c" "hashBlock c1 = hashBlock c"
    using Some(2) by (simp_all add: same_def)
  have v: "view (cacheCoins c1) p = Some (e_coin e, IsDirty e, IsFresh e)"
    using Some(3) by (simp add: view_def)
  have m: "view ?m = (view (cacheCoins c1))(p := if IsFresh e then None else Some (coinEmpty, True, False))"
    using v by auto
  have ok1: "map_ok (utxo (base c1)) (cacheCoins c1)"
    using c1(1) by (simp add: cache_ok_def)
  then have w: "well_linked ?m"
    using map_okD(1) [OF ok1] v by (simp add: well_linked_ops)
  have fresh: "IsFresh e \<Longrightarrow> utxo (base c1) p = None"
    using map_okD(2) [OF ok1 v] by (simp add: entry_ok_def)
  note u = updated [OF c1(1) w m]
  have "cok (c1\<lparr>cacheCoins := ?m\<rparr>)"
    by (rule u) (auto split: if_splits)
  moreover have "coins (c1\<lparr>cacheCoins := ?m\<rparr>) = (coins c)(p := None)"
    using fresh c1(2) by (subst u(2)) (auto split: if_splits)
  ultimately show ?thesis
    using Some c1 by (intro exI [of _ "c1\<lparr>cacheCoins := ?m\<rparr>"] exI [of _ "Some (e_coin e)"]) (auto simp: SpendCoin_def cache_best_def)
qed

lemma linked_cok: "cok c \<Longrightarrow> well_linked (cacheCoins c)" and entries_cok: "cok c \<Longrightarrow> view (cacheCoins c) k = Some e \<Longrightarrow> entry_ok (utxo (base c)) k e"
  unfolding cache_ok_def by (metis map_okD(1), metis map_okD(2))

lemma AddCoin_law:
  assumes "cok c" "\<not> IsSpent coin" "\<not> overwrite \<Longrightarrow> coins c p = None"
  shows "\<exists>c'. AddCoin p coin overwrite c = Inr c' \<and> cok c' \<and> hashBlock c' = hashBlock c \<and> cache_best best c' = cache_best best c \<and>
    coins c' = (if IsUnspendable (txout_scriptPubKey (coin_out coin)) then coins c else (coins c)(p \<mapsto> coin))"
proof (cases "IsUnspendable (txout_scriptPubKey (coin_out coin))")
  case False
  define m where "m = try_emplace p coinEmpty (cacheCoins c)"
  obtain it where it: "entries m p = Some it"
    by (cases "entries m p") (auto simp: m_def try_emplace_def split: if_splits)
  have v: "view m p = Some (e_coin it, IsDirty it, IsFresh it)"
    using it by (simp add: view_def)
  have old: "view (cacheCoins c) p = None \<and> it = CCoinsCacheEntry_new coinEmpty \<or> view (cacheCoins c) p = view m p"
    using it by (auto simp: m_def try_emplace_def view_def split: if_splits)
  have spent: "IsSpent (e_coin it)" if "\<not> overwrite"
    using old assms(3) [OF that] v by (auto simp: CCoinsCacheEntry_new_def cache_utxo_def overlay_def coin_opt_def split: if_splits)
  let ?fresh = "\<not> overwrite \<and> \<not> IsDirty it"
  let ?m = "if ?fresh then SetFresh p (SetDirty p (set_coin p coin m)) else SetDirty p (set_coin p coin m)"
  have add: "AddCoin p coin overwrite c = Inr (c\<lparr>cacheCoins := ?m\<rparr>)"
    using assms(2) False it spent by (auto simp: AddCoin_def m_def Let_def)
  have w: "well_linked m"
    unfolding m_def by (rule well_linked_ops(6) [OF linked_cok [OF assms(1)]])
  have "well_linked ?m"
    using v by (auto intro!: well_linked_ops w)
  moreover have "view ?m = (view (cacheCoins c))(p := Some (coin, True, IsFresh it \<or> ?fresh))"
    using v by (auto simp: m_def fun_eq_iff split: if_splits)
  moreover have "utxo (base c) p = None" if "IsFresh it \<or> ?fresh"
  proof (cases "view (cacheCoins c) p = None")
    case True
    then have "overwrite \<or> utxo (base c) p = None"
      using assms(3) True by (cases overwrite) (simp_all add: cache_utxo_def overlay_def)
    then show ?thesis
      using that old v True by (auto simp: CCoinsCacheEntry_new_def)
  next
    case False
    then have "entry_ok (utxo (base c)) p (e_coin it, IsDirty it, IsFresh it)"
      using old v entries_cok [OF assms(1), of p] by auto
    then show ?thesis
      using that spent by (auto simp: entry_ok_def)
  qed
  then have "entry_ok (utxo (base c)) p (coin, True, IsFresh it \<or> ?fresh)"
    using assms(2) by (auto simp: entry_ok_def)
  ultimately show ?thesis
    using updated [OF assms(1), of ?m p "Some (coin, True, IsFresh it \<or> ?fresh)"] add False assms(2)
    by (intro exI [of _ "c\<lparr>cacheCoins := ?m\<rparr>"] conjI) (simp_all add: cache_best_def)
qed (use assms in \<open>simp add: AddCoin_def\<close>)

lemma Uncache_law:
  assumes "cok c"
  shows "cok (Uncache p c) \<and> coins (Uncache p c) = coins c \<and> hashBlock (Uncache p c) = hashBlock c \<and> base (Uncache p c) = base c"
proof (cases "cacheCoins c" p rule: entry_cases)
  case (Some e)
  show ?thesis
  proof (cases "\<not> IsDirty e \<and> \<not> IsFresh e")
    case True
    then have e: "utxo (base c) p = Some (e_coin e)" "\<not> IsSpent (e_coin e)"
      using entries_cok [OF assms Some(2)] by auto
    have "well_linked (map_erase p (cacheCoins c))"
      by (rule well_linked_ops(5) [OF linked_cok [OF assms]])
    note u = updated [OF assms this, of p None]
    have "coins c p = Some (e_coin e)"
      using Some(2) e by (simp add: cache_utxo_def overlay_def)
    then show ?thesis
      using u True Some e by (simp add: Uncache_def fun_upd_idem)
  qed (use Some assms in \<open>auto simp: Uncache_def\<close>)
qed (use assms in \<open>simp add: Uncache_def\<close>)

end


section \<open>The cursor\<close>

text \<open>What the receiver of a batch promises for one entry, and what the loop makes of it.\<close>

locale coins_writer =
  fixes write_entry :: "'p \<Rightarrow> COutPoint \<Rightarrow> CCoinsCacheEntry \<Rightarrow> coins_error + 'p" and utxo :: "'p \<Rightarrow> COutPoint \<Rightarrow> Coin option" and ok :: "'p \<Rightarrow> bool"
  assumes write_law: "ok p \<Longrightarrow> (IsFresh e \<Longrightarrow> utxo p k = None) \<Longrightarrow>
    \<exists>p'. write_entry p k e = Inr p' \<and> ok p' \<and> utxo p' = (if IsDirty e then (utxo p)(k := coin_opt (e_coin e)) else utxo p)"

definition written :: "(COutPoint \<Rightarrow> (Coin \<times> bool \<times> bool) option) \<Rightarrow> COutPoint list \<Rightarrow> (COutPoint \<Rightarrow> Coin option) \<Rightarrow> COutPoint \<Rightarrow> Coin option" where
  "written V xs U k = (case V k of Some (coin, dirty, _) \<Rightarrow> if k \<in> set xs \<and> dirty then coin_opt coin else U k | None \<Rightarrow> U k)"

lemma written_simps [simp]:
  "written V [] U = U"
  "x \<notin> set xs \<Longrightarrow> written (V(x := y)) xs U = written V xs U"
  "V x = Some (coin, d, f) \<Longrightarrow> x \<notin> set xs \<Longrightarrow> written V xs (if d then U(x := coin_opt coin) else U) = written V (x # xs) U"
  by (auto simp: written_def fun_eq_iff split: option.split)

text \<open>Without erasing, every entry that was reached is clean or gone.\<close>

definition cleaned :: "COutPoint list \<Rightarrow> (COutPoint \<Rightarrow> (Coin \<times> bool \<times> bool) option) \<Rightarrow> COutPoint \<Rightarrow> (Coin \<times> bool \<times> bool) option" where
  "cleaned xs V k = (if k \<in> set xs then (case V k of Some (coin, _) \<Rightarrow> if IsSpent coin then None else Some (coin, False, False) | None \<Rightarrow> None) else V k)"

lemma cleaned_simps [simp]:
  "cleaned [] V = V"
  "V x = Some (coin, d, f) \<Longrightarrow> x \<notin> set xs \<Longrightarrow> cleaned xs (V(x := if IsSpent coin then None else Some (coin, False, False))) = cleaned (x # xs) V"
  by (auto simp: cleaned_def fun_eq_iff split: option.split)

lemma seg_next: "seg N P a xs b \<Longrightarrow> N a = hd (map Entry xs @ [b])"
  by (cases xs) auto

definition writable :: "(COutPoint \<Rightarrow> Coin option) \<Rightarrow> CCoinsMap \<Rightarrow> COutPoint \<Rightarrow> bool" where
  "writable U m k \<longleftrightarrow> (\<exists>coin d f. view m k = Some (coin, d, f) \<and> (f \<longrightarrow> U k = None))"

context coins_writer
begin

lemma step:
  assumes "ok p" "writable (utxo p) m x" "x \<notin> set xs" "\<forall>k \<in> set xs. writable (utxo p) m k"
  shows "\<exists>e p'. entries m x = Some e \<and> write_entry p x e = Inr p' \<and> ok p' \<and> written (view m) xs (utxo p') = written (view m) (x # xs) (utxo p) \<and>
    (\<forall>k \<in> set xs. writable (utxo p') m k)"
proof -
  obtain e where e: "entries m x = Some e" "IsFresh e \<longrightarrow> utxo p x = None"
    using assms(2) by (auto simp: writable_def view_Some)
  have v: "view m x = Some (e_coin e, IsDirty e, IsFresh e)"
    using e by (simp add: view_def)
  obtain p1 where p1: "write_entry p x e = Inr p1" "ok p1" "utxo p1 = (if IsDirty e then (utxo p)(x := coin_opt (e_coin e)) else utxo p)"
    using write_law [of p e x] assms(1) e(2) by auto
  have "writable (utxo p1) m k" if "k \<in> set xs" for k
    using assms(3,4) that by (auto simp: writable_def p1(3))
  then show ?thesis
    using e p1 written_simps(3) [of "view m" x, OF v assms(3), of "utxo p"] by auto
qed

lemma cursor_loop_erase:
  assumes "seg (get_next m) (get_prev m) a xs Sentinel" "distinct xs" "ok p" "\<forall>k \<in> set xs. writable (utxo p) m k"
  shows "\<exists>p'. cursor_loop write_entry True (get_next m a) m p = Some (Inr (p', m)) \<and> ok p' \<and> utxo p' = written (view m) xs (utxo p)"
  using assms
proof (induction xs arbitrary: a p)
  case Nil
  then show ?case
    by (simp add: cursor_loop.simps)
next
  case (Cons x xs)
  obtain e p1 where p1: "entries m x = Some e" "write_entry p x e = Inr p1" "ok p1" "written (view m) xs (utxo p1) = written (view m) (x # xs) (utxo p)"
      "\<forall>k \<in> set xs. writable (utxo p1) m k"
    using step [of p m x xs] Cons.prems by auto
  then obtain p' where "cursor_loop write_entry True (get_next m (Entry x)) m p1 = Some (Inr (p', m))" "ok p'" "utxo p' = written (view m) xs (utxo p1)"
    using Cons.IH [of "Entry x" p1] Cons.prems(1,2) by auto
  moreover have "cursor_loop write_entry True (get_next m a) m p = cursor_loop write_entry True (get_next m (Entry x)) m p1"
    using Cons.prems(1) p1 by (subst cursor_loop.simps) (simp add: NextAndMaybeErase_def)
  ultimately show ?case
    using p1(4) by auto
qed

lemma cursor_loop_keep:
  assumes "linked m xs" "ok p" "\<forall>k \<in> set xs. writable (utxo p) m k"
  shows "\<exists>p' m'. cursor_loop write_entry False (get_next m Sentinel) m p = Some (Inr (p', m')) \<and> ok p' \<and> utxo p' = written (view m) xs (utxo p) \<and>
    linked m' [] \<and> view m' = cleaned xs (view m)"
  using assms
proof (induction xs arbitrary: m p)
  case Nil
  then show ?case
    by (simp add: cursor_loop.simps linked_def)
next
  case (Cons x xs)
  have seg: "get_next m Sentinel = Entry x" "seg (get_next m) (get_prev m) (Entry x) xs Sentinel" and x: "x \<notin> set xs"
    using Cons.prems(1) by (auto simp: linked_def)
  obtain e p1 where p1: "entries m x = Some e" "write_entry p x e = Inr p1" "ok p1" "written (view m) xs (utxo p1) = written (view m) (x # xs) (utxo p)"
      "\<forall>k \<in> set xs. writable (utxo p1) m k"
    using step [of p m x xs] Cons.prems x by auto
  have v: "view m x = Some (e_coin e, IsDirty e, IsFresh e)"
    using p1(1) by (simp add: view_def)
  define m1 where "m1 = (if IsSpent (e_coin e) then map_erase x m else SetClean x m)"
  have l1: "linked m1 xs"
    using linked_map_erase [OF Cons.prems(1), of x] linked_SetClean [OF Cons.prems(1), of x] by (simp add: m1_def)
  then have next1: "get_next m (Entry x) = get_next m1 Sentinel"
    using seg_next [OF seg(2)] seg_next [of "get_next m1" "get_prev m1" Sentinel xs Sentinel] by (simp add: linked_def)
  have v1: "view m1 = (view m)(x := if IsSpent (e_coin e) then None else Some (e_coin e, False, False))"
    using v by (simp add: m1_def)
  have "\<forall>k \<in> set xs. writable (utxo p1) m1 k"
    using p1(5) x by (auto simp: writable_def v1)
  from Cons.IH [OF l1 p1(3) this] obtain p' m' where ih: "cursor_loop write_entry False (get_next m1 Sentinel) m1 p1 = Some (Inr (p', m'))"
    "ok p'" "utxo p' = written (view m1) xs (utxo p1)" "linked m' []" "view m' = cleaned xs (view m1)"
    by auto
  have "cursor_loop write_entry False (get_next m Sentinel) m p = cursor_loop write_entry False (get_next m1 Sentinel) m1 p1"
    using seg p1 next1 by (subst cursor_loop.simps) (simp add: NextAndMaybeErase_def m1_def)
  then show ?case
    using ih p1(4) x v cleaned_simps(2) [of "view m" x, OF v x] unfolding v1 by auto
qed

end


section \<open>Views that can be written to\<close>

locale coins_backend = coins_view GetCoin GetBestBlock utxo best ok
  for GetCoin :: "'b GetCoin_op" and GetBestBlock :: "'b \<Rightarrow> uint256 \<times> 'b"
    and utxo :: "'b \<Rightarrow> COutPoint \<Rightarrow> Coin option" and best :: "'b \<Rightarrow> uint256" and ok :: "'b \<Rightarrow> bool" +
  fixes BatchWrite :: "'b BatchWrite_op"
  assumes BatchWrite_erase: "ok b \<Longrightarrow> h \<noteq> uint256_ZERO \<Longrightarrow> linked m xs \<Longrightarrow> \<forall>k \<in> set xs. writable (utxo b) m k \<Longrightarrow>
      \<exists>b'. BatchWrite b h True m = Some (Inr (True, b', m)) \<and> ok b' \<and> utxo b' = written (view m) xs (utxo b) \<and> best b' = h"
    and BatchWrite_keep: "ok b \<Longrightarrow> h \<noteq> uint256_ZERO \<Longrightarrow> linked m xs \<Longrightarrow> \<forall>k \<in> set xs. writable (utxo b) m k \<Longrightarrow>
      \<exists>b' m'. BatchWrite b h False m = Some (Inr (True, b', m')) \<and> ok b' \<and> utxo b' = written (view m) xs (utxo b) \<and> best b' = h \<and>
        linked m' [] \<and> view m' = cleaned xs (view m)"

context coins_view
begin

lemma cache_write_entry_law:
  assumes "cok c" "IsFresh e \<Longrightarrow> coins c k = None"
  shows "\<exists>c'. cache_write_entry c k e = Inr c' \<and> cok c' \<and> coins c' = (if IsDirty e then (coins c)(k := coin_opt (e_coin e)) else coins c)"
proof (cases "IsDirty e")
  case True
  show ?thesis
  proof (cases "cacheCoins c" k rule: entry_cases)
    case None
    have U: "coins c k = utxo (base c) k"
      using None by (simp add: cache_utxo_def overlay_None)
    show ?thesis
    proof (cases "IsFresh e \<and> IsSpent (e_coin e)")
      case spent: True
      then show ?thesis
        using assms None True by (auto simp: cache_write_entry_def fun_upd_idem)
    next
      case False
      let ?m = "set_coin k (e_coin e) (try_emplace k coinEmpty (cacheCoins c))"
      let ?m' = "if IsFresh e then SetFresh k (SetDirty k ?m) else SetDirty k ?m"
      have "view ?m k \<noteq> None" "view (SetDirty k ?m) k \<noteq> None"
        using None by simp_all
      then have w: "well_linked ?m'"
        by (auto intro!: well_linked_ops linked_cok [OF assms(1)])
      have v: "view ?m' = (view (cacheCoins c))(k := Some (e_coin e, True, IsFresh e))"
        using None by (auto simp: fun_eq_iff)
      have "entry_ok (utxo (base c)) k (e_coin e, True, IsFresh e)"
        using assms(2) False U by (auto simp: entry_ok_def)
      then have "cok (c\<lparr>cacheCoins := ?m'\<rparr>)" "coins (c\<lparr>cacheCoins := ?m'\<rparr>) = (coins c)(k := coin_opt (e_coin e))"
        using updated [OF assms(1) w v] by simp_all
      moreover have "cache_write_entry c k e = Inr (c\<lparr>cacheCoins := ?m'\<rparr>)"
        using True None False by (auto simp: cache_write_entry_def Let_def)
      ultimately show ?thesis
        using True by auto
    qed
  next
    case (Some us)
    have us: "coins c k = coin_opt (e_coin us)"
      using Some by (simp add: cache_utxo_def overlay_Some)
    then have ne: "\<not> (IsFresh e \<and> \<not> IsSpent (e_coin us))"
      using assms(2) by (auto simp: coin_opt_def split: if_splits)
    have fresh: "IsFresh us \<Longrightarrow> utxo (base c) k = None"
      using entries_cok [OF assms(1) Some(2)] by (simp add: entry_ok_def)
    show ?thesis
    proof (cases "IsFresh us \<and> IsSpent (e_coin e)")
      case spent: True
      have "well_linked (map_erase k (cacheCoins c))"
        by (rule well_linked_ops(5) [OF linked_cok [OF assms(1)]])
      from updated [OF assms(1) this, of k None]
      show ?thesis
        using True Some ne spent fresh by (auto simp: cache_write_entry_def)
    next
      case False
      let ?m = "SetDirty k (set_coin k (e_coin e) (cacheCoins c))"
      have "view (set_coin k (e_coin e) (cacheCoins c)) k \<noteq> None"
        using Some by simp
      then have w: "well_linked ?m"
        by (auto intro!: well_linked_ops linked_cok [OF assms(1)])
      have v: "view ?m = (view (cacheCoins c))(k := Some (e_coin e, True, IsFresh us))"
        using Some by (simp add: fun_eq_iff)
      have "entry_ok (utxo (base c)) k (e_coin e, True, IsFresh us)"
        using fresh False by (auto simp: entry_ok_def)
      then have "cok (c\<lparr>cacheCoins := ?m\<rparr>)" "coins (c\<lparr>cacheCoins := ?m\<rparr>) = (coins c)(k := coin_opt (e_coin e))"
        using updated [OF assms(1) w v] by simp_all
      moreover have "cache_write_entry c k e = Inr (c\<lparr>cacheCoins := ?m\<rparr>)"
        using True Some ne False by (auto simp: cache_write_entry_def)
      ultimately show ?thesis
        using True by auto
    qed
  qed
qed (use assms in \<open>simp add: cache_write_entry_def\<close>)

lemma cache_writer: "coins_writer cache_write_entry coins cok"
  by unfold_locales (rule cache_write_entry_law)

lemma cache_backend:
  "coins_backend (cache_GetCoin GetCoin) (cache_GetBestBlock GetBestBlock) coins (cache_best best) cok cache_BatchWrite"
proof (rule coins_backend.intro [OF cache_view])
  have hash: "cok (c\<lparr>hashBlock := h\<rparr>) = cok c" "coins (c\<lparr>hashBlock := h\<rparr>) = coins c"
    "h \<noteq> uint256_ZERO \<Longrightarrow> cache_best best (c\<lparr>hashBlock := h\<rparr>) = h" for c h
    by (simp_all add: cache_ok_def cache_utxo_def cache_best_def)
  show "coins_backend_axioms coins (cache_best best) cok cache_BatchWrite"
  proof (unfold_locales, goal_cases)
    case (1 b h m xs)
    then show ?case
      using coins_writer.cursor_loop_erase [OF cache_writer, of m Sentinel xs b] by (auto simp: linked_def cache_BatchWrite_def hash)
  next
    case (2 b h m xs)
    then show ?case
      using coins_writer.cursor_loop_keep [OF cache_writer, of m xs b] by (auto simp: cache_BatchWrite_def hash)
  qed
qed

end

lemma written_overlay:
  assumes "map_ok U m" "linked m xs"
  shows "written (view m) xs U = overlay (view m) U"
proof
  fix k
  show "written (view m) xs U k = overlay (view m) U k"
  proof (cases "view m k")
    case (Some e)
    obtain coin d f where e: "e = (coin, d, f)"
      by (cases e)
    have "d \<Longrightarrow> k \<in> set xs" "\<not> d \<Longrightarrow> coin_opt coin = U k"
      using assms(2) Some map_okD(2) [OF assms(1) Some] by (auto simp: linked_def has_flags_view e entry_ok_def)
    then show ?thesis
      by (cases d) (simp_all add: written_def overlay_def Some e)
  qed (simp add: written_def overlay_def)
qed

lemma map_ok_writable:
  assumes "map_ok U m" "linked m xs"
  shows "\<forall>k \<in> set xs. writable U m k"
proof
  fix k
  assume "k \<in> set xs"
  then obtain coin d f where v: "view m k = Some (coin, d, f)"
    using assms(2) by (auto simp: linked_def has_flags_view)
  show "writable U m k"
    using map_okD(2) [OF assms(1) v] v by (simp add: writable_def entry_ok_def)
qed

lemma map_ok_cleaned:
  assumes "map_ok U m" "linked m xs" "linked m' []" "view m' = cleaned xs (view m)"
  shows "map_ok (overlay (view m) U) m'" "overlay (view m') (overlay (view m) U) = overlay (view m) U"
proof -
  have clean: "\<not> d \<and> \<not> f \<and> \<not> IsSpent coin \<and> overlay (view m) U k = Some coin" if "view m' k = Some (coin, d, f)" for k coin d f
  proof (cases "k \<in> set xs")
    case True
    then obtain coin' d' f' where "view m k = Some (coin', d', f')"
      using assms(2) by (auto simp: linked_def has_flags_view)
    then show ?thesis
      using that True by (auto simp: assms(4) cleaned_def overlay_def split: if_splits)
  next
    case False
    then have v: "view m k = Some (coin, d, f)" "\<not> d" "\<not> f"
      using that assms(2) by (auto simp: assms(4) cleaned_def linked_def has_flags_view)
    then show ?thesis
      using map_okD(2) [OF assms(1) v(1)] by (auto simp: overlay_def entry_ok_def)
  qed
  have "well_linked m'"
    using assms(3) by (auto simp: well_linked_def)
  then show "map_ok (overlay (view m) U) m'"
  proof (rule map_okI)
    show "entry_ok (overlay (view m) U) k e" if "view m' k = Some e" for k e
      using clean [of k "fst e" "fst (snd e)" "snd (snd e)"] that by (cases e) (auto simp: entry_ok_def)
  qed
  show "overlay (view m') (overlay (view m) U) = overlay (view m) U"
  proof
    show "overlay (view m') (overlay (view m) U) k = overlay (view m) U k" for k
      using clean [of k] by (cases "view m' k") (auto simp: overlay_def [of "view m'"])
  qed
qed

context coins_backend
begin

lemma Flush_law:
  assumes "cok c" "hashBlock c \<noteq> uint256_ZERO"
  shows "\<exists>c'. Flush BatchWrite c = Some (Inr (True, c')) \<and> cok c' \<and> coins c' = coins c \<and> hashBlock c' = hashBlock c \<and>
    utxo (base c') = coins c \<and> best (base c') = hashBlock c"
proof -
  have ok: "ok (base c)" "map_ok (utxo (base c)) (cacheCoins c)"
    using assms(1) by (simp_all add: cache_ok_def)
  obtain xs where xs: "linked (cacheCoins c) xs"
    using map_okD(1) [OF ok(2)] by (auto simp: well_linked_def)
  obtain b' where b': "BatchWrite (base c) (hashBlock c) True (cacheCoins c) = Some (Inr (True, b', cacheCoins c))" "ok b'" "utxo b' = coins c" "best b' = hashBlock c"
    using BatchWrite_erase [OF ok(1) assms(2) xs map_ok_writable [OF ok(2) xs]] by (auto simp: written_overlay [OF ok(2) xs] cache_utxo_def)
  have "map_ok (coins c) CCoinsMap_new"
    by (rule map_okI) auto
  then show ?thesis
    using b' by (auto simp: Flush_def cache_ok_def cache_utxo_def [of _ "c\<lparr>base := b', cacheCoins := CCoinsMap_new\<rparr>"])
qed

lemma Sync_law:
  assumes "cok c" "hashBlock c \<noteq> uint256_ZERO"
  shows "\<exists>c'. Sync BatchWrite c = Some (Inr (True, c')) \<and> cok c' \<and> coins c' = coins c \<and> hashBlock c' = hashBlock c \<and>
    utxo (base c') = coins c \<and> best (base c') = hashBlock c"
proof -
  have ok: "ok (base c)" "map_ok (utxo (base c)) (cacheCoins c)"
    using assms(1) by (simp_all add: cache_ok_def)
  obtain xs where xs: "linked (cacheCoins c) xs"
    using map_okD(1) [OF ok(2)] by (auto simp: well_linked_def)
  obtain b' m' where b': "BatchWrite (base c) (hashBlock c) False (cacheCoins c) = Some (Inr (True, b', m'))" "ok b'" "utxo b' = coins c" "best b' = hashBlock c"
    and m': "linked m' []" "view m' = cleaned xs (view (cacheCoins c))"
    using BatchWrite_keep [OF ok(1) assms(2) xs map_ok_writable [OF ok(2) xs]] by (auto simp: written_overlay [OF ok(2) xs] cache_utxo_def)
  have "Sync BatchWrite c = Some (Inr (True, c\<lparr>base := b', cacheCoins := m'\<rparr>))"
    using b' m'(1) by (simp add: Sync_def linked_def)
  moreover note map_ok_cleaned [OF ok(2) xs m']
  ultimately show ?thesis
    using b' by (intro exI [of _ "c\<lparr>base := b', cacheCoins := m'\<rparr>"] conjI) (simp_all add: cache_ok_def cache_utxo_def)
qed

end


section \<open>The sanity check never fails\<close>

lemma sanity_loop_seg:
  assumes "seg (get_next m) (get_prev m) a xs Sentinel" "\<forall>k \<in> set xs. has_flags m k"
  shows "sanity_loop (get_next m a) m n = Some (Inr (n + length xs))"
  using assms
proof (induction xs arbitrary: a n)
  case Nil
  then show ?case
    by (simp add: sanity_loop.simps)
next
  case (Cons x xs)
  have x: "get_next m a = Entry x" "get_prev m (Entry x) = a" "seg (get_next m) (get_prev m) (Entry x) xs Sentinel"
    using Cons.prems(1) by (simp_all del: get_next.simps get_prev.simps)
  then have "get_prev m (get_next m (Entry x)) = Entry x"
    by (cases xs) (simp_all del: get_next.simps get_prev.simps)
  then have "sanity_loop (Entry x) m n = sanity_loop (get_next m (Entry x)) m (Suc n)"
    using x Cons.prems(2) by (subst sanity_loop.simps) (simp del: get_next.simps get_prev.simps)
  then show ?case
    using Cons.IH [OF x(3), of "Suc n"] Cons.prems(2) x(1) by simp
qed

lemma SanityCheck_map_ok:
  assumes "map_ok U (cacheCoins c)"
  shows "SanityCheck c"
proof -
  obtain xs where xs: "distinct xs" "set xs = {k. has_flags (cacheCoins c) k}" "seg (get_next (cacheCoins c)) (get_prev (cacheCoins c)) Sentinel xs Sentinel"
    using map_okD(1) [OF assms] by (auto simp: well_linked_def linked_def)
  have "attr_ok e" if "entries (cacheCoins c) k = Some e" for k e
  proof -
    have "entry_ok U k (e_coin e, IsDirty e, IsFresh e)"
      using that by (intro map_okD(2) [OF assms]) (simp add: view_def)
    then show ?thesis
      by (auto simp: attr_ok_def entry_ok_def)
  qed
  moreover have "length xs = card {k. has_flags (cacheCoins c) k}"
    using xs(1,2) distinct_card by metis
  ultimately show ?thesis
    using sanity_loop_seg [OF xs(3), of 0] xs(2) by (auto simp: SanityCheck_def ran_def)
qed


section \<open>The caches of the node\<close>

text \<open>The database, the cache of the active chain over it, and a cache over that.\<close>

definition db_best :: "CCoinsViewDB \<Rightarrow> uint256" where
  "db_best db = fst (db_GetBestBlock db)"

definition db_ok :: "CCoinsViewDB \<Rightarrow> bool" where
  "db_ok db \<longleftrightarrow> DB_HEAD_BLOCKS db = None \<and> (\<forall>p coin. DB_COIN db p = Some coin \<longrightarrow> \<not> IsSpent coin)"

definition pending :: "CCoinsViewDB \<times> batch_op list \<Rightarrow> COutPoint \<Rightarrow> Coin option" where
  "pending p = DB_COIN (WriteBatch (snd p) (fst p))"

lemma db_writer:
  "coins_writer (db_write_entry ApproximateSize limit) pending (\<lambda>p. \<forall>k coin. pending p k = Some coin \<longrightarrow> \<not> IsSpent coin)"
proof (unfold_locales, goal_cases)
  case (1 p e k)
  obtain db batch where p: "p = (db, batch)"
    by (cases p)
  let ?batch = "if IsDirty e then batch @ [if IsSpent (e_coin e) then EraseCoin k else WriteCoin k (e_coin e)] else batch"
  have "DB_COIN (WriteBatch ?batch db) = (if IsDirty e then (pending p)(k := coin_opt (e_coin e)) else pending p)"
    by (simp add: p pending_def WriteBatch_def)
  then have "pending (db, ?batch) = (if IsDirty e then (pending p)(k := coin_opt (e_coin e)) else pending p)"
    "pending (WriteBatch ?batch db, []) = (if IsDirty e then (pending p)(k := coin_opt (e_coin e)) else pending p)"
    by (simp_all add: pending_def WriteBatch_def)
  moreover have "db_write_entry ApproximateSize limit p k e = (if ApproximateSize ?batch > limit then Inr (WriteBatch ?batch db, []) else Inr (db, ?batch))"
    by (simp add: db_write_entry_def p Let_def)
  ultimately show ?case
    using 1(1) by (auto simp: coin_opt_def split: if_splits)
qed

interpretation db: coins_backend db_GetCoin db_GetBestBlock DB_COIN db_best db_ok "db_BatchWrite ApproximateSize limit"
  for ApproximateSize :: "batch_op list \<Rightarrow> nat" and limit :: nat
proof (unfold_locales, goal_cases)
  case (4 b h m xs)
  let ?p = "(b, [BestBlock None, HeadBlocks (Some [h, db_best b])])"
  have p: "pending ?p = DB_COIN b"
    by (simp add: pending_def WriteBatch_def)
  have ok: "\<forall>k coin. pending ?p k = Some coin \<longrightarrow> \<not> IsSpent coin"
    using 4(1) by (simp add: p db_ok_def)
  show ?case
    using coins_writer.cursor_loop_erase [OF db_writer, of m Sentinel xs ?p ApproximateSize limit] ok 4
    by (auto simp: p linked_def db_BatchWrite_def Let_def db_ok_def db_best_def pending_def WriteBatch_def db_GetBestBlock_def)
next
  case (5 b h m xs)
  let ?p = "(b, [BestBlock None, HeadBlocks (Some [h, db_best b])])"
  have p: "pending ?p = DB_COIN b"
    by (simp add: pending_def WriteBatch_def)
  have ok: "\<forall>k coin. pending ?p k = Some coin \<longrightarrow> \<not> IsSpent coin"
    using 5(1) by (simp add: p db_ok_def)
  show ?case
    using coins_writer.cursor_loop_keep [OF db_writer, of m xs ?p ApproximateSize limit] ok 5
    by (auto simp: p db_BatchWrite_def Let_def db_ok_def db_best_def pending_def WriteBatch_def db_GetBestBlock_def)
qed (auto simp: db_GetCoin_def db_GetBestBlock_def db_best_def db_ok_def)

text \<open>The cache of the active chain is a view for the caches over it.\<close>

interpretation tip: coins_backend "cache_GetCoin db_GetCoin" "cache_GetBestBlock db_GetBestBlock" "cache_utxo DB_COIN" "cache_best db_best"
  "cache_ok DB_COIN db_ok" cache_BatchWrite
  by (rule db.cache_backend)


section \<open>Sequences of operations\<close>

text \<open>Operations of a user of a cache, their results, and what they mean for a map of unspent coins.\<close>

datatype coins_op =
  Have COutPoint | Access COutPoint | Add COutPoint Coin bool | Spend COutPoint | Forget COutPoint | Best uint256 | FlushAll | SyncAll

datatype coins_result = Done | Found bool | Got "Coin option"

definition coins_run ::
  "'b GetCoin_op \<Rightarrow> 'b BatchWrite_op \<Rightarrow> coins_op \<Rightarrow> 'b CCoinsViewCache \<Rightarrow> (coins_error + coins_result \<times> 'b CCoinsViewCache) option" where
  "coins_run GetCoin BatchWrite op c = (case op of
     Have p \<Rightarrow> (case HaveCoin GetCoin p c of (r, c) \<Rightarrow> Some (Inr (Found r, c)))
   | Access p \<Rightarrow> (case AccessCoin GetCoin p c of (coin, c) \<Rightarrow> Some (Inr (Got (coin_opt coin), c)))
   | Add p coin overwrite \<Rightarrow> (case AddCoin p coin overwrite c of Inl e \<Rightarrow> Some (Inl e) | Inr c \<Rightarrow> Some (Inr (Done, c)))
   | Spend p \<Rightarrow> (case SpendCoin GetCoin p c of (r, c) \<Rightarrow> Some (Inr (Got (case r of None \<Rightarrow> None | Some coin \<Rightarrow> coin_opt coin), c)))
   | Forget p \<Rightarrow> Some (Inr (Done, Uncache p c))
   | Best h \<Rightarrow> Some (Inr (Done, SetBestBlock h c))
   | FlushAll \<Rightarrow> (case Flush BatchWrite c of None \<Rightarrow> None | Some (Inl e) \<Rightarrow> Some (Inl e) | Some (Inr (r, c)) \<Rightarrow> Some (Inr (Found r, c)))
   | SyncAll \<Rightarrow> (case Sync BatchWrite c of None \<Rightarrow> None | Some (Inl e) \<Rightarrow> Some (Inl e) | Some (Inr (r, c)) \<Rightarrow> Some (Inr (Found r, c))))"

primrec coins_runs ::
  "'b GetCoin_op \<Rightarrow> 'b BatchWrite_op \<Rightarrow> coins_op list \<Rightarrow> 'b CCoinsViewCache \<Rightarrow> (coins_error + coins_result list \<times> 'b CCoinsViewCache) option" where
  "coins_runs GetCoin BatchWrite [] c = Some (Inr ([], c))"
| "coins_runs GetCoin BatchWrite (op # ops) c = (case coins_run GetCoin BatchWrite op c of
     Some (Inr (r, c)) \<Rightarrow> (case coins_runs GetCoin BatchWrite ops c of
       Some (Inr (rs, c)) \<Rightarrow> Some (Inr (r # rs, c)) | Some (Inl e) \<Rightarrow> Some (Inl e) | None \<Rightarrow> None)
   | Some (Inl e) \<Rightarrow> Some (Inl e)
   | None \<Rightarrow> None)"

type_synonym coins_spec = "(COutPoint \<Rightarrow> Coin option) \<times> uint256"

primrec spec_run :: "coins_op \<Rightarrow> coins_spec \<Rightarrow> coins_result \<times> coins_spec" where
  "spec_run (Have p) s = (Found (fst s p \<noteq> None), s)"
| "spec_run (Access p) s = (Got (fst s p), s)"
| "spec_run (Add p coin overwrite) s =
    (Done, if IsUnspendable (txout_scriptPubKey (coin_out coin)) then s else ((fst s)(p \<mapsto> coin), snd s))"
| "spec_run (Spend p) s = (Got (fst s p), (fst s)(p := None), snd s)"
| "spec_run (Forget p) s = (Done, s)"
| "spec_run (Best h) s = (Done, fst s, h)"
| "spec_run FlushAll s = (Found True, s)"
| "spec_run SyncAll s = (Found True, s)"

primrec spec_runs :: "coins_op list \<Rightarrow> coins_spec \<Rightarrow> coins_result list \<times> coins_spec" where
  "spec_runs [] s = ([], s)"
| "spec_runs (op # ops) s = (let (r, s) = spec_run op s; (rs, s) = spec_runs ops s in (r # rs, s))"

text \<open>
  What the callers owe: only unspent coins are added, an unspent coin is only overwritten when that
  is announced, and the best block is set before changes are written.
\<close>

primrec op_allowed :: "coins_op \<Rightarrow> coins_spec \<Rightarrow> bool" where
  "op_allowed (Have p) s = True"
| "op_allowed (Access p) s = True"
| "op_allowed (Add p coin overwrite) s = (\<not> IsSpent coin \<and> (overwrite \<or> fst s p = None))"
| "op_allowed (Spend p) s = True"
| "op_allowed (Forget p) s = True"
| "op_allowed (Best h) s = True"
| "op_allowed FlushAll s = (snd s \<noteq> uint256_ZERO)"
| "op_allowed SyncAll s = (snd s \<noteq> uint256_ZERO)"

primrec ops_allowed :: "coins_op list \<Rightarrow> coins_spec \<Rightarrow> bool" where
  "ops_allowed [] s = True"
| "ops_allowed (op # ops) s = (op_allowed op s \<and> ops_allowed ops (snd (spec_run op s)))"

definition cache_state :: "('b \<Rightarrow> COutPoint \<Rightarrow> Coin option) \<Rightarrow> 'b CCoinsViewCache \<Rightarrow> coins_spec" where
  "cache_state utxo c = (cache_utxo utxo c, hashBlock c)"

context coins_backend
begin

lemma coins_run_refines:
  assumes "cok c" "op_allowed op (cache_state utxo c)"
  shows "\<exists>r c'. coins_run GetCoin BatchWrite op c = Some (Inr (r, c')) \<and> cok c' \<and> spec_run op (cache_state utxo c) = (r, cache_state utxo c')"
proof (cases op)
  case (Have p)
  then show ?thesis
    using HaveCoin_law [OF assms(1), of p] by (auto simp: coins_run_def cache_state_def same_def)
next
  case (Access p)
  obtain coin c' where "AccessCoin GetCoin p c = (coin, c')" "same c c'" "coin_opt coin = coins c p"
    using AccessCoin_law [OF assms(1), of p] by auto
  then show ?thesis
    using Access by (auto simp: coins_run_def cache_state_def same_def)
next
  case (Add p coin overwrite)
  then obtain c' where "AddCoin p coin overwrite c = Inr c'" "cok c'" "hashBlock c' = hashBlock c"
    "coins c' = (if IsUnspendable (txout_scriptPubKey (coin_out coin)) then coins c else (coins c)(p \<mapsto> coin))"
    using AddCoin_law [OF assms(1), of coin overwrite p] assms(2) by (auto simp: cache_state_def)
  then show ?thesis
    using Add by (auto simp: coins_run_def cache_state_def)
next
  case (Spend p)
  then show ?thesis
    using SpendCoin_law [OF assms(1), of p] by (auto simp: coins_run_def cache_state_def)
next
  case (Forget p)
  then show ?thesis
    using Uncache_law [OF assms(1), of p] by (auto simp: coins_run_def cache_state_def)
next
  case (Best h)
  then show ?thesis
    using assms(1) by (auto simp: coins_run_def cache_state_def SetBestBlock_def cache_ok_def cache_utxo_def)
next
  case FlushAll
  then show ?thesis
    using Flush_law [OF assms(1)] assms(2) by (auto simp: coins_run_def cache_state_def)
next
  case SyncAll
  then show ?thesis
    using Sync_law [OF assms(1)] assms(2) by (auto simp: coins_run_def cache_state_def)
qed

lemma coins_runs_refines:
  "cok c \<Longrightarrow> ops_allowed ops (cache_state utxo c) \<Longrightarrow>
   \<exists>rs c'. coins_runs GetCoin BatchWrite ops c = Some (Inr (rs, c')) \<and> cok c' \<and> spec_runs ops (cache_state utxo c) = (rs, cache_state utxo c')"
proof (induction ops arbitrary: c)
  case (Cons op ops)
  obtain r c1 where c1: "coins_run GetCoin BatchWrite op c = Some (Inr (r, c1))" "cok c1" "spec_run op (cache_state utxo c) = (r, cache_state utxo c1)"
    using coins_run_refines [OF Cons.prems(1), of op] Cons.prems(2) by auto
  then show ?case
    using Cons.IH [OF c1(2)] Cons.prems(2) by auto
qed auto

end

lemma SanityCheck_cache_ok: "cache_ok utxo ok c \<Longrightarrow> SanityCheck c"
  unfolding cache_ok_def by (metis SanityCheck_map_ok)

lemma Flush_cache_hash: "Flush cache_BatchWrite c = Some (Inr (r, c')) \<Longrightarrow> hashBlock (base c') = hashBlock c"
  by (cases c) (auto simp: Flush_def cache_BatchWrite_def split: option.splits sum.splits prod.splits)

lemma cache_ok_new: "ok b \<Longrightarrow> cache_ok utxo ok (CCoinsViewCache_new b)" "cache_utxo utxo (CCoinsViewCache_new b) = utxo b"
proof -
  have "map_ok (utxo b) CCoinsMap_new"
    by (rule map_okI) auto
  then show "ok b \<Longrightarrow> cache_ok utxo ok (CCoinsViewCache_new b)" "cache_utxo utxo (CCoinsViewCache_new b) = utxo b"
    by (simp_all add: cache_ok_def CCoinsViewCache_new_def cache_utxo_def)
qed

text \<open>
  C8.  The caches of the node over the database behave as one map of unspent coins.  Whatever
  sequence of operations a caller makes on a cache over the cache of the active chain, within what
  it owes, every operation returns, with the result that the map gives, and no exception is thrown;
  the sanity check of both caches holds, their lists of flagged entries included.  If the caches
  are then flushed one after the other, the database has exactly the coins of the map and the
  best block.
\<close>
theorem coins_cache_refines_map:
  assumes "db_ok db" "ops_allowed ops (DB_COIN db, uint256_ZERO)"
  shows "\<exists>rs c. coins_runs (cache_GetCoin db_GetCoin) cache_BatchWrite ops (CCoinsViewCache_new (CCoinsViewCache_new db)) = Some (Inr (rs, c)) \<and>
    spec_runs ops (DB_COIN db, uint256_ZERO) = (rs, cache_utxo (cache_utxo DB_COIN) c, hashBlock c) \<and>
    SanityCheck c \<and> SanityCheck (base c) \<and>
    (hashBlock c \<noteq> uint256_ZERO \<longrightarrow> (\<exists>c' t. Flush cache_BatchWrite c = Some (Inr (True, c')) \<and>
      Flush (db_BatchWrite ApproximateSize batch_write_bytes) (base c') = Some (Inr (True, t)) \<and>
      DB_COIN (base t) = cache_utxo (cache_utxo DB_COIN) c \<and> DB_BEST_BLOCK (base t) = Some (hashBlock c)))"
proof -
  let ?c = "CCoinsViewCache_new (CCoinsViewCache_new db)"
  have new: "cache_ok (cache_utxo DB_COIN) (cache_ok DB_COIN db_ok) ?c" "cache_state (cache_utxo DB_COIN) ?c = (DB_COIN db, uint256_ZERO)"
    using assms(1) by (simp_all add: cache_ok_new cache_state_def) (simp add: CCoinsViewCache_new_def)
  obtain rs c where c: "coins_runs (cache_GetCoin db_GetCoin) cache_BatchWrite ops ?c = Some (Inr (rs, c))" "cache_ok (cache_utxo DB_COIN) (cache_ok DB_COIN db_ok) c"
    "spec_runs ops (DB_COIN db, uint256_ZERO) = (rs, cache_state (cache_utxo DB_COIN) c)"
    using tip.coins_runs_refines [OF new(1), unfolded new(2), OF assms(2)] by auto
  have "\<exists>c' t. Flush cache_BatchWrite c = Some (Inr (True, c')) \<and> Flush (db_BatchWrite ApproximateSize batch_write_bytes) (base c') = Some (Inr (True, t)) \<and>
      DB_COIN (base t) = cache_utxo (cache_utxo DB_COIN) c \<and> DB_BEST_BLOCK (base t) = Some (hashBlock c)" if h: "hashBlock c \<noteq> uint256_ZERO"
  proof -
    obtain c' where c': "Flush cache_BatchWrite c = Some (Inr (True, c'))" "cache_ok (cache_utxo DB_COIN) (cache_ok DB_COIN db_ok) c'"
      "cache_utxo DB_COIN (base c') = cache_utxo (cache_utxo DB_COIN) c"
      using tip.Flush_law [OF c(2) h] by auto
    then have "cache_ok DB_COIN db_ok (base c')" and hash: "hashBlock (base c') = hashBlock c"
      using Flush_cache_hash [OF c'(1)] by (simp_all add: cache_ok_def)
    from db.Flush_law [OF this(1), of ApproximateSize batch_write_bytes] hash h
    obtain t where "Flush (db_BatchWrite ApproximateSize batch_write_bytes) (base c') = Some (Inr (True, t))" "DB_COIN (base t) = cache_utxo DB_COIN (base c')" "db_best (base t) = hashBlock c"
      by auto
    then show ?thesis
      using c' h by (auto simp: db_best_def db_GetBestBlock_def split: option.splits)
  qed
  moreover have "SanityCheck c" "SanityCheck (base c)"
    using SanityCheck_cache_ok [OF c(2)] c(2) SanityCheck_cache_ok [of DB_COIN db_ok "base c"] by (simp_all add: cache_ok_def)
  ultimately show ?thesis
    using c(1,3) by (auto simp: cache_state_def)
qed

definition demo_db :: CCoinsViewDB where
  "demo_db = \<lparr>DB_COIN = (\<lambda>p. if outpoint_n p = 0 then Some (Coin_new \<lparr>txout_nValue = 5000, txout_scriptPubKey = [0x51]\<rparr> 7 False) else None),
    DB_BEST_BLOCK = Some (replicate 32 9), DB_HEAD_BLOCKS = None\<rparr>"

definition demo_coin_ops :: "coins_op list" where
  "demo_coin_ops = (let p = \<lambda>i. \<lparr>outpoint_hash = replicate 32 3, outpoint_n = i\<rparr>; coin = Coin_new \<lparr>txout_nValue = 7, txout_scriptPubKey = [0x52]\<rparr> 8 False in
     [Spend (p 0), Add (p 1) coin False, Best (replicate 32 5), FlushAll, Spend (p 1), SyncAll, Add (p 0) coin False])"

theorem coins_cache_refines_map_witness:
  "db_ok demo_db \<and> ops_allowed demo_coin_ops (DB_COIN demo_db, uint256_ZERO) \<and>
   (\<exists>rs c. coins_runs (cache_GetCoin db_GetCoin) cache_BatchWrite demo_coin_ops (CCoinsViewCache_new (CCoinsViewCache_new demo_db)) = Some (Inr (rs, c)) \<and>
      SanityCheck c \<and> SanityCheck (base c) \<and> hashBlock c = replicate 32 5)"
proof -
  have ok: "db_ok demo_db" "ops_allowed demo_coin_ops (DB_COIN demo_db, uint256_ZERO)" "snd (snd (spec_runs demo_coin_ops (DB_COIN demo_db, uint256_ZERO))) = replicate 32 5"
    by (simp_all add: db_ok_def demo_db_def demo_coin_ops_def Coin_new_def IsSpent_def txout_IsNull_def uint256_ZERO_def Let_def
        IsUnspendable_def split: if_splits)
  obtain rs c where "coins_runs (cache_GetCoin db_GetCoin) cache_BatchWrite demo_coin_ops (CCoinsViewCache_new (CCoinsViewCache_new demo_db)) = Some (Inr (rs, c))"
    "spec_runs demo_coin_ops (DB_COIN demo_db, uint256_ZERO) = (rs, cache_utxo (cache_utxo DB_COIN) c, hashBlock c)" "SanityCheck c" "SanityCheck (base c)"
    using coins_cache_refines_map [OF ok(1,2), of length 1] by auto
  then show ?thesis
    using ok by auto
qed

end
