(* ===== verification/Block.thy ===== *)
theory Block
  imports Transaction ScriptTypes
begin

text \<open>
  Blocks (\<open>primitives/block.h\<close>, \<open>.cpp\<close>) and their merkle roots
  (\<open>consensus/merkle.cpp\<close>).  The memory-only flags of \<open>CBlock\<close> are fields of
  the record.  The merkle root is computed level by level as the code does, with the detection
  of duplicated hashes; the main result is that this detection makes the root binding.
\<close>

section \<open>Blocks\<close>

record CBlockHeader =
  hdr_nVersion :: "32 word"
  hdr_hashPrevBlock :: uint256
  hdr_hashMerkleRoot :: uint256
  hdr_nTime :: "32 word"
  hdr_nBits :: "32 word"
  hdr_nNonce :: "32 word"

record CBlock = CBlockHeader +
  vtx :: "CTransaction list"
  fChecked :: bool
  m_checked_witness_commitment :: bool
  m_checked_merkle_root :: bool

definition ser_header :: "'a CBlockHeader_scheme \<Rightarrow> valtype" where
  "ser_header b = ser_uint32 (hdr_nVersion b) @ hdr_hashPrevBlock b @ hdr_hashMerkleRoot b @
     ser_uint32 (hdr_nTime b) @ ser_uint32 (hdr_nBits b) @ ser_uint32 (hdr_nNonce b)"

definition header_GetHash :: "Hashes \<Rightarrow> 'a CBlockHeader_scheme \<Rightarrow> uint256" where
  "header_GetHash hs b = Hash256 hs (ser_header b)"

definition GetBlockHeader :: "CBlock \<Rightarrow> CBlockHeader" where
  "GetBlockHeader b = \<lparr>hdr_nVersion = hdr_nVersion b, hdr_hashPrevBlock = hdr_hashPrevBlock b,
     hdr_hashMerkleRoot = hdr_hashMerkleRoot b, hdr_nTime = hdr_nTime b, hdr_nBits = hdr_nBits b,
     hdr_nNonce = hdr_nNonce b\<rparr>"

definition ser_block :: "CBlock \<Rightarrow> valtype" where
  "ser_block b = ser_header b @ ser_vector (SerializeTransaction True) (vtx b)"

definition tx_GetHash :: "Hashes \<Rightarrow> CTransaction \<Rightarrow> uint256" where
  "tx_GetHash hs tx = Hash256 hs (SerializeTransaction False tx)"

definition tx_GetWitnessHash :: "Hashes \<Rightarrow> CTransaction \<Rightarrow> uint256" where
  "tx_GetWitnessHash hs tx = Hash256 hs (SerializeTransaction True tx)"


section \<open>Merkle roots\<close>

fun has_equal_pair :: "uint256 list \<Rightarrow> bool" where
  "has_equal_pair (a # b # hashes) \<longleftrightarrow> a = b \<or> has_equal_pair hashes"
| "has_equal_pair hashes \<longleftrightarrow> False"

definition pad_even :: "uint256 list \<Rightarrow> uint256 list" where
  "pad_even hashes = (if odd (length hashes) then hashes @ [last hashes] else hashes)"

fun SHA256D64 :: "Hashes \<Rightarrow> uint256 list \<Rightarrow> uint256 list" where
  "SHA256D64 hs (a # b # hashes) = Hash256 hs (a @ b) # SHA256D64 hs hashes"
| "SHA256D64 hs hashes = []"

lemma length_SHA256D64 [simp]: "length (SHA256D64 hs hashes) = length hashes div 2"
  by (induction hs hashes rule: SHA256D64.induct) simp_all

lemma length_pad_even: "length (pad_even hashes) = 2 * ((length hashes + 1) div 2)"
  by (auto simp: pad_even_def)

text \<open>\<open>ComputeMerkleRoot\<close>, called with a pointer for \<open>mutated\<close>.\<close>

function ComputeMerkleRoot :: "Hashes \<Rightarrow> uint256 list \<Rightarrow> bool \<Rightarrow> uint256 \<times> bool" where
  "ComputeMerkleRoot hs hashes mutation =
    (if length hashes > 1
     then ComputeMerkleRoot hs (SHA256D64 hs (pad_even hashes)) (mutation \<or> has_equal_pair hashes)
     else (if hashes = [] then replicate 32 0 else hashes ! 0, mutation))"
  by auto
termination
  by (relation "measure (\<lambda>(hs, hashes, mutation). length hashes)") (auto simp: length_pad_even)

declare ComputeMerkleRoot.simps [simp del]

definition BlockMerkleRoot :: "Hashes \<Rightarrow> CTransaction list \<Rightarrow> uint256 \<times> bool" where
  "BlockMerkleRoot hs txs = ComputeMerkleRoot hs (map (tx_GetHash hs) txs) False"

definition BlockWitnessMerkleRoot :: "Hashes \<Rightarrow> CTransaction list \<Rightarrow> uint256 \<times> bool" where
  "BlockWitnessMerkleRoot hs txs =
    ComputeMerkleRoot hs (replicate 32 0 # map (tx_GetWitnessHash hs) (tl txs)) False"


section \<open>Merkle roots are binding\<close>

text \<open>
  The number of levels above the leaves.  Lists of different heights cannot be told apart by
  the root alone, since an inner hash can also be a leaf.
\<close>

function merkle_height :: "nat \<Rightarrow> nat" where
  "merkle_height n = (if n > 1 then Suc (merkle_height ((n + 1) div 2)) else 0)"
  by auto
termination
  by (relation "measure id") auto

declare merkle_height.simps [simp del]

text \<open>
  The 64-byte strings that are hashed on the way to the root.  As long as no two of them collide,
  the root determines the leaves.
\<close>

fun hash_pairs :: "uint256 list \<Rightarrow> valtype list" where
  "hash_pairs (a # b # hashes) = (a @ b) # hash_pairs hashes"
| "hash_pairs hashes = []"

function merkle_preimages :: "Hashes \<Rightarrow> uint256 list \<Rightarrow> valtype list" where
  "merkle_preimages hs hashes =
    (if length hashes > 1
     then hash_pairs (pad_even hashes) @ merkle_preimages hs (SHA256D64 hs (pad_even hashes)) else [])"
  by auto
termination
  by (relation "measure (\<lambda>(hs, hashes). length hashes)") (auto simp: length_pad_even)

declare merkle_preimages.simps [simp del]

definition collision :: "Hashes \<Rightarrow> valtype list \<Rightarrow> valtype list \<Rightarrow> bool" where
  "collision hs P Q \<longleftrightarrow> (\<exists>p\<in>set P. \<exists>q\<in>set Q. p \<noteq> q \<and> Hash256 hs p = Hash256 hs q)"

lemma collision_append:
  "\<not> collision hs (P @ P') (Q @ Q') \<Longrightarrow> \<not> collision hs P Q \<and> \<not> collision hs P' Q'"
  by (auto simp: collision_def)

lemma SHA256D64_inj:
  "length xs = length ys \<Longrightarrow> even (length xs) \<Longrightarrow> \<forall>h\<in>set xs \<union> set ys. length h = 32 \<Longrightarrow>
    \<not> collision hs (hash_pairs xs) (hash_pairs ys) \<Longrightarrow> SHA256D64 hs xs = SHA256D64 hs ys \<Longrightarrow> xs = ys"
proof (induction xs arbitrary: ys rule: induct_list012)
  case (2 x)
  then have "even (length [x])"
    by blast
  then show ?case
    by simp
next
  case (3 a b hashes)
  from 3(3) obtain c d zs where ys: "ys = c # d # zs"
    by (cases ys; cases "tl ys") auto
  have "a @ b = c @ d"
    using 3(6,7) ys by (auto simp: collision_def)
  moreover have len: "length a = 32" "length c = 32"
    using 3(5) ys by simp_all
  ultimately have "a = c" "b = d"
    by simp_all
  moreover have "hashes = zs"
    using 3(1) [of zs] 3(3-7) ys by (simp add: collision_def)
  ultimately show ?case
    by (simp add: ys)
qed simp

lemma has_equal_pair_snoc: "even (length xs) \<Longrightarrow> has_equal_pair (xs @ [a, a])"
  by (induction xs rule: induct_list012) simp_all

text \<open>Lists whose padded forms agree are equal, unless the longer one ends in a pair of equal hashes.\<close>

lemma pad_even_inj:
  assumes "pad_even xs = pad_even ys" "\<not> has_equal_pair xs" "\<not> has_equal_pair ys"
  shows "xs = ys"
proof -
  have *: "False" if "odd (length us)" "us @ [last us] = vs" "\<not> has_equal_pair vs" for us vs
  proof -
    have "us \<noteq> []"
      using that(1) by (metis even_zero list.size(3))
    then obtain zs z where us: "us = zs @ [z]"
      by (metis append_butlast_last_id)
    then have "has_equal_pair vs"
      using that(1,2) has_equal_pair_snoc [of zs z] by auto
    then show False
      using that(3) by simp
  qed
  show ?thesis
    using assms *[of xs ys] *[of ys xs] by (auto simp: pad_even_def split: if_splits)
qed

lemma ComputeMerkleRoot_step:
  "length xs > 1 \<Longrightarrow> ComputeMerkleRoot hs xs m = ComputeMerkleRoot hs (SHA256D64 hs (pad_even xs)) (m \<or> has_equal_pair xs)"
  by (subst ComputeMerkleRoot.simps) simp

lemma ComputeMerkleRoot_end:
  "xs \<noteq> [] \<Longrightarrow> length xs \<le> 1 \<Longrightarrow> ComputeMerkleRoot hs xs m = (hd xs, m)"
  by (subst ComputeMerkleRoot.simps) (simp add: hd_conv_nth)

lemma ComputeMerkleRoot_mutated: "snd (ComputeMerkleRoot hs xs m) = (m \<or> snd (ComputeMerkleRoot hs xs False))"
proof (induction "length xs" arbitrary: xs m rule: less_induct)
  case less
  show ?case
  proof (cases "length xs > 1")
    case True
    then have "length (SHA256D64 hs (pad_even xs)) < length xs"
      by (simp add: length_pad_even)
    from less [OF this, of "m \<or> has_equal_pair xs"] less [OF this, of "has_equal_pair xs"]
    show ?thesis
      using True by (simp add: ComputeMerkleRoot_step)
  next
    case False
    then show ?thesis
      by (subst (1 2) ComputeMerkleRoot.simps) simp
  qed
qed

lemma fst_ComputeMerkleRoot: "fst (ComputeMerkleRoot hs xs m) = fst (ComputeMerkleRoot hs xs False)"
proof (induction "length xs" arbitrary: xs m rule: less_induct)
  case less
  show ?case
  proof (cases "length xs > 1")
    case True
    then have "length (SHA256D64 hs (pad_even xs)) < length xs"
      by (simp add: length_pad_even)
    from less [OF this, of "m \<or> has_equal_pair xs"] less [OF this, of "has_equal_pair xs"]
    show ?thesis
      using True by (simp add: ComputeMerkleRoot_step)
  next
    case False
    then show ?thesis
      by (subst (1 2) ComputeMerkleRoot.simps) simp
  qed
qed

lemma SHA256D64_lengths:
  assumes "\<And>x. length (SHA256 hs x) = 32"
  shows "\<forall>h\<in>set (SHA256D64 hs xs). length h = 32"
  using assms by (induction xs rule: induct_list012) (simp_all add: Hash256_def)

lemma merkle_binding:
  assumes "\<And>x. length (SHA256 hs x) = 32"
  shows "xs \<noteq> [] \<Longrightarrow> ys \<noteq> [] \<Longrightarrow> \<forall>h\<in>set xs \<union> set ys. length h = 32 \<Longrightarrow>
    merkle_height (length xs) = merkle_height (length ys) \<Longrightarrow>
    \<not> collision hs (merkle_preimages hs xs) (merkle_preimages hs ys) \<Longrightarrow>
    ComputeMerkleRoot hs xs False = (r, False) \<Longrightarrow> ComputeMerkleRoot hs ys False = (r, False) \<Longrightarrow> xs = ys"
proof (induction "length xs" arbitrary: xs ys rule: less_induct)
  case less
  show ?case
  proof (cases "length xs > 1")
    case False
    then have "length ys \<le> 1"
      using less.prems(4) merkle_height.simps [of "length xs"] merkle_height.simps [of "length ys"] by (simp split: if_splits)
    moreover obtain x where "xs = [x]"
      using False less.prems(1) by (cases xs) auto
    moreover obtain y where "ys = [y]"
      using \<open>length ys \<le> 1\<close> less.prems(2) by (cases ys) auto
    ultimately show ?thesis
      using less.prems(6,7) by (simp add: ComputeMerkleRoot_end)
  next
    case True
    then have ys1: "length ys > 1"
      using less.prems(4) merkle_height.simps [of "length xs"] merkle_height.simps [of "length ys"] by (simp split: if_splits)
    let ?xs = "SHA256D64 hs (pad_even xs)" and ?ys = "SHA256D64 hs (pad_even ys)"
    have pad: "length ?xs = (length xs + 1) div 2" "length ?ys = (length ys + 1) div 2"
      by (simp_all add: length_pad_even)
    have root: "fst (ComputeMerkleRoot hs zs False) = fst (ComputeMerkleRoot hs (SHA256D64 hs (pad_even zs)) False)"
      "snd (ComputeMerkleRoot hs zs False) \<longleftrightarrow> has_equal_pair zs \<or> snd (ComputeMerkleRoot hs (SHA256D64 hs (pad_even zs)) False)"
      if "length zs > 1" for zs
      using ComputeMerkleRoot_step [OF that, of hs False] fst_ComputeMerkleRoot [of hs _ "has_equal_pair zs"]
        ComputeMerkleRoot_mutated [of hs _ "has_equal_pair zs"] by simp_all
    have neq: "\<not> has_equal_pair xs" "\<not> has_equal_pair ys"
      using root(2) [OF True] root(2) [OF ys1] less.prems(6,7) by simp_all
    have coll: "\<not> collision hs (hash_pairs (pad_even xs)) (hash_pairs (pad_even ys))"
      "\<not> collision hs (merkle_preimages hs ?xs) (merkle_preimages hs ?ys)"
      using less.prems(5) True ys1 merkle_preimages.simps [of hs xs] merkle_preimages.simps [of hs ys]
        collision_append [of hs "hash_pairs (pad_even xs)" "merkle_preimages hs ?xs" "hash_pairs (pad_even ys)" "merkle_preimages hs ?ys"]
      by simp_all
    have "?xs = ?ys"
    proof (rule less.hyps)
      show "length ?xs < length xs"
        using True pad by simp
      have "length ?xs \<noteq> 0" "length ?ys \<noteq> 0"
        using True ys1 unfolding pad by simp_all
      then show "?xs \<noteq> []" "?ys \<noteq> []"
        by (metis list.size(3))+
      show "\<not> collision hs (merkle_preimages hs ?xs) (merkle_preimages hs ?ys)"
        by (rule coll(2))
      show "\<forall>h\<in>set ?xs \<union> set ?ys. length h = 32"
        using SHA256D64_lengths [OF assms(1)] by blast
      show "merkle_height (length ?xs) = merkle_height (length ?ys)"
        using less.prems(4) True ys1 merkle_height.simps [of "length xs"] merkle_height.simps [of "length ys"] pad by simp
      show "ComputeMerkleRoot hs ?xs False = (r, False)" "ComputeMerkleRoot hs ?ys False = (r, False)"
        using root [OF True] root [OF ys1] less.prems(6,7) by (simp_all add: prod_eq_iff)
    qed
    moreover have "set (pad_even xs) = set xs" "set (pad_even ys) = set ys"
      using less.prems(1,2) by (auto simp: pad_even_def)
    moreover have "even (length (pad_even xs))"
      by (simp add: length_pad_even)
    moreover have "length (pad_even xs) = length (pad_even ys)"
      using \<open>?xs = ?ys\<close> pad by (metis length_pad_even)
    ultimately have "pad_even xs = pad_even ys"
      using SHA256D64_inj [OF _ _ _ coll(1)] less.prems(3) by metis
    then show ?thesis
      using neq by (rule pad_even_inj)
  qed
qed



section \<open>Properties\<close>

text \<open>
  C25.  Two lists of transactions whose trees have the same height, whose merkle roots are equal
  and for neither of which \<open>BlockMerkleRoot\<close> reports a mutation have the same transaction
  hashes in the same order, unless two different 64-byte strings hashed on the way to the roots
  have the same double hash.  The detection of equal neighbours is what excludes the lists that
  differ only in a duplicated tail.
\<close>

theorem BlockMerkleRoot_binding:
  assumes "\<And>x. length (SHA256 hs x) = 32"
    and "txs \<noteq> []" "txs' \<noteq> []" "merkle_height (length txs) = merkle_height (length txs')"
    and "BlockMerkleRoot hs txs = (root, False)" "BlockMerkleRoot hs txs' = (root, False)"
  shows "map (tx_GetHash hs) txs = map (tx_GetHash hs) txs' \<or>
    collision hs (merkle_preimages hs (map (tx_GetHash hs) txs)) (merkle_preimages hs (map (tx_GetHash hs) txs'))"
proof -
  have "\<forall>h\<in>set (map (tx_GetHash hs) txs) \<union> set (map (tx_GetHash hs) txs'). length h = 32"
    by (auto simp: tx_GetHash_def Hash256_def assms(1))
  then show ?thesis
    using merkle_binding [OF assms(1), of "map (tx_GetHash hs) txs" "map (tx_GetHash hs) txs'" root] assms
    unfolding BlockMerkleRoot_def by auto
qed

definition demo_block_tx :: "valtype list \<Rightarrow> CTransaction" where
  "demo_block_tx wit = \<lparr>tx_version = 2,
     tx_vin = [\<lparr>txin_prevout = \<lparr>outpoint_hash = replicate 32 1, outpoint_n = 0\<rparr>, txin_scriptSig = [],
       txin_nSequence = 0, txin_scriptWitness = wit\<rparr>], tx_vout = [], tx_nLockTime = 0\<rparr>"

definition demo_block_hashes :: Hashes where
  "demo_block_hashes = \<lparr>SHA256 = (\<lambda>x. take 32 (drop 6 x @ replicate 32 0)), SHA1 = (\<lambda>x. []), RIPEMD160 = (\<lambda>x. [])\<rparr>"

theorem BlockMerkleRoot_binding_witness:
  "demo_block_tx [] \<noteq> demo_block_tx [[1]] \<and> BlockMerkleRoot demo_block_hashes [demo_block_tx []] = BlockMerkleRoot demo_block_hashes [demo_block_tx [[1]]] \<and>
   (map (tx_GetHash demo_block_hashes) [demo_block_tx []] = map (tx_GetHash demo_block_hashes) [demo_block_tx [[1]]] \<or>
    collision demo_block_hashes (merkle_preimages demo_block_hashes (map (tx_GetHash demo_block_hashes) [demo_block_tx []]))
      (merkle_preimages demo_block_hashes (map (tx_GetHash demo_block_hashes) [demo_block_tx [[1]]])))"
proof -
  have same: "tx_GetHash demo_block_hashes (demo_block_tx []) = tx_GetHash demo_block_hashes (demo_block_tx [[1]])"
    by (simp add: tx_GetHash_def SerializeTransaction_def demo_block_tx_def HasWitness_def ser_vector_def ser_txin_def)
  have len: "length (SHA256 demo_block_hashes x) = 32" for x
    by (simp add: demo_block_hashes_def)
  show ?thesis
    using BlockMerkleRoot_binding [of demo_block_hashes "[demo_block_tx []]" "[demo_block_tx [[1]]]" "tx_GetHash demo_block_hashes (demo_block_tx [])", OF len]
    by (simp add: BlockMerkleRoot_def ComputeMerkleRoot_end same) (simp add: demo_block_tx_def)
qed

end
