(* ===== verification/ArithUint256.thy ===== *)
theory ArithUint256
  imports Bytes
begin

text \<open>
  Big integers (\<open>arith_uint256.h\<close>, \<open>arith_uint256.cpp\<close>).  A
  \<open>base_uint\<close> is the list of its 32-bit digits, least significant first; the number of
  digits is the length of the list, so that the results hold for every width the template is
  used at.  The loops over digits are the code's, with carries in 64-bit words.  The second half
  shows that each operation computes the operation on natural numbers, modulo the width.
\<close>

section \<open>Digits\<close>

type_synonym base_uint = "32 word list"

definition base_uint_of :: "nat \<Rightarrow> 64 word \<Rightarrow> base_uint" where
  "base_uint_of WIDTH b = (replicate WIDTH 0)[0 := ucast b, 1 := ucast (drop_bit 32 b)]"

definition base_not :: "base_uint \<Rightarrow> base_uint" where
  "base_not = map NOT"

primrec base_inc :: "base_uint \<Rightarrow> base_uint" where
  "base_inc [] = []"
| "base_inc (p # pn) = (if p + 1 = 0 then (p + 1) # base_inc pn else (p + 1) # pn)"

definition base_neg :: "base_uint \<Rightarrow> base_uint" where
  "base_neg a = base_inc (base_not a)"

fun add_loop :: "64 word \<Rightarrow> base_uint \<Rightarrow> base_uint \<Rightarrow> base_uint" where
  "add_loop carry (p # pn) (b # bs) =
    (let n = carry + ucast p + ucast b in ucast n # add_loop (drop_bit 32 n) pn bs)"
| "add_loop carry pn bs = []"

definition base_add :: "base_uint \<Rightarrow> base_uint \<Rightarrow> base_uint" where
  "base_add = add_loop 0"

definition base_sub :: "base_uint \<Rightarrow> base_uint \<Rightarrow> base_uint" where
  "base_sub a b = base_add a (base_neg b)"

definition shl_step :: "base_uint \<Rightarrow> nat \<Rightarrow> nat \<Rightarrow> nat \<Rightarrow> base_uint \<Rightarrow> base_uint" where
  "shl_step a k shift i pn =
    (let pn = (if i + k + 1 < length a \<and> shift \<noteq> 0
               then pn[i + k + 1 := pn ! (i + k + 1) OR drop_bit (32 - shift) (a ! i)] else pn)
     in if i + k < length a then pn[i + k := pn ! (i + k) OR push_bit shift (a ! i)] else pn)"

definition base_shl :: "base_uint \<Rightarrow> nat \<Rightarrow> base_uint" where
  "base_shl a shift = fold (shl_step a (shift div 32) (shift mod 32)) [0..<length a] (replicate (length a) 0)"

definition shr_step :: "base_uint \<Rightarrow> nat \<Rightarrow> nat \<Rightarrow> nat \<Rightarrow> base_uint \<Rightarrow> base_uint" where
  "shr_step a k shift i pn =
    (let pn = (if k + 1 \<le> i \<and> shift \<noteq> 0
               then pn[i - k - 1 := pn ! (i - k - 1) OR push_bit (32 - shift) (a ! i)] else pn)
     in if k \<le> i then pn[i - k := pn ! (i - k) OR drop_bit shift (a ! i)] else pn)"

definition base_shr :: "base_uint \<Rightarrow> nat \<Rightarrow> base_uint" where
  "base_shr a shift = fold (shr_step a (shift div 32) (shift mod 32)) [0..<length a] (replicate (length a) 0)"

primrec mul32_loop :: "64 word \<Rightarrow> 32 word \<Rightarrow> base_uint \<Rightarrow> base_uint" where
  "mul32_loop carry b32 [] = []"
| "mul32_loop carry b32 (p # pn) =
    (let n = carry + ucast b32 * ucast p in ucast n # mul32_loop (drop_bit 32 n) b32 pn)"

definition base_mul32 :: "base_uint \<Rightarrow> 32 word \<Rightarrow> base_uint" where
  "base_mul32 a b32 = mul32_loop 0 b32 a"

fun mul_row :: "64 word \<Rightarrow> 32 word \<Rightarrow> base_uint \<Rightarrow> base_uint \<Rightarrow> base_uint" where
  "mul_row carry p (a # as) (b # bs) =
    (let n = carry + ucast a + ucast p * ucast b in ucast n # mul_row (drop_bit 32 n) p as bs)"
| "mul_row carry p as bs = as"

definition base_mul :: "base_uint \<Rightarrow> base_uint \<Rightarrow> base_uint" where
  "base_mul pn b = fold (\<lambda>j a. take j a @ mul_row 0 (pn ! j) (drop j a) b) [0..<length pn] (replicate (length pn) 0)"

fun compare_loop :: "base_uint \<Rightarrow> base_uint \<Rightarrow> int" where
  "compare_loop (p # pn) (b # bs) = (if p < b then - 1 else if p > b then 1 else compare_loop pn bs)"
| "compare_loop pn bs = 0"

definition CompareTo :: "base_uint \<Rightarrow> base_uint \<Rightarrow> int" where
  "CompareTo a b = compare_loop (rev a) (rev b)"

definition EqualTo :: "base_uint \<Rightarrow> 64 word \<Rightarrow> bool" where
  "EqualTo a b \<longleftrightarrow> \<not> (\<exists>i\<in>set [2..<length a]. a ! i \<noteq> 0) \<and>
     ucast (a ! 1) = drop_bit 32 b \<and> ucast (a ! 0) = b AND 0xffffffff"

primrec high_bit :: "nat \<Rightarrow> 32 word \<Rightarrow> nat" where
  "high_bit 0 p = 1"
| "high_bit (Suc n) p = (if p AND push_bit (Suc n) 1 \<noteq> 0 then Suc n + 1 else high_bit n p)"

primrec bits_loop :: "base_uint \<Rightarrow> nat \<Rightarrow> nat" where
  "bits_loop pn 0 = 0"
| "bits_loop pn (Suc pos) = (if pn ! pos \<noteq> 0 then 32 * pos + high_bit 31 (pn ! pos) else bits_loop pn pos)"

definition base_bits :: "base_uint \<Rightarrow> nat" where
  "base_bits pn = bits_loop pn (length pn)"

text \<open>
  The loop of the division: the first argument counts the values that \<open>shift\<close> still
  takes, from \<open>shift\<close> down to zero.
\<close>

primrec div_loop :: "nat \<Rightarrow> base_uint \<Rightarrow> base_uint \<Rightarrow> base_uint \<Rightarrow> base_uint" where
  "div_loop 0 num dv pn = pn"
| "div_loop (Suc shift) num dv pn =
    (if CompareTo num dv \<ge> 0
     then div_loop shift (base_sub num dv) (base_shr dv 1)
            (pn[shift div 32 := pn ! (shift div 32) OR push_bit (shift mod 32) 1])
     else div_loop shift num (base_shr dv 1) pn)"

datatype uint_error = Division_by_zero

definition base_div :: "base_uint \<Rightarrow> base_uint \<Rightarrow> uint_error + base_uint" where
  "base_div a b =
    (let num_bits = base_bits a; div_bits = base_bits b in
     if div_bits = 0 then Inl Division_by_zero
     else if div_bits > num_bits then Inr (replicate (length a) 0)
     else let shift = num_bits - div_bits
          in Inr (div_loop (Suc shift) a (base_shl b shift) (replicate (length a) 0)))"

definition GetLow64 :: "base_uint \<Rightarrow> 64 word" where
  "GetLow64 a = ucast (a ! 0) OR push_bit 32 (ucast (a ! 1))"


section \<open>256 bits\<close>

definition WIDTH :: nat where
  [simp]: "WIDTH = 8"

type_synonym arith_uint256 = base_uint

definition arith_uint256_of :: "64 word \<Rightarrow> arith_uint256" where
  "arith_uint256_of = base_uint_of WIDTH"

text \<open>\<open>SetCompact\<close> returns the number and the flags \<open>fNegative\<close> and \<open>fOverflow\<close>.\<close>

definition SetCompact :: "32 word \<Rightarrow> arith_uint256 \<times> bool \<times> bool" where
  "SetCompact nCompact =
    (let nSize = unat (drop_bit 24 nCompact);
         nWord = nCompact AND 0x007fffff;
         nWord = (if nSize \<le> 3 then drop_bit (8 * (3 - nSize)) nWord else nWord);
         bn = arith_uint256_of (ucast nWord);
         bn = (if nSize \<le> 3 then bn else base_shl bn (8 * (nSize - 3)))
     in (bn, nWord \<noteq> 0 \<and> nCompact AND 0x00800000 \<noteq> 0,
         nWord \<noteq> 0 \<and> (nSize > 34 \<or> nWord > 0xff \<and> nSize > 33 \<or> nWord > 0xffff \<and> nSize > 32)))"

text \<open>\<open>None\<close> is a failed assert.\<close>

definition GetCompact :: "bool \<Rightarrow> arith_uint256 \<Rightarrow> 32 word option" where
  "GetCompact fNegative a =
    (let nSize = (base_bits a + 7) div 8;
         nCompact = (if nSize \<le> 3 then ucast (push_bit (8 * (3 - nSize)) (GetLow64 a))
                     else ucast (GetLow64 (base_shr a (8 * (nSize - 3)))));
         (nCompact, nSize) = (if nCompact AND 0x00800000 \<noteq> 0 then (drop_bit 8 nCompact, nSize + 1) else (nCompact, nSize))
     in if nCompact AND NOT 0x007fffff \<noteq> 0 \<or> \<not> nSize < 256 then None
        else
          let nCompact = nCompact OR of_nat (nSize * 2 ^ 24)
          in Some (nCompact OR (if fNegative \<and> nCompact AND 0x007fffff \<noteq> 0 then 0x00800000 else 0)))"

definition ArithToUint256 :: "arith_uint256 \<Rightarrow> valtype" where
  "ArithToUint256 a = concat (map word_bytes a)"

definition UintToArith256 :: "valtype \<Rightarrow> arith_uint256" where
  "UintToArith256 a = map (\<lambda>x. bytes_word (take 4 (drop (x * 4) a))) [0..<WIDTH]"


section \<open>Values\<close>

primrec val :: "base_uint \<Rightarrow> nat" where
  "val [] = 0"
| "val (p # pn) = unat p + 2 ^ 32 * val pn"

lemma unat_32_less: "unat (p :: 32 word) < 4294967296"
  using unat_word_less [of p] by simp

lemma val_less: "val pn < 2 ^ (32 * length pn)"
proof (induction pn)
  case (Cons p pn)
  have "unat p + 2 ^ 32 * val pn < 2 ^ 32 * (val pn + 1)"
    using unat_32_less [of p] by simp
  also have "\<dots> \<le> 2 ^ 32 * 2 ^ (32 * length pn)"
    using Cons.IH by (intro mult_le_mono2) simp
  finally show ?case
    by (simp add: power_add)
qed simp

lemma val_inj: "length a = length b \<Longrightarrow> val a = val b \<Longrightarrow> a = b"
proof (induction a b rule: list_induct2)
  case (Cons x xs y ys)
  have "unat x = unat y"
    using arg_cong [OF Cons.prems, of "\<lambda>n. n mod 2 ^ 32"] by (simp add: unat_32_less)
  moreover from this have "val xs = val ys"
    using Cons.prems by simp
  ultimately show ?case
    using Cons.IH by (simp add: word_unat_eq_iff)
qed simp

lemma val_replicate_0 [simp]: "val (replicate n 0) = 0"
  by (induction n) simp_all

lemma val_append: "val (xs @ ys) = val xs + 2 ^ (32 * length xs) * val ys"
  by (induction xs) (simp_all add: algebra_simps power_add)

lemma bit_val: "bit (val pn) n \<longleftrightarrow> n div 32 < length pn \<and> bit (pn ! (n div 32)) (n mod 32)"
proof (induction pn arbitrary: n)
  case (Cons p pn)
  have "val (p # pn) = unat p OR push_bit 32 (val pn)"
  proof -
    have "take_bit 32 (unat p) = unat p"
      by (simp add: take_bit_nat_eq_self unat_32_less)
    then have "bit (unat p) k \<Longrightarrow> k < 32" for k
      by (metis bit_take_bit_iff)
    then have "unat p + push_bit 32 (val pn) = unat p OR push_bit 32 (val pn)"
      by (intro disjunctive_add) (metis bit_push_bit_iff not_le)
    then show ?thesis
      by (simp add: push_bit_eq_mult mult.commute)
  qed
  then have *: "bit (val (p # pn)) n \<longleftrightarrow> bit p n \<or> 32 \<le> n \<and> bit (val pn) (n - 32)"
    by (simp add: bit_or_iff bit_push_bit_iff bit_unsigned_iff del: val.simps)
  show ?case
  proof (cases "n < 32")
    case False
    then have "n div 32 = Suc ((n - 32) div 32)" "n mod 32 = (n - 32) mod 32"
      by (simp_all add: le_div_geq le_mod_geq)
    moreover have "\<not> bit p n"
      using False bit_imp_le_length [of p n] by auto
    ultimately show ?thesis
      using False * Cons.IH by simp
  qed (use * in auto)
qed simp


section \<open>Addition and multiplication\<close>

text \<open>
  Each loop splits a 64-bit sum, which does not overflow, into a digit and a carry.
\<close>

lemma digit_carry:
  fixes n :: "64 word"
  shows "unat (ucast n :: 32 word) + 2 ^ 32 * unat (drop_bit 32 n) = unat n"
proof -
  have "unat (ucast n :: 32 word) = unat n mod 2 ^ 32"
    by (simp add: unsigned_ucast_eq take_bit_eq_mod)
  moreover have "unat (drop_bit 32 n) = unat n div 2 ^ 32"
    by (simp add: drop_bit_eq_div unat_div)
  ultimately show ?thesis
    by simp
qed

lemma unat_ucast_32_64 [simp]: "unat (ucast (p :: 32 word) :: 64 word) = unat p"
  using unat_32_less [of p] by (simp add: unsigned_ucast_eq take_bit_nat_eq_self)

lemma carry_less: "unat n < 2 ^ 64 \<Longrightarrow> unat (drop_bit 32 (n :: 64 word)) < 2 ^ 32"
  by (simp add: drop_bit_eq_div unat_div less_mult_imp_div_less)

lemma unat_64_less: "unat (n :: 64 word) < 2 ^ 64"
  using unat_word_less [of n] by simp

lemma length_add_loop [simp]: "length a = length b \<Longrightarrow> length (add_loop carry a b) = length a"
  by (induction carry a b rule: add_loop.induct) (simp_all add: Let_def)

text \<open>One step of a loop in which the carry of the rest is known up to a multiple of the width.\<close>

lemma carry_rule:
  assumes "d + 2 ^ 32 * c = (n :: nat)" "r + 2 ^ w * k = c + R"
  shows "(d + 2 ^ 32 * r) + 2 ^ (32 + w) * k = n + 2 ^ 32 * R"
proof -
  have "2 ^ 32 * r + 2 ^ 32 * (2 ^ w * k) = 2 ^ 32 * c + 2 ^ 32 * R"
    using assms(2) by (metis distrib_left)
  then show ?thesis
    using assms(1) by (simp add: power_add)
qed

lemma add_loop_val:
  "length a = length b \<Longrightarrow> unat carry < 2 ^ 32 \<Longrightarrow>
   \<exists>k. val (add_loop carry a b) + 2 ^ (32 * length a) * k = unat carry + (val a + val b)"
proof (induction carry a b rule: add_loop.induct)
  case (1 carry p pn b bs)
  define n where "n = carry + ucast p + ucast b"
  have n: "unat n = unat carry + unat p + unat b"
    using 1(3) unat_32_less [of p] unat_32_less [of b] by (simp add: n_def unat_word_ariths)
  obtain k where "val (add_loop (drop_bit 32 n) pn bs) + 2 ^ (32 * length pn) * k
                  = unat (drop_bit 32 n) + (val pn + val bs)"
    using 1(1) [OF n_def] 1(2) carry_less [OF unat_64_less] by auto
  from carry_rule [OF digit_carry this]
  have "val (ucast n # add_loop (drop_bit 32 n) pn bs) + 2 ^ (32 * length (p # pn)) * k
        = unat carry + (val (p # pn) + val (b # bs))"
    using n by (simp add: algebra_simps power_add)
  moreover have "add_loop carry (p # pn) (b # bs) = ucast n # add_loop (drop_bit 32 n) pn bs"
    by (simp add: n_def Let_def)
  ultimately show ?case
    by metis
qed simp_all

lemma mod_eqI:
  fixes x y w k :: nat
  assumes "x + w * k = y" "x < w"
  shows "x = y mod w"
  using assms by (metis mod_less mod_mult_self2)

lemma base_add_length [simp]: "length a = length b \<Longrightarrow> length (base_add a b) = length a"
  by (simp add: base_add_def)

lemma base_add_val:
  assumes "length a = length b"
  shows "val (base_add a b) = (val a + val b) mod 2 ^ (32 * length a)"
proof -
  obtain k where "val (base_add a b) + 2 ^ (32 * length a) * k = val a + val b"
    using add_loop_val [OF assms, of 0] by (auto simp: base_add_def)
  then show ?thesis
    using val_less [of "base_add a b"] assms by (intro mod_eqI) simp_all
qed

lemma base_not_length [simp]: "length (base_not a) = length a"
  by (simp add: base_not_def)

lemma unat_not_32: "unat (NOT p :: 32 word) = 2 ^ 32 - 1 - unat p"
proof -
  have "NOT p = - 1 - p"
    by (simp add: not_eq_complement)
  then show ?thesis
    using unat_32_less [of p] by (simp add: unat_sub_if' unsigned_minus_1_eq_mask mask_eq_exp_minus_1)
qed

lemma base_not_val: "val (base_not a) + val a + 1 = 2 ^ (32 * length a)"
proof (induction a)
  case (Cons p pn)
  have "unat (NOT p) + unat p = 2 ^ 32 - 1"
    using unat_32_less [of p] by (simp add: unat_not_32)
  moreover have "2 ^ 32 * val (base_not pn) + 2 ^ 32 * val pn + 2 ^ 32 = 2 ^ 32 * 2 ^ (32 * length pn)"
    using Cons by (metis distrib_left mult.right_neutral)
  ultimately show ?case
    by (simp add: base_not_def power_add)
qed (simp add: base_not_def)

lemma base_inc_length [simp]: "length (base_inc a) = length a"
  by (induction a) simp_all

lemma base_inc_val: "val (base_inc a) = (val a + 1) mod 2 ^ (32 * length a)"
proof (induction a)
  case (Cons p pn)
  show ?case
  proof (cases "p + 1 = 0")
    case True
    then have "p = - 1"
      by (simp add: eq_neg_iff_add_eq_0)
    then have "unat p + 1 = 2 ^ 32"
      by (simp add: unsigned_minus_1_eq_mask mask_eq_exp_minus_1)
    then have "val (p # pn) + 1 = 2 ^ 32 * (val pn + 1)"
      by simp
    then show ?thesis
      using True Cons by (simp add: power_add mult_mod_right)
  next
    case False
    then have "unat (p + 1) \<noteq> 0"
      by (simp add: unsigned_eq_0_iff)
    moreover have "unat (p + 1) = (unat p + 1) mod 2 ^ 32"
      by (simp add: unat_word_ariths)
    ultimately have "unat (p + 1) = unat p + 1"
      using unat_32_less [of p] by (cases "unat p + 1 = 2 ^ 32") simp_all
    then have "val ((p + 1) # pn) = val (p # pn) + 1"
      by simp
    then show ?thesis
      using False val_less [of "(p + 1) # pn"] by simp
  qed
qed simp

lemma base_neg_length [simp]: "length (base_neg a) = length a"
  by (simp add: base_neg_def)

lemma base_neg_val: "val (base_neg a) = (2 ^ (32 * length a) - val a) mod 2 ^ (32 * length a)"
proof -
  have "val (base_not a) + 1 = 2 ^ (32 * length a) - val a"
    using base_not_val [of a] by linarith
  then show ?thesis
    by (simp add: base_neg_def base_inc_val)
qed

lemma base_sub_length [simp]: "length a = length b \<Longrightarrow> length (base_sub a b) = length a"
  by (simp add: base_sub_def)

lemma base_sub_val:
  assumes "length a = length b"
  shows "val (base_sub a b) = (val a + 2 ^ (32 * length a) - val b) mod 2 ^ (32 * length a)"
  using assms val_less [of b] by (simp add: base_sub_def base_add_val base_neg_val mod_add_right_eq)

lemma base_sub_val_le:
  assumes "length a = length b" "val b \<le> val a"
  shows "val (base_sub a b) = val a - val b"
proof -
  have "val (base_sub a b) = ((val a - val b) + 2 ^ (32 * length a)) mod 2 ^ (32 * length a)"
    using base_sub_val [OF assms(1)] assms(2) by (simp only: Nat.add_diff_assoc2)
  moreover have "val a - val b < 2 ^ (32 * length a)"
    using val_less [of a] by (rule less_imp_diff_less)
  ultimately show ?thesis
    by (simp only: mod_add_self2 mod_less)
qed

lemma mul32_loop_length [simp]: "length (mul32_loop carry b a) = length a"
  by (induction a arbitrary: carry) (simp_all add: Let_def)

lemma unat_mul_32: "unat (ucast (p :: 32 word) * ucast (b :: 32 word) :: 64 word) = unat p * unat b"
proof -
  have "unat p * unat b \<le> (2 ^ 32 - 1) * (2 ^ 32 - 1)"
    using unat_32_less [of p] unat_32_less [of b] by (intro mult_le_mono) simp_all
  then show ?thesis
    by (simp add: unat_word_ariths)
qed

lemma unat_mul_add_32:
  assumes "unat (c :: 64 word) + unat (d :: 64 word) \<le> 2 * (2 ^ 32 - 1)"
  shows "unat (c + d + ucast (p :: 32 word) * ucast (b :: 32 word)) = unat c + unat d + unat p * unat b"
proof -
  have "unat p * unat b \<le> (2 ^ 32 - 1) * (2 ^ 32 - 1)"
    using unat_32_less [of p] unat_32_less [of b] by (intro mult_le_mono) simp_all
  then have "unat c + unat d + unat p * unat b < 2 ^ 64"
    using assms by simp
  then show ?thesis
    by (simp add: unat_word_ariths unat_mul_32)
qed

lemma mul32_loop_val:
  "unat carry < 2 ^ 32 \<Longrightarrow>
   \<exists>k. val (mul32_loop carry b a) + 2 ^ (32 * length a) * k = unat carry + unat b * val a"
proof (induction a arbitrary: carry)
  case (Cons p pn)
  define n where "n = carry + 0 + ucast b * ucast p"
  have n: "unat n = unat carry + unat b * unat p"
    unfolding n_def using Cons.prems by (subst unat_mul_add_32) simp_all
  obtain k where "val (mul32_loop (drop_bit 32 n) b pn) + 2 ^ (32 * length pn) * k
                  = unat (drop_bit 32 n) + unat b * val pn"
    using Cons.IH carry_less [OF unat_64_less] by blast
  from carry_rule [OF digit_carry this] show ?case
    using n by (auto simp: Let_def n_def [simplified, symmetric] algebra_simps power_add intro!: exI [of _ k])
qed simp

lemma base_mul32_length [simp]: "length (base_mul32 a b) = length a"
  by (simp add: base_mul32_def)

lemma base_mul32_val: "val (base_mul32 a b) = (val a * unat b) mod 2 ^ (32 * length a)"
proof -
  obtain k where "val (base_mul32 a b) + 2 ^ (32 * length a) * k = val a * unat b"
    using mul32_loop_val [of 0 b a] by (auto simp: base_mul32_def mult.commute)
  then show ?thesis
    using val_less [of "base_mul32 a b"] by (intro mod_eqI) simp_all
qed


lemma mul_row_length [simp]: "length (mul_row carry p a b) = length a"
  by (induction carry p a b rule: mul_row.induct) (simp_all add: Let_def)

text \<open>
  A row of the product adds a digit times the other factor to the digits above a position; the
  factor may be longer than the digits that are left.
\<close>

lemma mul_row_val:
  "length a \<le> length b \<Longrightarrow> unat carry < 2 ^ 32 \<Longrightarrow>
   \<exists>k. val (mul_row carry p a b) + 2 ^ (32 * length a) * k
       = unat carry + (val a + unat p * val (take (length a) b))"
proof (induction carry p a b rule: mul_row.induct)
  case (1 carry p a as b bs)
  define n where "n = carry + ucast a + ucast p * ucast b"
  have n: "unat n = unat carry + unat a + unat p * unat b"
    unfolding n_def using 1(3) unat_32_less [of a] by (subst unat_mul_add_32) simp_all
  obtain k where "val (mul_row (drop_bit 32 n) p as bs) + 2 ^ (32 * length as) * k
                  = unat (drop_bit 32 n) + (val as + unat p * val (take (length as) bs))"
    using 1(1) [OF n_def] 1(2) carry_less [OF unat_64_less] by auto
  from carry_rule [OF digit_carry this]
  have "val (ucast n # mul_row (drop_bit 32 n) p as bs) + 2 ^ (32 * length (a # as)) * k
        = unat carry + (val (a # as) + unat p * val (take (length (a # as)) (b # bs)))"
    using n by (simp add: algebra_simps power_add)
  moreover have "mul_row carry p (a # as) (b # bs) = ucast n # mul_row (drop_bit 32 n) p as bs"
    by (simp add: n_def Let_def)
  ultimately show ?case
    by metis
qed auto

lemma val_take_mod: "val (take n b) = val b mod 2 ^ (32 * n)"
proof (cases "n \<le> length b")
  case True
  have "val b = val (take n b) + 2 ^ (32 * n) * val (drop n b)"
    using val_append [of "take n b" "drop n b"] True by simp
  then show ?thesis
    using val_less [of "take n b"] True by simp
next
  case False
  then have "val b < 2 ^ (32 * n)"
    using val_less [of b] by (meson less_le_trans power_increasing one_le_numeral mult_le_mono2 nat_le_linear)
  then show ?thesis
    using False by simp
qed

lemma mul_row_arith:
  fixes m r k d p t b q w j x :: nat
  assumes "m + r * k = d + p * t" "b = t + r * q" "w = j * r"
  shows "(x + j * m) + w * (k + p * q) = (x + j * d) + j * (p * b)"
proof -
  have "(x + j * m) + w * (k + p * q) = x + j * (m + r * k) + j * (p * (r * q))"
    by (simp add: assms(3) algebra_simps)
  then show ?thesis
    unfolding assms(1) assms(2) by (simp add: algebra_simps)
qed

lemma base_mul_row:
  fixes p :: "32 word"
  assumes "length a = w" "length b = w" "j < w"
  defines "a' \<equiv> take j a @ mul_row 0 p (drop j a) b"
  shows "length a' = w" "val a' mod 2 ^ (32 * w) = (val a + 2 ^ (32 * j) * (unat p * val b)) mod 2 ^ (32 * w)"
proof -
  show "length a' = w"
    using assms by simp
  obtain k where k: "val (mul_row 0 p (drop j a) b) + 2 ^ (32 * (w - j)) * k
                     = val (drop j a) + unat p * val (take (w - j) b)"
    using mul_row_val [of "drop j a" b 0 p] assms by auto
  have val: "val b = val (take (w - j) b) + 2 ^ (32 * (w - j)) * (val b div 2 ^ (32 * (w - j)))"
    by (simp add: val_take_mod)
  have w: "2 ^ (32 * w) = (2 :: nat) ^ (32 * j) * 2 ^ (32 * (w - j))"
    using assms by (simp flip: power_add add: distrib_left [symmetric])
  have "val a' + 2 ^ (32 * w) * (k + unat p * (val b div 2 ^ (32 * (w - j))))
        = val a + 2 ^ (32 * j) * (unat p * val b)"
    using mul_row_arith [OF k val w] assms val_append [of "take j a" "drop j a"] by (simp add: val_append)
  then show "val a' mod 2 ^ (32 * w) = (val a + 2 ^ (32 * j) * (unat p * val b)) mod 2 ^ (32 * w)"
    by (metis mod_mult_self2)
qed

lemma base_mul_loop:
  assumes "length pn = w" "length b = w" "n \<le> w"
  defines "a \<equiv> fold (\<lambda>j a. take j a @ mul_row 0 (pn ! j) (drop j a) b) [0..<n] (replicate w 0)"
  shows "length a = w \<and> val a mod 2 ^ (32 * w) = (val (take n pn) * val b) mod 2 ^ (32 * w)"
  using assms(3) unfolding a_def
proof (induction n)
  case (Suc n)
  let ?a = "fold (\<lambda>j a. take j a @ mul_row 0 (pn ! j) (drop j a) b) [0..<n] (replicate w 0)"
  have IH: "length ?a = w" "val ?a mod 2 ^ (32 * w) = (val (take n pn) * val b) mod 2 ^ (32 * w)"
    using Suc by simp_all
  have n: "n < w"
    using Suc.prems by simp
  have "(val ?a + 2 ^ (32 * n) * (unat (pn ! n) * val b)) mod 2 ^ (32 * w)
        = (val (take n pn) * val b + 2 ^ (32 * n) * (unat (pn ! n) * val b)) mod 2 ^ (32 * w)"
    using IH(2) by (rule mod_add_cong) simp
  also have "val (take n pn) * val b + 2 ^ (32 * n) * (unat (pn ! n) * val b) = val (take (Suc n) pn) * val b"
  proof -
    have "val (take (Suc n) pn) = val (take n pn) + 2 ^ (32 * n) * unat (pn ! n)"
      using n assms(1) by (simp add: take_Suc_conv_app_nth val_append)
    then show ?thesis
      by (simp only: distrib_right mult.assoc)
  qed
  finally have "val (take n ?a @ mul_row 0 (pn ! n) (drop n ?a) b) mod 2 ^ (32 * w)
                = val (take (Suc n) pn) * val b mod 2 ^ (32 * w)"
    using base_mul_row(2) [OF IH(1) assms(2) n, of "pn ! n"] by (simp only:)
  moreover have "fold (\<lambda>j a. take j a @ mul_row 0 (pn ! j) (drop j a) b) [0..<Suc n] (replicate w 0)
                 = take n ?a @ mul_row 0 (pn ! n) (drop n ?a) b"
    by simp
  ultimately show ?case
    using base_mul_row(1) [OF IH(1) assms(2) n, of "pn ! n"] by (metis (no_types))
next
  case 0
  show ?case
    by simp
qed

lemma base_mul_length [simp]:
  assumes "length a = length b"
  shows "length (base_mul a b) = length a"
  using base_mul_loop [OF refl assms [symmetric] le_refl] unfolding base_mul_def by (rule conjunct1)

lemma base_mul_val:
  assumes "length a = length b"
  shows "val (base_mul a b) = (val a * val b) mod 2 ^ (32 * length a)"
proof -
  have "val (base_mul a b) mod 2 ^ (32 * length a) = (val (take (length a) a) * val b) mod 2 ^ (32 * length a)"
    using base_mul_loop [OF refl assms [symmetric] le_refl] unfolding base_mul_def by (rule conjunct2)
  moreover have "val (base_mul a b) < 2 ^ (32 * length a)"
    using val_less [of "base_mul a b"] base_mul_length [OF assms] by simp
  ultimately show ?thesis
    by (metis mod_less take_all order_refl)
qed



section \<open>Shifts\<close>

lemma shl_step_length [simp]: "length (shl_step a k s i pn) = length pn"
  by (simp add: shl_step_def Let_def)

lemma shl_step_nth:
  "length pn = length a \<Longrightarrow> j < length a \<Longrightarrow> shl_step a k s i pn ! j =
   (if j = i + k then pn ! j OR push_bit s (a ! i)
    else if j = i + k + 1 \<and> s \<noteq> 0 then pn ! j OR drop_bit (32 - s) (a ! i) else pn ! j)"
  by (auto simp: shl_step_def Let_def nth_list_update)

lemma shl_loop_length: "length (fold (shl_step a k s) is pn) = length pn"
  by (induction "is" arbitrary: pn) simp_all

lemma shl_loop:
  "j < length a \<Longrightarrow> fold (shl_step a k s) [0..<n] (replicate (length a) 0) ! j =
    (if k \<le> j \<and> j - k < n then push_bit s (a ! (j - k)) else 0) OR
    (if k < j \<and> j - k - 1 < n \<and> s \<noteq> 0 then drop_bit (32 - s) (a ! (j - k - 1)) else 0)"
proof (induction n)
  case (Suc n)
  let ?pn = "fold (shl_step a k s) [0..<n] (replicate (length a) 0)"
  have *: "fold (shl_step a k s) [0..<Suc n] (replicate (length a) 0) = shl_step a k s n ?pn"
    by simp
  note step = shl_step_nth [of ?pn a j k s n, unfolded shl_loop_length, simplified, OF Suc.prems]
  consider "j = n + k" | "j = n + k + 1" "s \<noteq> 0" | "j \<noteq> n + k" "j = n + k + 1 \<longrightarrow> s = 0"
    by metis
  then show ?case
  proof cases
    case 1
    then show ?thesis
      unfolding * step using Suc.IH [OF Suc.prems] by (simp add: or.commute)
  next
    case 2
    then show ?thesis
      unfolding * step using Suc.IH [OF Suc.prems] by simp
  next
    case 3
    then have "(k \<le> j \<and> j - k < Suc n) = (k \<le> j \<and> j - k < n)"
      "(k < j \<and> j - k - 1 < Suc n \<and> s \<noteq> 0) = (k < j \<and> j - k - 1 < n \<and> s \<noteq> 0)"
      by auto
    then show ?thesis
      unfolding * step using Suc.IH [OF Suc.prems] 3 by auto
  qed
qed simp

lemma bit_32_less: "bit (p :: 32 word) n \<Longrightarrow> n < 32"
  using bit_imp_le_length [of p n] by simp

lemma base_shl_length [simp]: "length (base_shl a shift) = length a"
  by (simp add: base_shl_def shl_loop_length)

lemma bit_digit:
  assumes "r < 32"
  shows "bit (val pn) (32 * j + r) \<longleftrightarrow> j < length pn \<and> bit (pn ! j) r"
  using assms by (simp add: bit_val)

lemma base_shl_val: "val (base_shl a shift) = (val a * 2 ^ shift) mod 2 ^ (32 * length a)"
proof -
  define k s where "k = shift div 32" and "s = shift mod 32"
  have shift: "shift = 32 * k + s" and s: "s < 32"
    by (simp_all add: k_def s_def)
  have nth: "base_shl a shift ! j =
    (if k \<le> j \<and> j - k < length a then push_bit s (a ! (j - k)) else 0) OR
    (if k < j \<and> j - k - 1 < length a \<and> s \<noteq> 0 then drop_bit (32 - s) (a ! (j - k - 1)) else 0)"
    if "j < length a" for j
    using shl_loop [OF that] by (simp add: base_shl_def k_def s_def)
  have "bit (val (base_shl a shift)) m \<longleftrightarrow> bit (take_bit (32 * length a) (push_bit shift (val a))) m" for m
  proof -
    obtain j r where m: "m = 32 * j + r" and r: "r < 32"
      by (metis mult_div_mod_eq mod_less_divisor zero_less_numeral)
    have less: "m < 32 * length a \<longleftrightarrow> j < length a"
      using m r by auto
    show ?thesis
    proof (cases "s \<le> r")
      case True
      then have sh: "shift \<le> m \<longleftrightarrow> k \<le> j" "k \<le> j \<Longrightarrow> m - shift = 32 * (j - k) + (r - s)"
        using m r shift by auto
      have "\<not> bit (a ! i) (32 - s + r)" for i
        using True s bit_32_less [of "a ! i" "32 - s + r"] by auto
      then have "bit (base_shl a shift ! j) r \<longleftrightarrow> k \<le> j \<and> j - k < length a \<and> bit (a ! (j - k)) (r - s)"
        if "j < length a"
        using True r by (auto simp add: nth [OF that] bit_or_iff bit_push_bit_iff bit_drop_bit_eq)
      moreover have "bit (val a) (m - shift) \<longleftrightarrow> j - k < length a \<and> bit (a ! (j - k)) (r - s)" if "k \<le> j"
        unfolding sh(2) [OF that] using r by (intro bit_digit) simp
      ultimately show ?thesis
        using bit_digit [OF r, of "base_shl a shift" j] sh(1) less
        by (auto simp: m [symmetric] bit_take_bit_iff bit_push_bit_iff)
    next
      case False
      then have sh: "shift \<le> m \<longleftrightarrow> k < j" "k < j \<Longrightarrow> m - shift = 32 * (j - k - 1) + (32 - s + r)" "32 - s + r < 32" "s \<noteq> 0"
        using m r s shift by auto
      have "bit (base_shl a shift ! j) r \<longleftrightarrow> k < j \<and> j - k - 1 < length a \<and> bit (a ! (j - k - 1)) (32 - s + r)"
        if "j < length a"
        using False r sh(3,4) by (auto simp add: nth [OF that] bit_or_iff bit_push_bit_iff bit_drop_bit_eq)
      moreover have "bit (val a) (m - shift) \<longleftrightarrow> j - k - 1 < length a \<and> bit (a ! (j - k - 1)) (32 - s + r)" if "k < j"
        unfolding sh(2) [OF that] using sh(3) by (rule bit_digit)
      ultimately show ?thesis
        using bit_digit [OF r, of "base_shl a shift" j] sh(1) less
        by (auto simp: m [symmetric] bit_take_bit_iff bit_push_bit_iff)
    qed
  qed
  then have "val (base_shl a shift) = take_bit (32 * length a) (push_bit shift (val a))"
    by (rule bit_eqI)
  then show ?thesis
    by (simp add: take_bit_eq_mod push_bit_eq_mult)
qed

lemma shr_step_length [simp]: "length (shr_step a k s i pn) = length pn"
  by (simp add: shr_step_def Let_def)

lemma shr_step_nth:
  "length pn = length a \<Longrightarrow> j < length a \<Longrightarrow> i < length a \<Longrightarrow> shr_step a k s i pn ! j =
   (if i = j + k then pn ! j OR drop_bit s (a ! i)
    else if i = j + k + 1 \<and> s \<noteq> 0 then pn ! j OR push_bit (32 - s) (a ! i) else pn ! j)"
  by (auto simp: shr_step_def Let_def nth_list_update)

lemma shr_loop_length: "length (fold (shr_step a k s) is pn) = length pn"
  by (induction "is" arbitrary: pn) simp_all

lemma shr_loop:
  "j < length a \<Longrightarrow> n \<le> length a \<Longrightarrow> fold (shr_step a k s) [0..<n] (replicate (length a) 0) ! j =
    (if j + k < n then drop_bit s (a ! (j + k)) else 0) OR
    (if j + k + 1 < n \<and> s \<noteq> 0 then push_bit (32 - s) (a ! (j + k + 1)) else 0)"
proof (induction n)
  case (Suc n)
  let ?pn = "fold (shr_step a k s) [0..<n] (replicate (length a) 0)"
  have *: "fold (shr_step a k s) [0..<Suc n] (replicate (length a) 0) = shr_step a k s n ?pn"
    by simp
  have n: "n < length a" "n \<le> length a"
    using Suc.prems by simp_all
  note step = shr_step_nth [of ?pn a j n k s, unfolded shr_loop_length, simplified, OF Suc.prems(1) n(1)]
  consider "n = j + k" | "n = j + k + 1" "s \<noteq> 0" | "n \<noteq> j + k" "n = j + k + 1 \<longrightarrow> s = 0"
    by metis
  then show ?case
  proof cases
    case 1
    then show ?thesis
      unfolding * step using Suc.IH [OF Suc.prems(1) n(2)] by simp
  next
    case 2
    then show ?thesis
      unfolding * step using Suc.IH [OF Suc.prems(1) n(2)] by simp
  next
    case 3
    then have "(j + k < Suc n) = (j + k < n)" "(j + k + 1 < Suc n \<and> s \<noteq> 0) = (j + k + 1 < n \<and> s \<noteq> 0)"
      by auto
    then show ?thesis
      unfolding * step using Suc.IH [OF Suc.prems(1) n(2)] 3 by auto
  qed
qed simp

lemma base_shr_length [simp]: "length (base_shr a shift) = length a"
  by (simp add: base_shr_def shr_loop_length)

lemma base_shr_val: "val (base_shr a shift) = val a div 2 ^ shift"
proof -
  define k s where "k = shift div 32" and "s = shift mod 32"
  have shift: "shift = 32 * k + s" and s: "s < 32"
    by (simp_all add: k_def s_def)
  have nth: "base_shr a shift ! j =
    (if j + k < length a then drop_bit s (a ! (j + k)) else 0) OR
    (if j + k + 1 < length a \<and> s \<noteq> 0 then push_bit (32 - s) (a ! (j + k + 1)) else 0)"
    if "j < length a" for j
    using shr_loop [OF that order_refl] by (simp add: base_shr_def k_def s_def)
  have "bit (val (base_shr a shift)) m \<longleftrightarrow> bit (drop_bit shift (val a)) m" for m
  proof -
    obtain j r where m: "m = 32 * j + r" and r: "r < 32"
      by (metis mult_div_mod_eq mod_less_divisor zero_less_numeral)
    show ?thesis
    proof (cases "r + s < 32")
      case True
      then have sh: "shift + m = 32 * (j + k) + (s + r)" "s + r < 32"
        using m shift by simp_all
      have "bit (base_shr a shift ! j) r \<longleftrightarrow> j + k < length a \<and> bit (a ! (j + k)) (s + r)" if "j < length a"
        using True r by (auto simp add: nth [OF that] bit_or_iff bit_push_bit_iff bit_drop_bit_eq)
      moreover have "bit (val a) (shift + m) \<longleftrightarrow> j + k < length a \<and> bit (a ! (j + k)) (s + r)"
        unfolding sh(1) using sh(2) by (rule bit_digit)
      ultimately show ?thesis
        using bit_digit [OF r, of "base_shr a shift" j] by (auto simp: m [symmetric] bit_drop_bit_eq)
    next
      case False
      then have sh: "shift + m = 32 * (j + k + 1) + (r - (32 - s))" "r - (32 - s) < 32" "32 - s \<le> r" "s \<noteq> 0"
        using m r s shift by auto
      have "\<not> bit (a ! i) (s + r)" for i
        using False bit_32_less [of "a ! i" "s + r"] by auto
      then have "bit (base_shr a shift ! j) r \<longleftrightarrow> j + k + 1 < length a \<and> bit (a ! (j + k + 1)) (r - (32 - s))"
        if "j < length a"
        using r sh(3,4) by (simp add: nth [OF that] bit_or_iff bit_push_bit_iff bit_drop_bit_eq)
      moreover have "bit (val a) (shift + m) \<longleftrightarrow> j + k + 1 < length a \<and> bit (a ! (j + k + 1)) (r - (32 - s))"
        unfolding sh(1) using sh(2) by (rule bit_digit)
      ultimately show ?thesis
        using bit_digit [OF r, of "base_shr a shift" j] by (auto simp: m [symmetric] bit_drop_bit_eq)
    qed
  qed
  then have "val (base_shr a shift) = drop_bit shift (val a)"
    by (rule bit_eqI)
  then show ?thesis
    by (simp add: drop_bit_eq_div)
qed


section \<open>Comparison and size\<close>

lemma CompareTo_snoc:
  "CompareTo (pn @ [p]) (bs @ [b]) = (if p < b then - 1 else if p > b then 1 else CompareTo pn bs)"
  by (simp add: CompareTo_def)

lemma CompareTo_val: "length a = length b \<Longrightarrow> CompareTo a b = sgn (int (val a) - int (val b))"
proof (induction a arbitrary: b rule: rev_induct)
  case Nil
  then show ?case
    by (simp add: CompareTo_def)
next
  case (snoc p pn)
  then obtain bs q where b: "b = bs @ [q]" "length pn = length bs"
    by (cases b rule: rev_cases) auto
  let ?w = "2 ^ (32 * length pn) :: nat"
  have less: "val pn < ?w" "val bs < ?w"
    using val_less [of pn] val_less [of bs] b by simp_all
  have step: "x + ?w * m < y + ?w * n" if "x < ?w" "y < ?w" "m < n" for x y m n
  proof -
    have "x + ?w * m < ?w * (m + 1)"
      using that by simp
    also have "\<dots> \<le> ?w * n"
      using that by (intro mult_le_mono2) simp
    finally show ?thesis
      by simp
  qed
  consider "p < q" | "q < p" | "p = q"
    by fastforce
  then show ?case
  proof cases
    case 1
    then have "unat p < unat q"
      by (simp add: word_less_nat_alt)
    then have "val (pn @ [p]) < val (bs @ [q])"
      using step [OF less] b(2) by (simp add: val_append)
    then show ?thesis
      using 1 b(1) by (simp add: CompareTo_snoc)
  next
    case 2
    then have "unat q < unat p"
      by (simp add: word_less_nat_alt)
    then have "val (bs @ [q]) < val (pn @ [p])"
      using step [OF less(2) less(1)] b(2) by (simp add: val_append)
    moreover have "\<not> p < q"
      using 2 by simp
    ultimately show ?thesis
      using 2 b(1) by (simp add: CompareTo_snoc)
  next
    case 3
    then show ?thesis
      using snoc.IH [OF b(2)] b by (simp add: CompareTo_snoc val_append)
  qed
qed

lemma CompareTo_iff:
  assumes "length a = length b"
  shows "CompareTo a b \<ge> 0 \<longleftrightarrow> val b \<le> val a" "CompareTo a b > 0 \<longleftrightarrow> val b < val a" "CompareTo a b < 0 \<longleftrightarrow> val a < val b"
  unfolding CompareTo_val [OF assms] by (auto simp: sgn_if)

lemma high_bit_bounds:
  "unat p < 2 ^ Suc n \<Longrightarrow> p \<noteq> 0 \<Longrightarrow> n < 32 \<Longrightarrow>
   0 < high_bit n p \<and> 2 ^ (high_bit n p - 1) \<le> unat p \<and> unat p < 2 ^ high_bit n p"
proof (induction n)
  case 0
  then show ?case
    by (simp add: word_neq_0_conv word_less_nat_alt)
next
  case (Suc n)
  have "p AND push_bit (Suc n) 1 = 0 \<longleftrightarrow> \<not> bit (unat p) (Suc n)"
    using Suc.prems by (simp add: and_exp_eq_0_iff_not_bit bit_unsigned_iff del: power_Suc)
  moreover have "bit (unat p) (Suc n) \<longleftrightarrow> 2 ^ Suc n \<le> unat p"
  proof -
    have "unat p div 2 ^ Suc n < 2"
      using Suc.prems by (simp add: less_mult_imp_div_less)
    then have "odd (unat p div 2 ^ Suc n) \<longleftrightarrow> 0 < unat p div 2 ^ Suc n"
      by (auto simp: less_2_cases_iff)
    then show ?thesis
      unfolding bit_iff_odd by (simp add: div_greater_zero_iff del: power_Suc)
  qed
  ultimately show ?case
    using Suc by (auto simp del: power_Suc)
qed

lemma bits_loop_bounds:
  "n \<le> length pn \<Longrightarrow> val (take n pn) < 2 ^ bits_loop pn n \<and>
   (bits_loop pn n \<noteq> 0 \<longrightarrow> 2 ^ (bits_loop pn n - 1) \<le> val (take n pn))"
proof (induction n)
  case (Suc n)
  then have n: "n < length pn"
    by simp
  then have val: "val (take (Suc n) pn) = val (take n pn) + 2 ^ (32 * n) * unat (pn ! n)"
    by (simp add: take_Suc_conv_app_nth val_append)
  show ?case
  proof (cases "pn ! n = 0")
    case True
    then show ?thesis
      using Suc val by simp
  next
    case False
    define h where "h = high_bit 31 (pn ! n)"
    have h: "0 < h" "2 ^ (h - 1) \<le> unat (pn ! n)" "unat (pn ! n) < 2 ^ h"
      using high_bit_bounds [of "pn ! n" 31] False unat_32_less [of "pn ! n"] by (simp_all add: h_def)
    have "val (take n pn) < 2 ^ (32 * n)"
      using val_less [of "take n pn"] n by simp
    then have "val (take (Suc n) pn) < 2 ^ (32 * n) * (unat (pn ! n) + 1)"
      unfolding val by simp
    also have "\<dots> \<le> 2 ^ (32 * n) * 2 ^ h"
      using h by (intro mult_le_mono2) simp
    finally have "val (take (Suc n) pn) < 2 ^ (32 * n + h)"
      by (simp add: power_add)
    moreover have "2 ^ (32 * n + h - 1) \<le> val (take (Suc n) pn)"
    proof -
      have "(2 :: nat) ^ (32 * n + h - 1) = 2 ^ (32 * n) * 2 ^ (h - 1)"
        using h(1) by (simp flip: power_add)
      also have "\<dots> \<le> 2 ^ (32 * n) * unat (pn ! n)"
        using h by (intro mult_le_mono2)
      finally show ?thesis
        unfolding val by simp
    qed
    ultimately show ?thesis
      using False by (simp add: h_def)
  qed
qed simp

lemma base_bits_bounds:
  "val pn < 2 ^ base_bits pn" "base_bits pn \<noteq> 0 \<Longrightarrow> 2 ^ (base_bits pn - 1) \<le> val pn"
  using bits_loop_bounds [of "length pn" pn] by (simp_all add: base_bits_def)

lemma base_bits_0: "base_bits pn = 0 \<longleftrightarrow> val pn = 0"
  using base_bits_bounds [of pn] by (cases "base_bits pn") (auto simp: Suc_le_eq)



section \<open>Division\<close>

lemma val_set_bit:
  assumes "m div 32 < length pn" "\<not> bit (val pn) m"
  shows "val (pn[m div 32 := pn ! (m div 32) OR push_bit (m mod 32) 1]) = val pn + 2 ^ m"
proof -
  have "bit (val (pn[m div 32 := pn ! (m div 32) OR push_bit (m mod 32) 1])) n \<longleftrightarrow> bit (val pn OR 2 ^ m) n" for n
  proof -
    have "n = m \<longleftrightarrow> n div 32 = m div 32 \<and> n mod 32 = m mod 32"
      by (metis mult_div_mod_eq)
    moreover have "bit (push_bit (m mod 32) 1 :: 32 word) (n mod 32) \<longleftrightarrow> n mod 32 = m mod 32"
      by (auto simp: bit_exp_iff)
    ultimately show ?thesis
      using assms(1) by (auto simp: bit_val nth_list_update bit_or_iff bit_exp_iff)
  qed
  then have "val (pn[m div 32 := pn ! (m div 32) OR push_bit (m mod 32) 1]) = val pn OR 2 ^ m"
    by (rule bit_eqI)
  also have "\<dots> = val pn + 2 ^ m"
    using assms(2) by (intro disjunctive_add [symmetric]) (auto simp: bit_exp_iff)
  finally show ?thesis .
qed

text \<open>
  The invariant of the division: the shifted divisor is exact, the numerator is what the quotient
  so far leaves, and only the bits of the quotient above \<open>shift\<close> are set.
\<close>

lemma div_loop_val:
  assumes "length num = w" "length dv = w" "length pn = w" "n \<le> 32 * w"
    "2 * val dv = b * 2 ^ n" "val num < b * 2 ^ n" "0 < b" "2 ^ n dvd val pn"
  shows "length (div_loop n num dv pn) = w \<and> val (div_loop n num dv pn) = val pn + val num div b"
  using assms
proof (induction n arbitrary: num dv pn)
  case (Suc n)
  have dv: "val dv = b * 2 ^ n"
    using Suc.prems(5) by simp
  have shr: "2 * val (base_shr dv 1) = b * 2 ^ n" if "n \<noteq> 0"
    using that dv by (cases n) (simp_all add: base_shr_val)
  have rest: "length (div_loop n num' (base_shr dv 1) pn') = w \<and>
      val (div_loop n num' (base_shr dv 1) pn') = val pn' + val num' div b"
    if "length num' = w" "length pn' = w" "val num' < b * 2 ^ n" "2 ^ n dvd val pn'" for num' pn'
  proof (cases "n = 0")
    case True
    then show ?thesis
      using that by simp
  next
    case False
    then show ?thesis
      using Suc.IH [of num' "base_shr dv 1" pn'] that Suc.prems shr by simp
  qed
  have cmp: "CompareTo num dv \<ge> 0 \<longleftrightarrow> val dv \<le> val num"
    using Suc.prems by (simp add: CompareTo_iff del: power_Suc)
  show ?case
  proof (cases "val dv \<le> val num")
    case True
    have sub: "val (base_sub num dv) = val num - val dv"
      using base_sub_val_le [OF _ True] Suc.prems(1,2) by simp
    have "n div 32 < length pn"
      using Suc.prems by auto
    moreover have nbit: "\<not> bit (val pn) n"
      using Suc.prems(8) by (auto simp: bit_iff_odd elim!: dvdE)
    ultimately have set: "val (pn[n div 32 := pn ! (n div 32) OR push_bit (n mod 32) 1]) = val pn + 2 ^ n"
      by (rule val_set_bit)
    have "val num div b = 2 ^ n + (val num - val dv) div b"
    proof -
      have "val num = (val num - val dv) + 2 ^ n * b"
        using True dv by simp
      then show ?thesis
        using \<open>0 < b\<close> by (metis div_mult_self1 less_not_refl add.commute)
    qed
    moreover have "val num - val dv < b * 2 ^ n"
      using Suc.prems(6) dv by simp
    moreover have "2 ^ n dvd val pn + 2 ^ n"
      using Suc.prems(8) by (meson dvd_add dvd_refl dvd_trans le_imp_power_dvd lessI less_imp_le)
    ultimately show ?thesis
      using rest [of "base_sub num dv" "pn[n div 32 := pn ! (n div 32) OR push_bit (n mod 32) 1]"] True cmp sub set Suc.prems
      by simp
  next
    case False
    moreover have "2 ^ n dvd val pn"
      using Suc.prems(8) by (meson dvd_trans le_imp_power_dvd lessI less_imp_le)
    ultimately show ?thesis
      using rest [of num pn] cmp dv Suc.prems by simp
  qed
qed simp

lemma base_div_val:
  assumes "length a = length b"
  shows "val b = 0 \<Longrightarrow> base_div a b = Inl Division_by_zero"
    "val b \<noteq> 0 \<Longrightarrow> \<exists>q. base_div a b = Inr q \<and> length q = length a \<and> val q = val a div val b"
proof -
  show "val b = 0 \<Longrightarrow> base_div a b = Inl Division_by_zero"
    by (simp add: base_div_def base_bits_0)
  assume b: "val b \<noteq> 0"
  then have db: "base_bits b \<noteq> 0"
    by (simp add: base_bits_0)
  show "\<exists>q. base_div a b = Inr q \<and> length q = length a \<and> val q = val a div val b"
  proof (cases "base_bits b > base_bits a")
    case True
    have "val a < 2 ^ base_bits a"
      by (rule base_bits_bounds)
    also have "\<dots> \<le> 2 ^ (base_bits b - 1)"
      using True by (intro power_increasing) simp_all
    also have "\<dots> \<le> val b"
      using base_bits_bounds(2) [OF db] .
    finally show ?thesis
      using True db by (simp add: base_div_def)
  next
    case False
    define s where "s = base_bits a - base_bits b"
    have ba: "base_bits a = s + base_bits b"
      using False by (simp add: s_def)
    have "2 ^ (base_bits a - 1) \<le> val a"
      using base_bits_bounds(2) [of a] db ba by simp
    then have "(2 :: nat) ^ (base_bits a - 1) < 2 ^ (32 * length a)"
      using val_less [of a] by (rule le_less_trans)
    then have ba32: "base_bits a \<le> 32 * length a"
      by simp
    have "val b * 2 ^ s < 2 ^ base_bits b * 2 ^ s"
      using base_bits_bounds(1) [of b] by simp
    also have "\<dots> \<le> 2 ^ (32 * length a)"
      using ba32 ba by (simp flip: power_add add: add.commute)
    finally have shl: "val (base_shl b s) = val b * 2 ^ s"
      using assms by (simp add: base_shl_val)
    have "val a < 2 ^ base_bits a"
      by (rule base_bits_bounds)
    also have "\<dots> = 2 ^ (base_bits b - 1) * 2 ^ Suc s"
      using ba db by (simp flip: power_add power_Suc)
    also have "\<dots> \<le> val b * 2 ^ Suc s"
      using base_bits_bounds(2) [OF db] by (intro mult_le_mono1)
    finally have "val a < val b * 2 ^ Suc s" .
    moreover have "Suc s \<le> 32 * length a"
      using ba ba32 db by simp
    ultimately have "length (div_loop (Suc s) a (base_shl b s) (replicate (length a) 0)) = length a \<and>
        val (div_loop (Suc s) a (base_shl b s) (replicate (length a) 0)) = 0 + val a div val b"
      using div_loop_val [of a "length a" "base_shl b s" "replicate (length a) 0" "Suc s" "val b"] assms b shl by simp
    then show ?thesis
      using False db by (simp add: base_div_def Let_def s_def)
  qed
qed



section \<open>The compact form\<close>

lemma arith_uint256_of_length [simp]: "length (arith_uint256_of b) = WIDTH"
  by (simp add: arith_uint256_of_def base_uint_of_def)

lemma arith_uint256_of_val [simp]: "val (arith_uint256_of b) = unat b"
proof -
  have "replicate 8 (0 :: 32 word) = [0, 0, 0, 0, 0, 0, 0, 0]"
    by (simp add: numeral_eq_Suc)
  then have "val (arith_uint256_of b) = unat (ucast b :: 32 word) + 2 ^ 32 * unat (ucast (drop_bit 32 b) :: 32 word)"
    by (simp add: arith_uint256_of_def base_uint_of_def)
  also have "unat (ucast (drop_bit 32 b) :: 32 word) = unat (drop_bit 32 b)"
    using carry_less [OF unat_64_less, of b] by (simp add: unsigned_ucast_eq take_bit_nat_eq_self)
  finally show ?thesis
    using digit_carry [of b] by simp
qed

lemma GetLow64_val:
  assumes "2 \<le> length a"
  shows "unat (GetLow64 a) = val a mod 2 ^ 64"
proof -
  obtain p q pn where a: "a = p # q # pn"
    using assms by (cases a; cases "tl a") auto
  have "ucast p OR push_bit 32 (ucast q) = (ucast p + push_bit 32 (ucast q) :: 64 word)"
    by (intro disjunctive_add [symmetric]) (auto simp: bit_push_bit_iff bit_ucast_iff dest: bit_32_less)
  moreover have "unat (push_bit 32 (ucast q) :: 64 word) = unat q * 2 ^ 32"
    using unat_32_less [of q] by (simp add: push_bit_eq_mult unat_word_ariths)
  ultimately have "unat (GetLow64 a) = unat p + 2 ^ 32 * unat q"
    using unat_32_less [of p] unat_32_less [of q] by (simp add: GetLow64_def a unat_word_ariths)
  moreover have "val a = (unat p + 2 ^ 32 * unat q) + 2 ^ 64 * val pn"
    by (simp add: a)
  moreover have "unat p + 2 ^ 32 * unat q < 2 ^ 64"
    using unat_32_less [of p] unat_32_less [of q] by simp
  ultimately show ?thesis
    by simp
qed

text \<open>
  The compact form has a mantissa of 23 bits and an exponent to the base 256; its exponent is the
  least one for which the sign bit stays clear.
\<close>

definition compact_exp :: "nat \<Rightarrow> nat" where
  "compact_exp B = (if B = 0 then 0 else B div 8 + 1)"

definition compact_mant :: "nat \<Rightarrow> nat \<Rightarrow> nat" where
  "compact_mant e x = (if e \<le> 3 then x * 256 ^ (3 - e) else x div 256 ^ (e - 3))"

definition compact_value :: "nat \<Rightarrow> nat \<Rightarrow> nat" where
  "compact_value e m = (if e \<le> 3 then m div 256 ^ (3 - e) else m * 256 ^ (e - 3))"

lemma pow_8: "(2 :: nat) ^ (8 * n) = 256 ^ n"
  by (simp add: power_mult)

lemma and_7fffff: "unat (c AND 0x007fffff :: 32 word) = unat c mod 2 ^ 23"
proof -
  have "c AND 0x007fffff = take_bit 23 c"
    by (simp add: take_bit_eq_mask mask_eq_exp_minus_1)
  then show ?thesis
    by (simp only: unsigned_take_bit_eq) (simp add: take_bit_eq_mod)
qed

lemma unat_drop_bit: "unat (drop_bit n (w :: 'a::len word)) = unat w div 2 ^ n"
proof -
  have "unat (drop_bit n w) = drop_bit n (unat w)"
    by (rule bit_eqI) (auto simp: bit_unsigned_iff bit_drop_bit_eq dest: bit_imp_le_length)
  then show ?thesis
    by (simp add: drop_bit_eq_div)
qed

lemma unat_push_bit: "unat (push_bit n (w :: 'a::len word)) = unat w * 2 ^ n mod 2 ^ LENGTH('a)"
  by (simp only: unsigned_push_bit_eq) (simp add: take_bit_eq_mod push_bit_eq_mult)

lemma SetCompact_fst:
  fixes c :: "32 word"
  defines "e \<equiv> unat c div 2 ^ 24" and "m \<equiv> unat c mod 2 ^ 23"
  shows "length (fst (SetCompact c)) = WIDTH" "val (fst (SetCompact c)) = compact_value e m mod 2 ^ 256"
proof -
  have e: "unat (drop_bit 24 c) = e"
    by (simp add: e_def drop_bit_eq_div unat_div)
  have m: "unat (c AND 0x007fffff) = m"
    by (simp add: m_def and_7fffff)
  have m32: "m < 2 ^ 23"
    by (simp add: m_def)
  have ucast: "unat (ucast w :: 64 word) = unat w" for w :: "32 word"
    by simp
  show "length (fst (SetCompact c)) = WIDTH"
    by (simp add: SetCompact_def Let_def)
  show "val (fst (SetCompact c)) = compact_value e m mod 2 ^ 256"
  proof (cases "e \<le> 3")
    case True
    have "unat (drop_bit (8 * (3 - e)) (c AND 0x007fffff)) = m div 2 ^ (8 * (3 - e))"
      by (simp only: unat_drop_bit m)
    moreover have "m div 2 ^ (8 * (3 - e)) < 2 ^ 256"
    proof -
      have "m < 2 ^ 256"
        using m32 by simp
      then show ?thesis
        using div_le_dividend le_less_trans by blast
    qed
    ultimately show ?thesis
      using True by (simp add: SetCompact_def Let_def e compact_value_def pow_8)
  next
    case False
    then show ?thesis
      by (simp add: SetCompact_def Let_def e m base_shl_val compact_value_def pow_8)
  qed
qed


lemma bit_23: "c AND 0x00800000 \<noteq> 0 \<longleftrightarrow> bit (c :: 32 word) 23"
proof -
  have "(0x00800000 :: 32 word) = 2 ^ 23"
    by simp
  then show ?thesis
    by (simp only: and_exp_eq_0_iff_not_bit not_not)
qed

lemma compact_overflow:
  fixes m e :: nat
  assumes "m < 2 ^ 23" "3 < e"
  shows "m \<noteq> 0 \<and> (e > 34 \<or> m > 0xff \<and> e > 33 \<or> m > 0xffff \<and> e > 32) \<longleftrightarrow> 2 ^ 256 \<le> m * 256 ^ (e - 3)"
proof -
  consider "e \<le> 32" | "e = 33" | "e = 34" | "35 \<le> e"
    by linarith
  then show ?thesis
  proof cases
    case 1
    then have "(256 :: nat) ^ (e - 3) \<le> 256 ^ 29"
      by (intro power_increasing) simp_all
    then have "m * 256 ^ (e - 3) < 2 ^ 23 * 256 ^ 29"
      using assms(1) by (intro mult_less_le_imp_less) simp_all
    then show ?thesis
      using 1 by simp
  next
    case 4
    then have "(256 :: nat) ^ 32 \<le> 256 ^ (e - 3)"
      by (intro power_increasing) simp_all
    then have "2 ^ 256 \<le> m * 256 ^ (e - 3) \<longleftrightarrow> m \<noteq> 0"
      by (cases "m = 0") (auto intro: order_trans [of _ "256 ^ (e - 3)"])
    then show ?thesis
      using 4 by simp
  qed auto
qed

lemma SetCompact_flags:
  fixes c :: "32 word"
  defines "e \<equiv> unat c div 2 ^ 24" and "m \<equiv> unat c mod 2 ^ 23"
  shows "fst (snd (SetCompact c)) \<longleftrightarrow> compact_value e m \<noteq> 0 \<and> bit c 23"
    "snd (snd (SetCompact c)) \<longleftrightarrow> 2 ^ 256 \<le> compact_value e m"
proof -
  define nWord where
    "nWord = (if e \<le> 3 then drop_bit (8 * (3 - e)) (c AND 0x007fffff) else c AND 0x007fffff)"
  have e: "unat (drop_bit 24 c) = e"
    by (simp add: e_def unat_drop_bit)
  have m: "unat (c AND 0x007fffff) = m"
    by (simp add: m_def and_7fffff)
  have m23: "m < 2 ^ 23"
    by (simp add: m_def)
  have nWord: "unat nWord = (if e \<le> 3 then compact_value e m else m)"
    by (cases "e \<le> 3") (simp_all only: nWord_def unat_drop_bit m compact_value_def pow_8 if_True if_False)
  have zero: "nWord \<noteq> 0 \<longleftrightarrow> compact_value e m \<noteq> 0"
  proof -
    have "nWord \<noteq> 0 \<longleftrightarrow> unat nWord \<noteq> 0"
      by (simp only: unsigned_eq_0_iff)
    then show ?thesis
      unfolding nWord by (simp add: compact_value_def)
  qed
  have flags: "snd (SetCompact c) = (nWord \<noteq> 0 \<and> bit c 23,
      nWord \<noteq> 0 \<and> (e > 34 \<or> nWord > 0xff \<and> e > 33 \<or> nWord > 0xffff \<and> e > 32))"
    unfolding SetCompact_def Let_def e bit_23 nWord_def [symmetric] by simp
  show "fst (snd (SetCompact c)) \<longleftrightarrow> compact_value e m \<noteq> 0 \<and> bit c 23"
    using zero by (simp add: flags)
  show "snd (snd (SetCompact c)) \<longleftrightarrow> 2 ^ 256 \<le> compact_value e m"
  proof (cases "e \<le> 3")
    case True
    have "compact_value e m \<le> m"
      using True by (simp add: compact_value_def)
    then show ?thesis
      using True m23 by (simp add: flags)
  next
    case False
    then have "unat nWord = m"
      using nWord by simp
    then have "nWord > 0xff \<longleftrightarrow> m > 0xff" "nWord > 0xffff \<longleftrightarrow> m > 0xffff"
      by (simp_all add: word_less_nat_alt)
    moreover have "nWord \<noteq> 0 \<longleftrightarrow> m \<noteq> 0"
      using \<open>unat nWord = m\<close> unsigned_eq_0_iff [of nWord] by metis
    ultimately show ?thesis
      using compact_overflow [OF m23, of e] False by (simp add: flags compact_value_def)
  qed
qed

lemma base_bits_le: "base_bits a \<le> 32 * length a"
proof (cases "base_bits a = 0")
  case False
  then have "(2 :: nat) ^ (base_bits a - 1) < 2 ^ (32 * length a)"
    using base_bits_bounds(2) val_less [of a] by (meson le_less_trans)
  then show ?thesis
    by simp
qed simp

lemma compact_mant_Suc: "compact_mant n x div 256 = compact_mant (Suc n) x"
proof -
  consider "n \<le> 2" | "n = 3" | "3 < n"
    by linarith
  then show ?thesis
  proof cases
    case 1
    then have "3 - n = Suc (3 - Suc n)"
      by simp
    then show ?thesis
      using 1 by (simp add: compact_mant_def)
  next
    case 3
    then have "Suc n - 3 = Suc (n - 3)"
      by simp
    then show ?thesis
      using 3 by (simp add: compact_mant_def div_mult2_eq [symmetric] mult.commute)
  qed (simp add: compact_mant_def)
qed

text \<open>With a size in bytes that the number fits in, the mantissa has at most three bytes.\<close>

lemma compact_mant_less:
  assumes "x < 2 ^ B" and that: "8 * n \<le> B + 24"
  shows "compact_mant n x < 2 ^ (B + 24 - 8 * n)"
proof (cases "n \<le> 3")
  case True
  have "x * 256 ^ (3 - n) < 2 ^ B * 256 ^ (3 - n)"
    using assms(1) by simp
  also have "\<dots> = 2 ^ (B + 24 - 8 * n)"
    using True that by (simp flip: pow_8 power_add add: diff_mult_distrib2)
  finally show ?thesis
    using True by (simp add: compact_mant_def)
next
  case False
  have "(2 :: nat) ^ B = 2 ^ (B + 24 - 8 * n) * 256 ^ (n - 3)"
    using False that by (simp flip: pow_8 power_add add: diff_mult_distrib2)
  then have "x div 256 ^ (n - 3) < 2 ^ (B + 24 - 8 * n)"
    using assms(1) by (simp add: less_mult_imp_div_less)
  then show ?thesis
    using False by (simp add: compact_mant_def)
qed

lemma compact_mant_ge:
  assumes "2 ^ (8 * n - 1) \<le> x" "0 < n"
  shows "2 ^ 23 \<le> compact_mant n x"
proof (cases "n \<le> 3")
  case True
  have "(2 :: nat) ^ 23 = 2 ^ (8 * n - 1) * 256 ^ (3 - n)"
    using True assms(2) by (simp flip: pow_8 power_add add: diff_mult_distrib2)
  also have "\<dots> \<le> x * 256 ^ (3 - n)"
    using assms(1) by simp
  finally show ?thesis
    using True by (simp add: compact_mant_def)
next
  case False
  have "(2 :: nat) ^ (8 * n - 1) = 2 ^ (23 + 8 * (n - 3))"
    using False by (intro arg_cong [where f = "\<lambda>k. 2 ^ k"]) simp
  also have "\<dots> = 2 ^ 23 * 256 ^ (n - 3)"
    by (simp only: pow_8 power_add)
  finally have "(2 :: nat) ^ (8 * n - 1) = 2 ^ 23 * 256 ^ (n - 3)" .
  then have "2 ^ 23 * 256 ^ (n - 3) div 256 ^ (n - 3) \<le> x div 256 ^ (n - 3)"
    using assms(1) by (metis div_le_mono)
  then show ?thesis
    using False by (simp add: compact_mant_def)
qed

lemma div_8_up: "((B :: nat) + 7) div 8 = (if B mod 8 = 0 then B div 8 else B div 8 + 1)"
proof (cases "B mod 8 = 0")
  case True
  then obtain q where "B = 8 * q"
    by auto
  then show ?thesis
    by simp
next
  case False
  obtain q r where "B = 8 * q + r" "r < 8"
    by (metis mult_div_mod_eq mod_less_divisor zero_less_numeral)
  moreover from this have "B mod 8 = r" "B div 8 = q"
    by simp_all
  ultimately show ?thesis
    using False by (auto intro!: div_nat_eqI)
qed

text \<open>The mantissa before the sign bit is cleared.\<close>

lemma GetCompact_mantissa:
  assumes "length a = WIDTH"
  defines "n \<equiv> (base_bits a + 7) div 8"
  shows "unat (if n \<le> 3 then ucast (push_bit (8 * (3 - n)) (GetLow64 a))
               else ucast (GetLow64 (base_shr a (8 * (n - 3)))) :: 32 word) = compact_mant n (val a)"
    "compact_mant n (val a) < 2 ^ 24"
    "2 ^ 23 \<le> compact_mant n (val a) \<longleftrightarrow> base_bits a \<noteq> 0 \<and> base_bits a mod 8 = 0"
proof -
  have n: "base_bits a \<le> 8 * n" "8 * n \<le> base_bits a + 7"
    unfolding n_def by presburger+
  have less: "compact_mant n (val a) < 2 ^ (base_bits a + 24 - 8 * n)"
    using n by (intro compact_mant_less base_bits_bounds) simp
  also have "\<dots> \<le> 2 ^ 24"
    using n by (intro power_increasing) simp_all
  finally show 24: "compact_mant n (val a) < 2 ^ 24" .
  show "2 ^ 23 \<le> compact_mant n (val a) \<longleftrightarrow> base_bits a \<noteq> 0 \<and> base_bits a mod 8 = 0"
  proof (cases "base_bits a \<noteq> 0 \<and> base_bits a mod 8 = 0")
    case True
    then have "base_bits a = 8 * n" "0 < n"
      unfolding n_def by presburger+
    then show ?thesis
      using True compact_mant_ge [of n "val a"] base_bits_bounds(2) [of a] by simp
  next
    case False
    show ?thesis
    proof (cases "base_bits a = 0")
      case True
      then show ?thesis
        by (simp add: base_bits_0 compact_mant_def)
    next
      case nz: False
      then have "base_bits a + 24 - 8 * n \<le> 23"
        using False unfolding n_def by presburger
      then have "compact_mant n (val a) < 2 ^ 23"
        using less by (meson less_le_trans power_increasing one_le_numeral)
      then show ?thesis
        using False by simp
    qed
  qed
  have low: "unat (ucast x :: 32 word) = unat x mod 2 ^ 32" for x :: "64 word"
    by (simp add: unsigned_ucast_eq take_bit_eq_mod)
  show "unat (if n \<le> 3 then ucast (push_bit (8 * (3 - n)) (GetLow64 a))
               else ucast (GetLow64 (base_shr a (8 * (n - 3)))) :: 32 word) = compact_mant n (val a)"
  proof (cases "n \<le> 3")
    case True
    have "val a * 256 ^ (3 - n) < 2 ^ 24"
      using 24 True by (simp add: compact_mant_def)
    moreover from this have "val a < 2 ^ 24"
    proof -
      have "val a * 1 \<le> val a * 256 ^ (3 - n)"
        by (intro mult_le_mono2) simp
      then show ?thesis
        using \<open>val a * 256 ^ (3 - n) < 2 ^ 24\<close> by linarith
    qed
    moreover have "unat (push_bit (8 * (3 - n)) (GetLow64 a)) = (unat (GetLow64 a) * 2 ^ (8 * (3 - n))) mod 2 ^ 64"
      by (simp add: unat_push_bit)
    ultimately show ?thesis
      using True assms(1) by (simp only: if_True low GetLow64_val) (simp add: GetLow64_val compact_mant_def pow_8)
  next
    case False
    have "val a div 256 ^ (n - 3) < 2 ^ 24"
      using 24 False by (simp add: compact_mant_def)
    then show ?thesis
      using False assms(1) by (simp add: low GetLow64_val base_shr_val compact_mant_def pow_8)
  qed
qed

lemma GetCompact_eq:
  assumes "length a = WIDTH"
  defines "e \<equiv> compact_exp (base_bits a)"
  shows "\<exists>c. GetCompact False a = Some c \<and> unat c = e * 2 ^ 24 + compact_mant e (val a)"
    "compact_mant e (val a) < 2 ^ 23" "e \<le> 33"
proof -
  define n where "n = (base_bits a + 7) div 8"
  define w where "w = (if n \<le> 3 then ucast (push_bit (8 * (3 - n)) (GetLow64 a))
               else ucast (GetLow64 (base_shr a (8 * (n - 3)))) :: 32 word)"
  note mant = GetCompact_mantissa [OF assms(1), folded n_def, folded w_def]
  have bits: "base_bits a \<le> 256"
    using base_bits_le [of a] assms(1) by simp
  then show e33: "e \<le> 33"
    by (auto simp: e_def compact_exp_def)
  have sign: "w AND 0x00800000 \<noteq> 0 \<longleftrightarrow> 2 ^ 23 \<le> compact_mant n (val a)"
  proof -
    have "unat w div 2 ^ 23 < 2"
      using mant(1,2) by (simp add: less_mult_imp_div_less)
    then have "odd (unat w div 2 ^ 23) \<longleftrightarrow> 0 < unat w div 2 ^ 23"
      by (auto simp: less_2_cases_iff)
    moreover have "bit w 23 \<longleftrightarrow> bit (unat w) 23"
      by (simp add: bit_unsigned_iff)
    ultimately show ?thesis
      unfolding bit_23 by (simp add: bit_iff_odd div_greater_zero_iff mant(1))
  qed
  define p where "p = (if w AND 0x00800000 \<noteq> 0 then (drop_bit 8 w, n + 1) else (w, n))"
  have p: "unat (fst p) = compact_mant e (val a)" "snd p = e"
  proof -
    have "compact_exp B = (if B \<noteq> 0 \<and> B mod 8 = 0 then (B + 7) div 8 + 1 else (B + 7) div 8)" for B
      using div_8_up [of B] by (simp add: compact_exp_def)
    then have "e = (if 2 ^ 23 \<le> compact_mant n (val a) then n + 1 else n)"
      using mant(3) unfolding e_def n_def by metis
    then show "unat (fst p) = compact_mant e (val a)" "snd p = e"
      using sign by (simp_all add: p_def unat_drop_bit mant(1) compact_mant_Suc)
  qed
  show m23: "compact_mant e (val a) < 2 ^ 23"
  proof (cases "2 ^ 23 \<le> compact_mant n (val a)")
    case True
    then have "compact_mant e (val a) = compact_mant n (val a) div 256"
      using p sign by (simp add: p_def compact_mant_Suc)
    then show ?thesis
      using mant(2) by simp
  next
    case False
    then show ?thesis
      using p sign mant(1) by (simp add: p_def)
  qed
  obtain c s where cs: "p = (c, s)"
    by (cases p)
  have "c AND NOT 0x007fffff = 0"
  proof -
    have "c AND 0x007fffff = c"
      using m23 p(1) cs by (simp add: word_unat_eq_iff and_7fffff)
    then have "c AND NOT 0x007fffff = c AND (0x007fffff AND NOT 0x007fffff)"
      by (metis and.assoc)
    then show ?thesis
      by simp
  qed
  moreover have "GetCompact False a = (let (nCompact, nSize) = p in
      if nCompact AND NOT 0x007fffff \<noteq> 0 \<or> \<not> nSize < 256 then None else Some (nCompact OR of_nat (nSize * 2 ^ 24)))"
    unfolding GetCompact_def Let_def p_def n_def [symmetric] w_def [symmetric] by simp
  ultimately have "GetCompact False a = Some (c OR of_nat (e * 2 ^ 24))"
    using cs p(2) e33 by simp
  moreover have "unat (c OR of_nat (e * 2 ^ 24)) = e * 2 ^ 24 + compact_mant e (val a)"
  proof -
    have c: "\<not> bit c k" if "24 \<le> k" for k
    proof -
      have "unat c < 2 ^ k"
        using m23 p(1) cs that by (simp add: less_le_trans [OF _ power_increasing [of 23 k 2]])
      then have "\<not> bit (unat c) k"
        by (simp add: bit_iff_odd)
      then show ?thesis
        by (simp add: bit_unsigned_iff)
    qed
    have "(of_nat (e * 2 ^ 24) :: 32 word) = push_bit 24 (of_nat e)"
      by (simp add: push_bit_eq_mult)
    then have "c OR of_nat (e * 2 ^ 24) = c + of_nat (e * 2 ^ 24)"
      using c by (intro disjunctive_add [symmetric]) (auto simp: bit_push_bit_iff)
    then show ?thesis
      using e33 m23 p(1) cs by (simp add: unat_word_ariths unsigned_of_nat take_bit_nat_eq_self)
  qed
  ultimately show "\<exists>c. GetCompact False a = Some c \<and> unat c = e * 2 ^ 24 + compact_mant e (val a)"
    by blast
qed


text \<open>
  Rounding to the compact form keeps the size in bits, so it is idempotent and monotone.
\<close>

definition compact_round :: "nat \<Rightarrow> nat \<Rightarrow> nat" where
  "compact_round e x = compact_value e (compact_mant e x)"

lemma compact_round_eq: "compact_round e x = (if e \<le> 3 then x else x - x mod 256 ^ (e - 3))"
  by (simp add: compact_round_def compact_value_def compact_mant_def minus_mod_eq_div_mult)

lemma compact_round_le: "compact_round e x \<le> x"
  by (simp add: compact_round_eq)

lemma compact_mant_round: "compact_mant e (compact_round e x) = compact_mant e x"
  by (simp add: compact_round_def compact_mant_def compact_value_def)

lemma compact_round_ge:
  assumes "0 < B" "2 ^ (B - 1) \<le> x" "e = compact_exp B"
  shows "2 ^ (B - 1) \<le> compact_round e x"
proof (cases "e \<le> 3")
  case False
  then have e: "8 * (e - 3) \<le> B - 1"
    using assms by (auto simp: compact_exp_def)
  have "(2 :: nat) ^ (B - 1) = 2 ^ (B - 1 - 8 * (e - 3)) * 256 ^ (e - 3)"
    using e by (simp flip: pow_8 power_add)
  then have "2 ^ (B - 1 - 8 * (e - 3)) * 256 ^ (e - 3) div 256 ^ (e - 3) \<le> x div 256 ^ (e - 3)"
    using assms(2) by (metis div_le_mono)
  then have "2 ^ (B - 1 - 8 * (e - 3)) * 256 ^ (e - 3) \<le> x div 256 ^ (e - 3) * 256 ^ (e - 3)"
    by simp
  then show ?thesis
    using False \<open>2 ^ (B - 1) = _\<close> by (simp add: compact_round_def compact_value_def compact_mant_def)
qed (use assms in \<open>simp add: compact_round_eq\<close>)

lemma base_bits_unique: "val a < 2 ^ B \<Longrightarrow> 0 < B \<Longrightarrow> 2 ^ (B - 1) \<le> val a \<Longrightarrow> base_bits a = B"
proof -
  assume *: "val a < 2 ^ B" "0 < B" "2 ^ (B - 1) \<le> val a"
  then have "val a \<noteq> 0"
    by (metis not_one_le_zero one_le_numeral one_le_power order_trans)
  then have nz: "base_bits a \<noteq> 0"
    by (simp add: base_bits_0)
  have "(2 :: nat) ^ (B - 1) < 2 ^ base_bits a" "(2 :: nat) ^ (base_bits a - 1) < 2 ^ B"
    using base_bits_bounds(1) [of a] base_bits_bounds(2) [OF nz] * by linarith+
  then show ?thesis
    using *(2) nz by simp
qed

lemma base_bits_mono: "val a \<le> val b \<Longrightarrow> base_bits a \<le> base_bits b"
proof (cases "base_bits a = 0")
  case False
  assume "val a \<le> val b"
  then have "(2 :: nat) ^ (base_bits a - 1) < 2 ^ base_bits b"
    using base_bits_bounds(1) [of b] base_bits_bounds(2) [OF False] by linarith
  then show ?thesis
    by simp
qed simp

definition round_target :: "arith_uint256 \<Rightarrow> nat" where
  "round_target a = compact_round (compact_exp (base_bits a)) (val a)"

lemma round_target_bounds:
  "round_target a \<le> val a" "val a \<noteq> 0 \<Longrightarrow> 2 ^ (base_bits a - 1) \<le> round_target a"
  using compact_round_ge [OF _ base_bits_bounds(2) refl, of a]
  by (simp_all add: round_target_def compact_round_le base_bits_0)

lemma round_target_mono: "val a \<le> val b \<Longrightarrow> round_target a \<le> round_target b"
proof (cases "base_bits a = base_bits b")
  case True
  assume "val a \<le> val b"
  then show ?thesis
    using True by (simp add: round_target_def compact_round_def compact_value_def compact_mant_def div_le_mono)
next
  case False
  assume le: "val a \<le> val b"
  then have less: "base_bits a < base_bits b"
    using False base_bits_mono [of a b] by simp
  have "round_target a \<le> val a"
    by (rule round_target_bounds)
  also have "\<dots> < 2 ^ base_bits a"
    by (rule base_bits_bounds)
  also have "\<dots> \<le> 2 ^ (base_bits b - 1)"
    using less by (intro power_increasing) simp_all
  also have "\<dots> \<le> round_target b"
    using less by (intro round_target_bounds) (auto simp: base_bits_0 [symmetric])
  finally show ?thesis
    by simp
qed

text \<open>What the compact form keeps of a number: it never asserts, reads back as the rounded number
  with both flags clear, and is a fixed point of another round.\<close>

lemma compact_roundtrip:
  assumes "length a = WIDTH"
  obtains c r where "GetCompact False a = Some c" "SetCompact c = (r, False, False)" "length r = WIDTH"
    "val r = round_target a" "GetCompact False r = Some c"
proof -
  define e where "e = compact_exp (base_bits a)"
  obtain c where c: "GetCompact False a = Some c" "unat c = e * 2 ^ 24 + compact_mant e (val a)"
    and m: "compact_mant e (val a) < 2 ^ 23" and e: "e \<le> 33"
    using GetCompact_eq [OF assms] unfolding e_def by blast
  have em: "unat c div 2 ^ 24 = e" "unat c mod 2 ^ 23 = compact_mant e (val a)"
  proof -
    show "unat c div 2 ^ 24 = e"
      unfolding c(2) using m by (intro div_nat_eqI) simp_all
    have "e * 2 ^ 24 + compact_mant e (val a) = compact_mant e (val a) + 2 ^ 23 * (2 * e)"
      by simp
    then show "unat c mod 2 ^ 23 = compact_mant e (val a)"
      unfolding c(2) using m by (metis mod_less mod_mult_self2)
  qed
  have rt: "compact_value e (compact_mant e (val a)) = round_target a"
    by (simp add: round_target_def compact_round_def e_def)
  have less: "round_target a < 2 ^ 256"
    using round_target_bounds(1) [of a] val_less [of a] assms by simp
  obtain r neg ov where r: "SetCompact c = (r, neg, ov)"
    by (cases "SetCompact c")
  have val: "length r = WIDTH" "val r = round_target a"
    using SetCompact_fst [of c, unfolded em rt r] less by simp_all
  have "\<not> bit c 23"
  proof -
    have "unat c div 2 ^ 23 = 2 * e"
      unfolding c(2) using m by (intro div_nat_eqI) simp_all
    then have "\<not> bit (unat c) 23"
      by (simp add: bit_iff_odd)
    then show ?thesis
      by (simp add: bit_unsigned_iff)
  qed
  then have flags: "\<not> neg" "\<not> ov"
    using SetCompact_flags [of c, unfolded em rt r] less by simp_all
  have bits: "base_bits r = base_bits a"
  proof (cases "val a = 0")
    case True
    then have "val r = 0"
      using val(2) round_target_bounds(1) [of a] by simp
    then show ?thesis
      using True by (metis base_bits_0)
  next
    case False
    then show ?thesis
      using val(2) round_target_bounds [of a] base_bits_bounds(1) [of a]
      by (intro base_bits_unique) (auto simp: base_bits_0 [symmetric])
  qed
  obtain c' where c': "GetCompact False r = Some c'" "unat c' = e * 2 ^ 24 + compact_mant e (val r)"
    using GetCompact_eq(1) [OF val(1)] bits unfolding e_def by auto
  have "compact_mant e (val r) = compact_mant e (val a)"
    unfolding val(2) round_target_def e_def [symmetric] by (rule compact_mant_round)
  then have "c' = c"
    using c(2) c'(2) by (simp add: word_unat_eq_iff)
  then show thesis
    using that c(1) r val flags c'(1) by simp
qed


section \<open>Properties\<close>

text \<open>
  C26.  Arithmetic on big integers, at every width: the digit loops compute sum, difference,
  product and left shift modulo the width, and exactly the right shift, the comparison and the
  number of bits; the shift-and-subtract loop of the division ends with the quotient, and
  throws exactly when the divisor is zero.
\<close>

theorem base_uint_refines_nat:
  assumes "length a = length b"
  shows "val (base_add a b) = (val a + val b) mod 2 ^ (32 * length a) \<and>
    val (base_sub a b) = (val a + 2 ^ (32 * length a) - val b) mod 2 ^ (32 * length a) \<and>
    val (base_mul a b) = val a * val b mod 2 ^ (32 * length a) \<and>
    val (base_mul32 a b32) = val a * unat b32 mod 2 ^ (32 * length a) \<and>
    val (base_shl a shift) = val a * 2 ^ shift mod 2 ^ (32 * length a) \<and>
    val (base_shr a shift) = val a div 2 ^ shift \<and>
    CompareTo a b = sgn (int (val a) - int (val b)) \<and>
    (val a < 2 ^ base_bits a \<and> (base_bits a = 0 \<or> 2 ^ (base_bits a - 1) \<le> val a)) \<and>
    (case base_div a b of Inl e \<Rightarrow> val b = 0
     | Inr q \<Rightarrow> val b \<noteq> 0 \<and> length q = length a \<and> val q = val a div val b)"
proof (intro conjI)
  show "case base_div a b of Inl e \<Rightarrow> val b = 0
        | Inr q \<Rightarrow> val b \<noteq> 0 \<and> length q = length a \<and> val q = val a div val b"
    using base_div_val [OF assms] by (cases "val b = 0") auto
  show "base_bits a = 0 \<or> 2 ^ (base_bits a - 1) \<le> val a"
    using base_bits_bounds(2) by blast
qed (simp_all only: base_add_val base_sub_val base_mul_val base_mul32_val base_shl_val base_shr_val CompareTo_val
    base_bits_bounds assms)

theorem base_uint_refines_nat_witness:
  "length [7, 1 :: 32 word] = length [2, 0 :: 32 word] \<and>
   (case base_div [7, 1] [2, 0] of Inl e \<Rightarrow> False | Inr q \<Rightarrow> val q = (7 + 2 ^ 32) div 2)"
  using base_uint_refines_nat [of "[7, 1]" "[2, 0]" 0 0] by (simp split: sum.splits)

text \<open>
  C27.  The compact form of a 256-bit number: \<open>GetCompact\<close> never hits its asserts, what it
  writes is read back by \<open>SetCompact\<close> as a non-negative number without overflow, that number
  is the original one rounded down by less than one part in \<open>2 ^ 15\<close>, it has the same
  compact form, and rounding keeps the order of numbers.
\<close>

theorem GetCompact_rounds:
  assumes "length a = WIDTH" "length b = WIDTH" "val a \<le> val b"
  shows "\<exists>c r c' r'. GetCompact False a = Some c \<and> SetCompact c = (r, False, False) \<and> GetCompact False r = Some c \<and>
    val r \<le> val a \<and> (val a - val r) * 2 ^ 15 \<le> val a \<and>
    GetCompact False b = Some c' \<and> SetCompact c' = (r', False, False) \<and> val r \<le> val r'"
proof -
  obtain c r where r: "GetCompact False a = Some c" "SetCompact c = (r, False, False)" "val r = round_target a"
    "GetCompact False r = Some c"
    using compact_roundtrip [OF assms(1)] by metis
  obtain c' r' where r': "GetCompact False b = Some c'" "SetCompact c' = (r', False, False)" "val r' = round_target b"
    using compact_roundtrip [OF assms(2)] by metis
  have "(val a - round_target a) * 2 ^ 15 \<le> val a"
  proof (cases "compact_exp (base_bits a) \<le> 3")
    case True
    then show ?thesis
      by (simp add: round_target_def compact_round_eq)
  next
    case False
    define e where "e = compact_exp (base_bits a)"
    have bits: "base_bits a \<noteq> 0" "8 * (e - 3) + 15 \<le> base_bits a - 1"
      using False by (auto simp: e_def compact_exp_def split: if_splits)
    have "val a - round_target a = val a mod 256 ^ (e - 3)"
      using False by (simp add: round_target_def compact_round_eq e_def)
    also have "\<dots> < 256 ^ (e - 3)"
      by simp
    finally have "(val a - round_target a) * 2 ^ 15 \<le> 256 ^ (e - 3) * 2 ^ 15"
      by simp
    also have "\<dots> = 2 ^ (8 * (e - 3) + 15)"
      by (simp only: pow_8 power_add)
    also have "\<dots> \<le> 2 ^ (base_bits a - 1)"
      using bits(2) by (intro power_increasing) simp_all
    also have "\<dots> \<le> val a"
      using base_bits_bounds(2) [OF bits(1)] .
    finally show ?thesis .
  qed
  then show ?thesis
    using r r' round_target_bounds(1) [of a] round_target_mono [OF assms(3)] by auto
qed

theorem GetCompact_rounds_witness:
  "\<exists>c r. GetCompact False (arith_uint256_of 0x12345678) = Some c \<and> SetCompact c = (r, False, False) \<and>
         val r \<le> 0x12345678"
  using GetCompact_rounds [of "arith_uint256_of 0x12345678" "arith_uint256_of 0x12345678"] by auto

end
