(* ===== verification/Spec2Isabelle.thy ===== *)
theory Spec2Isabelle
  imports QuantumSpend Coins Block ArithUint256
begin

text \<open>
  Verification of the script system of a Bitcoin node with post-quantum signatures.

  The node (\<open>src/src\<close>) is a fork of Bitcoin Core in which ML-DSA-65 and SLH-DSA-192f keys
  can own outputs: the opcode \<open>OP_NOP4\<close> becomes \<open>OP_CHECKSIG_EX\<close>, enabled by a new
  verification flag, and quantum keys are paid through pay-to-witness-script-hash outputs.
  Modelled is the part that decides whether a transaction input is allowed to spend an output,
  with the data formats and the keys around it.

  \<^item> \<^bold>\<open>Prelude.\<close>  \<open>Bytes\<close>: bytes are 8-bit words, byte vectors lists of them;
    little endian numbers (\<open>crypto/common.h\<close>), the error monad \<open>bindE\<close> and the fact
    collections shared by the other theories.

  \<^item> \<^bold>\<open>Formats.\<close>  \<open>Serialize\<close> (\<open>serialize.h\<close>): a reader takes a stream and
    returns a value and the rest of the stream, or nothing.  The locales \<open>codec\<close> and
    \<open>canonical_codec\<close> state what writing and reading promise one another; they are
    interpreted for \<open>CompactSize\<close>, \<open>VARINT\<close>, byte vectors, and lifted to vectors of
    any format.  \<open>Transaction\<close> (\<open>primitives/transaction.h\<close>) interprets them for
    every part of a transaction, in the format with and the format without witnesses.

  \<^item> \<^bold>\<open>Scripts.\<close>  \<open>ScriptNum\<close>, \<open>Opcodes\<close>, \<open>Script\<close>
    (\<open>script/script.h\<close>, \<open>.cpp\<close>): numbers on the stack with their overflow asserts,
    opcodes, building and reading scripts, counting signature operations.
    \<open>Solver\<close> (\<open>script/solver.cpp\<close>, \<open>addresstype.cpp\<close>): the templates of
    standard scripts and the destinations they pay to.

  \<^item> \<^bold>\<open>Quantum keys.\<close>  \<open>QuantumKey\<close> (\<open>crypto/quantum_key.cpp\<close>), with
    liboqs and \<open>CKey\<close> as arguments; \<open>QuantumSignature\<close>
    (\<open>script/quantum_signature.cpp\<close>) and \<open>QuantumWitness\<close>
    (\<open>script/quantum_witness.cpp\<close>): the encodings of quantum signatures and of the
    scripts that check them.

  \<^item> \<^bold>\<open>Interpreter.\<close>  \<open>ScriptTypes\<close>, \<open>SigEncoding\<close>, \<open>CondStack\<close>,
    \<open>Interpreter\<close> (\<open>script/interpreter.h\<close>, \<open>.cpp\<close>): flags and errors, encoding
    rules of keys and signatures, the condition stack, and \<open>EvalScript\<close> with one definition
    for each opcode or group of opcodes of its switch.  Its state is the record
    \<^typ>\<open>EvalState\<close>: the code's local variables, with the stacks as lists, top first, and
    the position in the script as the bytes that are left.  What the code takes from outside is in
    \<^typ>\<open>EvalEnv\<close>: flags, signature version, the hash functions and the signature
    checker.

  \<^item> \<^bold>\<open>Behaviour of the interpreter.\<close>  \<open>EvalInvariants\<close>: a postcondition calculus
    for the error monad, the invariant of the loop, the resource limits in every state reached,
    and that no assert fires.  \<open>Execution\<close>: what the interpreter does on the standard
    scripts, by symbolic execution; the matching of multisig signatures is characterised by
    order-preserving matchings.  \<open>SoftFork\<close>: adding flags other than the quantum flag
    never makes a failing script succeed.

  \<^item> \<^bold>\<open>Spending.\<close>  \<open>Sighash\<close>: the messages that signatures sign, with their
    precomputed parts.  \<open>Checker\<close>: the signature checker of a transaction input, an
    instance of the checker interface that \<open>EvalScript\<close> takes.  \<open>Verify\<close>:
    \<open>VerifyScript\<close> with pay-to-script-hash, witness programs and Taproot (all
    \<open>script/interpreter.cpp\<close>).  \<open>VerifySafety\<close>: no assert fires in it and adding
    flags is a soft fork.  \<open>Validation\<close> (\<open>validation.cpp\<close>,
    \<open>policy/policy.h\<close>): \<open>CheckInputScripts\<close>, with its cache and with its checks run
    inline or queued, and the flag sets of policy and blocks.

  \<^item> \<^bold>\<open>Caches and threads.\<close>  \<open>CuckooCache\<close> (\<open>cuckoocache.h\<close>): the
    set of \<open>uint256\<close> that may forget elements; what it promises is the locale
    \<open>lossy_set\<close>, interpreted on it, and is all that its users rely on.  \<open>SigCache\<close>
    (\<open>script/sigcache.cpp\<close>): signature checks with the cache have the results of those
    without.  \<open>CheckQueue\<close> (\<open>checkqueue.h\<close>): the queue and its threads as a step
    relation in which each critical section is a step; the result of a run, and that
    \<open>Complete\<close> returns under every scheduler.

  \<^item> \<^bold>\<open>Signing.\<close>  \<open>Sign\<close> (\<open>script/sign.cpp\<close>):
    \<open>ProduceSignature\<close>.  \<open>QuantumSpend\<close>: which outputs of quantum keys it can
    spend, with the scripts of the quantum descriptors (\<open>script/descriptor.cpp\<close>).

  \<^item> \<^bold>\<open>Coins.\<close>  \<open>CoinsList\<close>, \<open>Coins\<close> (\<open>coins.h\<close>,
    \<open>coins.cpp\<close>, \<open>txdb.cpp\<close>): the caches of unspent outputs, with the doubly linked list
    of flagged entries as pointers in a map, over any base view.  The locales
    \<open>coins_view\<close>, \<open>coins_writer\<close> and \<open>coins_backend\<close> state what a
    view promises; they are interpreted for the database and for a cache over it, and a run of
    operations has the results of the same run on a plain map.

  \<^item> \<^bold>\<open>Blocks and big integers.\<close>  \<open>Block\<close> (\<open>primitives/block.h\<close>,
    \<open>consensus/merkle.cpp\<close>): headers, blocks, transaction hashes and merkle roots; the root
    determines the transactions of an unmutated tree of known height, up to hash collisions.
    \<open>ArithUint256\<close> (\<open>arith_uint256.cpp\<close>): the digit loops compute arithmetic on
    numbers modulo the width, and the compact form of targets rounds down monotonically.

  A failed assert is the error \<open>ASSERT_FAIL\<close>, the counting value at the end of the error
  enumeration, which no code path returns.  Numbers are words where the code's width matters and
  natural numbers where the code's limits keep them small.  Loops over a script are recursions on
  the bytes that are left and terminate because reading an instruction consumes a byte; the
  loops over the linked list of coins are partial functions that are shown to return; there is no
  fuel anywhere in the model.

  \<^bold>\<open>Not modelled.\<close>  The hash functions, libsecp256k1 and liboqs are arguments.  Logging,
  locking and memory clearing have no counterpart; where threads matter, in the check queue, the
  steps are those that the locks make atomic.  Signing for Taproot outputs and Miniscript are
  arguments of the signing code.  The checks of transactions and blocks outside the scripts, the
  block index and the chain state, policy, the memory pool, wallet, network, files and user
  interfaces are not modelled.
\<close>

end
